(* ===== verification/Prelude.thy ===== *)
theory Prelude
  imports Main "HOL-Library.Word"
begin

text \<open>
  Shared ground of the development: the machine integers and C strings the program uses,
  the functions of the C library it calls on them (\<open>strncpy\<close>, \<open>strncmp\<close>, \<open>strcspn\<close>,
  \<open>snprintf\<close>, \<open>atoi\<close>, \<open>htonl\<close> and their kin), the byte-level encoding of fixed-size
  fields, and the generic lemmas the component theories share.

  A \<open>char\<close> is one byte, as in C. A pointer to characters is the list of characters that
  can be read from it; its C string (\<open>cstr\<close>) ends at the first NUL or, when there is none
  in the memory given, at the end of that memory.
\<close>

unbundle bit_operations_syntax

type_synonym byte = "8 word"
type_synonym u16 = "16 word"
type_synonym u32 = "32 word"
type_synonym u64 = "64 word"

named_theorems cstr_simps "C strings: reading, bounded copies and comparisons"
named_theorems wire_simps "byte-level layout of the packets"

section \<open>C strings\<close>

abbreviation NUL :: char where
  "NUL \<equiv> CHR 0x00"

definition cstr :: "string \<Rightarrow> string" where
  "cstr s = takeWhile (\<lambda>c. c \<noteq> NUL) s"

definition strlen :: "string \<Rightarrow> nat" where
  "strlen s = length (cstr s)"

text \<open>\<open>strncpy (dest, src, n)\<close>: at most \<open>n\<close> characters, padded with NUL up to \<open>n\<close>; the rest of
  the destination array is untouched.\<close>

definition strncpy :: "string \<Rightarrow> string \<Rightarrow> nat \<Rightarrow> string" where
  "strncpy dest src n =
     (let s = take n (cstr src) in s @ replicate (n - length s) NUL @ drop n dest)"

text \<open>\<open>strncmp (a, b, n) == 0\<close>.\<close>

definition strncmp_eq :: "string \<Rightarrow> string \<Rightarrow> nat \<Rightarrow> bool" where
  "strncmp_eq a b n \<longleftrightarrow> take n (cstr a) = take n (cstr b)"

text \<open>\<open>buf[strcspn (buf, reject)] = 0\<close> leaves the characters before the first rejected one.\<close>

definition cut_at :: "string \<Rightarrow> string \<Rightarrow> string" where
  "cut_at reject s = takeWhile (\<lambda>c. c \<notin> set reject) (cstr s)"

text \<open>\<open>snprintf (buf, n, ...)\<close> of a text keeps the first \<open>n - 1\<close> characters.\<close>

definition snprintf :: "nat \<Rightarrow> string \<Rightarrow> string" where
  "snprintf n s = take (n - 1) s"

text \<open>\<open>strchr (s, c)\<close>: what follows the pointer it returns, the character included.\<close>

definition strchr :: "string \<Rightarrow> char \<Rightarrow> string option" where
  "strchr s c =
     (let r = dropWhile (\<lambda>x. x \<noteq> c) (cstr s) in if r = [] then None else Some r)"

definition strstr :: "string \<Rightarrow> string \<Rightarrow> bool" where
  "strstr hay needle \<longleftrightarrow> (\<exists>i \<in> set [0..<Suc (length hay)]. take (length needle) (drop i hay) = needle)"

text \<open>The index of the last occurrence (\<open>strrchr (s, c) - s\<close>).\<close>

fun strrchr :: "string \<Rightarrow> char \<Rightarrow> nat option" where
  "strrchr [] c = None"
| "strrchr (x # xs) c =
     (case strrchr xs c of Some i \<Rightarrow> Some (Suc i) | None \<Rightarrow> if x = c then Some 0 else None)"

definition isspace :: "char \<Rightarrow> bool" where
  "isspace c \<longleftrightarrow> c \<in> {CHR 0x20, CHR 0x09, CHR 0x0A, CHR 0x0B, CHR 0x0C, CHR 0x0D}"

abbreviation code :: "char \<Rightarrow> nat" where
  "code c \<equiv> of_char c"

definition isdigit :: "char \<Rightarrow> bool" where
  "isdigit c \<longleftrightarrow> 48 \<le> code c \<and> code c \<le> 57"

definition isalnum :: "char \<Rightarrow> bool" where
  "isalnum c \<longleftrightarrow> isdigit c \<or> 65 \<le> code c \<and> code c \<le> 90 \<or> 97 \<le> code c \<and> code c \<le> 122"

lemma cstr_Nil [simp]: "cstr [] = []"
  by (simp add: cstr_def)

lemma cstr_no_nul: "NUL \<notin> set (cstr s)"
  by (auto simp: cstr_def dest: set_takeWhileD)

lemma length_cstr: "length (cstr s) \<le> length s"
  by (simp add: cstr_def length_takeWhile_le)

lemma cstr_id: "NUL \<notin> set s \<Longrightarrow> cstr s = s"
  unfolding cstr_def by (rule takeWhile_eq_all_conv [THEN iffD2]) auto

lemma cstr_append_nul [simp]: "NUL \<notin> set s \<Longrightarrow> cstr (s @ NUL # t) = s"
  unfolding cstr_def by (subst takeWhile_append2) auto

lemma cstr_pad [simp]: "NUL \<notin> set s \<Longrightarrow> cstr (s @ replicate n NUL) = s"
  by (cases n) (simp_all add: cstr_id)

lemma cstr_idem [simp]: "cstr (cstr s) = cstr s"
  by (rule cstr_id) (rule cstr_no_nul)

lemma cstr_append: "NUL \<notin> set s \<Longrightarrow> cstr (s @ t) = s @ cstr t"
  unfolding cstr_def by (subst takeWhile_append2) auto

lemma cstr_take [simp]: "cstr (take n (cstr s)) = take n (cstr s)"
  by (rule cstr_id) (meson cstr_no_nul in_set_takeD)

lemma cstr_append_left: "NUL \<in> set s \<Longrightarrow> cstr (s @ t) = cstr s"
  unfolding cstr_def by (rule takeWhile_append1) auto

lemma cstr_nil_iff: "cstr s = [] \<longleftrightarrow> s = [] \<or> hd s = NUL"
  by (cases s) (auto simp: cstr_def)

lemma length_strncpy: "length dest = N \<Longrightarrow> n \<le> N \<Longrightarrow> length (strncpy dest src n) = N"
  by (simp add: strncpy_def Let_def)

lemma cstr_strncpy:
  assumes "n < length dest" and "drop n dest = replicate m NUL" and "0 < m"
  shows "cstr (strncpy dest src n) = take n (cstr src)"
proof -
  let ?s = "take n (cstr src)"
  have nz: "NUL \<notin> set ?s" by (meson cstr_no_nul in_set_takeD)
  have "strncpy dest src n = ?s @ replicate (n - length ?s + m) NUL"
    by (simp add: strncpy_def Let_def assms(2) flip: replicate_add)
  with nz show ?thesis by simp
qed

lemma strncmp_eq_refl [simp]: "strncmp_eq a a n"
  by (simp add: strncmp_eq_def)

lemma strncmp_eq_sym: "strncmp_eq a b n \<longleftrightarrow> strncmp_eq b a n"
  by (auto simp: strncmp_eq_def)

lemma strncmp_eq_short:
  "length (cstr a) < n \<Longrightarrow> length (cstr b) < n \<Longrightarrow> strncmp_eq a b n \<longleftrightarrow> cstr a = cstr b"
  by (simp add: strncmp_eq_def)

lemma cut_at_no_reject: "set (cut_at reject s) \<inter> set reject = {}"
  by (auto simp: cut_at_def dest: set_takeWhileD)

section \<open>Decimal numbers\<close>

fun dec :: "nat \<Rightarrow> string" where
  "dec n = (if n < 10 then [char_of (48 + n)] else dec (n div 10) @ [char_of (48 + n mod 10)])"

declare dec.simps [simp del]

text \<open>\<open>%u\<close> of an unsigned word, \<open>%d\<close> of an \<open>int\<close>.\<close>

definition dec_w :: "'a::len word \<Rightarrow> string" where
  "dec_w w = dec (unat w)"

definition dec_int :: "int \<Rightarrow> string" where
  "dec_int i = (if i < 0 then CHR ''-'' # dec (nat (- i)) else dec (nat i))"

definition digit :: "char \<Rightarrow> nat" where
  "digit c = code c - 48"

definition digits_val :: "string \<Rightarrow> nat" where
  "digits_val ds = foldl (\<lambda>a c. 10 * a + digit c) 0 ds"

text \<open>
  \<open>atoi\<close> as glibc computes it: leading white space, an optional sign, the longest run of
  digits, saturated as \<open>strtol\<close> does and truncated to \<open>int\<close>.
\<close>

definition atoi :: "string \<Rightarrow> int" where
  "atoi s =
     (let t = dropWhile isspace (cstr s);
          neg = (case t of c # _ \<Rightarrow> c = CHR ''-'' | [] \<Rightarrow> False);
          u = (case t of c # r \<Rightarrow> if c = CHR ''-'' \<or> c = CHR ''+'' then r else t | [] \<Rightarrow> []);
          v = int (digits_val (takeWhile isdigit u));
          l = (if neg then max (- (2 ^ 63)) (- v) else min (2 ^ 63 - 1) v)
      in sint (word_of_int l :: 32 word))"

lemma code_digit: "d < 10 \<Longrightarrow> code (char_of (48 + d :: nat)) = 48 + d"
  by (simp add: of_char_of)

lemma isdigit_digit [simp]: "d < 10 \<Longrightarrow> isdigit (char_of (48 + d :: nat))"
  by (simp add: isdigit_def code_digit del: of_char_of)

lemma digit_of [simp]: "d < 10 \<Longrightarrow> digit (char_of (48 + d :: nat)) = d"
  by (simp add: digit_def code_digit del: of_char_of)

lemma dec_digits: "\<forall>c \<in> set (dec n). isdigit c"
proof (induction n rule: dec.induct)
  case (1 n)
  show ?case
  proof (cases "n < 10")
    case True
    then show ?thesis by (subst dec.simps) simp
  next
    case False
    with 1 have "\<forall>c \<in> set (dec (n div 10)). isdigit c" by blast
    with False show ?thesis by (subst dec.simps) simp
  qed
qed

lemma dec_nonempty [simp]: "dec n \<noteq> []"
  by (subst dec.simps) simp

lemma digits_val_snoc: "digits_val (ds @ [c]) = 10 * digits_val ds + digit c"
  by (simp add: digits_val_def)

lemma digits_val_dec [simp]: "digits_val (dec n) = n"
proof (induction n rule: dec.induct)
  case (1 n)
  show ?case
  proof (cases "n < 10")
    case True
    then show ?thesis by (subst dec.simps) (simp add: digits_val_def)
  next
    case False
    with 1 have "digits_val (dec (n div 10)) = n div 10" by blast
    with False show ?thesis by (subst dec.simps) (simp add: digits_val_snoc)
  qed
qed

lemma length_dec: "n < 10 ^ Suc k \<Longrightarrow> length (dec n) \<le> Suc k"
proof (induction k arbitrary: n)
  case 0
  then show ?case by (subst dec.simps) simp
next
  case (Suc k)
  show ?case
  proof (cases "n < 10")
    case True
    then show ?thesis by (subst dec.simps) simp
  next
    case False
    have "n div 10 < 10 ^ Suc k" using Suc.prems by (simp add: less_mult_imp_div_less)
    then have "length (dec (n div 10)) \<le> Suc k" by (rule Suc.IH)
    with False show ?thesis by (subst dec.simps) simp
  qed
qed

lemma length_dec_u32: "length (dec_w (w :: u32)) \<le> 10"
proof -
  have "unat w < 2 ^ 32" using unsigned_less [of w, where ?'a = nat] by simp
  then have "unat w < 10 ^ Suc 9" by simp
  then show ?thesis unfolding dec_w_def using length_dec by fastforce
qed

lemma length_dec_u16: "length (dec_w (w :: u16)) \<le> 5"
proof -
  have "unat w < 2 ^ 16" using unsigned_less [of w, where ?'a = nat] by simp
  then have "unat w < 10 ^ Suc 4" by simp
  then show ?thesis unfolding dec_w_def using length_dec by fastforce
qed

lemma isdigit_not_space: "isdigit c \<Longrightarrow> \<not> isspace c"
  by (auto simp: isspace_def isdigit_def)

lemma isdigit_not_sign: "isdigit c \<Longrightarrow> c \<noteq> CHR ''-'' \<and> c \<noteq> CHR ''+'' \<and> c \<noteq> NUL"
  by (auto simp: isdigit_def)

lemma dec_no_nul: "NUL \<notin> set (dec n)"
  using dec_digits isdigit_not_sign by blast

text \<open>Reading back a number that was printed, up to a character that is no digit.\<close>

lemma atoi_dec_trunc:
  assumes "n < 2 ^ 63" and "t = [] \<or> \<not> isdigit (hd t)"
  shows "atoi (dec n @ t) = sint (word_of_int (int n) :: 32 word)"
proof -
  obtain c r where d: "dec n = c # r" by (meson dec_nonempty neq_Nil_conv)
  have c: "isdigit c" using dec_digits [of n] d by simp
  have s: "cstr (dec n @ t) = dec n @ cstr t" by (rule cstr_append) (rule dec_no_nul)
  have ct: "cstr t = [] \<or> \<not> isdigit (hd (cstr t))"
    using assms(2) by (cases t) (auto simp: cstr_def)
  have "takeWhile isdigit (dec n @ cstr t) = dec n @ takeWhile isdigit (cstr t)"
    by (rule takeWhile_append2) (use dec_digits in blast)
  with ct have tw: "takeWhile isdigit (dec n @ cstr t) = dec n"
    by (cases "cstr t") auto
  have dw: "dropWhile isspace (dec n @ cstr t) = dec n @ cstr t"
    using d c isdigit_not_space by simp
  have m: "min (2 ^ 63 - 1) (int n) = int n"
    using assms(1) by simp
  show ?thesis
    unfolding atoi_def Let_def s dw
    using tw d c isdigit_not_sign [OF c] m digits_val_dec [of n] by simp
qed

lemma atoi_dec:
  assumes "n < 2 ^ 31" and "t = [] \<or> \<not> isdigit (hd t)"
  shows "atoi (dec n @ t) = int n"
proof -
  have "sint (word_of_int (int n) :: 32 word) = int n"
    unfolding signed_of_int using assms(1) by (simp add: signed_take_bit_int_eq_self)
  then show ?thesis using atoi_dec_trunc [OF _ assms(2), of n] assms(1) by simp
qed

text \<open>A printed 32-bit or 16-bit counter is read back unchanged, whatever the sign \<open>atoi\<close> gives it.\<close>

lemma atoi_dec_u32: "word_of_int (atoi (dec_w (w :: u32))) = w"
proof -
  have "unat w < 2 ^ 32" using unsigned_less [of w, where ?'a = nat] by simp
  then have "atoi (dec_w w) = sint (word_of_int (int (unat w)) :: 32 word)"
    using atoi_dec_trunc [of "unat w" "[]"] by (simp add: dec_w_def)
  then show ?thesis by simp
qed

lemma atoi_dec_u16: "word_of_int (atoi (dec_w (w :: u16))) = w"
proof -
  have "unat w < 2 ^ 16" using unsigned_less [of w, where ?'a = nat] by simp
  then have "atoi (dec_w w) = int (unat w)"
    using atoi_dec [of "unat w" "[]"] by (simp add: dec_w_def)
  then show ?thesis by simp
qed

section \<open>Bytes and fixed-size fields\<close>

definition byte_of :: "char \<Rightarrow> byte" where
  "byte_of c = of_char c"

definition char_of_byte :: "byte \<Rightarrow> char" where
  "char_of_byte b = char_of (unat b)"

lemma code_less: "code c < 256"
proof -
  have "code c = code c mod 256" by (metis char_of_char char_of_mod_256 of_char_of)
  then show ?thesis using mod_less_divisor [of 256 "code c"] by simp
qed

lemma unat_byte_of: "unat (byte_of c) = code c"
proof -
  have "byte_of c = of_nat (code c)" by (simp add: byte_of_def of_nat_of_char)
  then show ?thesis using code_less [of c] by (simp add: unsigned_of_nat take_bit_nat_eq_self)
qed

lemma char_of_byte_of [simp]: "char_of_byte (byte_of c) = c"
  by (simp add: char_of_byte_def unat_byte_of)

lemma byte_of_char_of [simp]: "byte_of (char_of_byte b) = b"
proof -
  have "unat b < 256" using unsigned_less [of b, where ?'a = nat] by simp
  then have "unat (byte_of (char_of_byte b)) = unat b"
    by (simp add: unat_byte_of char_of_byte_def)
  then show ?thesis by (rule unsigned_word_eqI)
qed

lemma map_char_of_byte_of [simp]: "map (char_of_byte \<circ> byte_of) s = s"
  by (simp add: comp_def)

text \<open>\<open>htons\<close> and \<open>htonl\<close> put the most significant byte first on the wire.\<close>

definition be16 :: "u16 \<Rightarrow> byte list" where
  "be16 w = [ucast (drop_bit 8 w), ucast w]"

definition be32 :: "u32 \<Rightarrow> byte list" where
  "be32 w = [ucast (drop_bit 24 w), ucast (drop_bit 16 w), ucast (drop_bit 8 w), ucast w]"

definition of_be16 :: "byte list \<Rightarrow> u16" where
  "of_be16 bs = (case bs of a # b # _ \<Rightarrow> push_bit 8 (ucast a) OR ucast b | _ \<Rightarrow> 0)"

definition of_be32 :: "byte list \<Rightarrow> u32" where
  "of_be32 bs =
     (case bs of a # b # c # d # _ \<Rightarrow>
        push_bit 24 (ucast a) OR push_bit 16 (ucast b) OR push_bit 8 (ucast c) OR ucast d
      | _ \<Rightarrow> 0)"

lemma length_be [wire_simps, simp]: "length (be16 v) = 2" "length (be32 w) = 4"
  by (simp_all add: be16_def be32_def)

lemma of_be16_be16 [wire_simps, simp]: "of_be16 (be16 w) = w"
  by (simp add: of_be16_def be16_def, rule bit_word_eqI) (auto simp: bit_simps)

lemma of_be32_be32 [wire_simps, simp]: "of_be32 (be32 w) = w"
proof (rule bit_word_eqI)
  fix n
  assume "n < LENGTH(32)"
  then consider "n < 8" | "8 \<le> n" "n < 16" | "16 \<le> n" "n < 24" | "24 \<le> n" "n < 32"
    by fastforce
  then show "bit (of_be32 (be32 w)) n \<longleftrightarrow> bit w n"
    by cases (auto simp: of_be32_def be32_def bit_simps)
qed

lemma of_be16_append [wire_simps, simp]: "2 \<le> length xs \<Longrightarrow> of_be16 (xs @ ys) = of_be16 xs"
  by (auto simp: of_be16_def split: list.splits)

lemma of_be32_append [wire_simps, simp]: "4 \<le> length xs \<Longrightarrow> of_be32 (xs @ ys) = of_be32 xs"
  by (auto simp: of_be32_def split: list.splits)

lemma be16_of_be16 [wire_simps]: "length bs = 2 \<Longrightarrow> be16 (of_be16 bs) = bs"
proof -
  assume "length bs = 2"
  then obtain a b where bs: "bs = [a, b]" by (auto simp: numeral_2_eq_2 length_Suc_conv)
  show ?thesis unfolding bs of_be16_def be16_def
    by simp (intro conjI bit_word_eqI; auto simp: bit_simps dest: bit_imp_le_length)
qed

lemma be32_of_be32 [wire_simps]: "length bs = 4 \<Longrightarrow> be32 (of_be32 bs) = bs"
proof -
  assume "length bs = 4"
  then obtain a b c d where bs: "bs = [a, b, c, d]" by (auto simp: numeral_eq_Suc length_Suc_conv)
  show ?thesis unfolding bs of_be32_def be32_def
    by simp (intro conjI bit_word_eqI; auto simp: bit_simps dest: bit_imp_le_length)
qed

text \<open>A field of a packed struct: \<open>n\<close> bytes from offset \<open>k\<close>.\<close>

definition field :: "nat \<Rightarrow> nat \<Rightarrow> 'a list \<Rightarrow> 'a list" where
  "field k n xs = take n (drop k xs)"

definition chars_at :: "nat \<Rightarrow> nat \<Rightarrow> byte list \<Rightarrow> string" where
  "chars_at k n bs = map char_of_byte (field k n bs)"

definition bytes :: "string \<Rightarrow> byte list" where
  "bytes s = map byte_of s"

lemma length_bytes [simp, wire_simps]: "length (bytes s) = length s"
  by (simp add: bytes_def)

lemma length_field: "length (field k n xs) = min n (length xs - k)"
  by (simp add: field_def)

lemma bytes_chars_at [wire_simps]: "bytes (chars_at k n bs) = field k n bs"
  by (simp add: bytes_def chars_at_def comp_def)

lemma chars_of_bytes [simp, wire_simps]: "map char_of_byte (bytes s) = s"
  by (simp add: bytes_def)

lemma bytes_inject [simp]: "bytes s = bytes t \<longleftrightarrow> s = t"
  by (metis chars_of_bytes)

lemma field_append: "field k n xs @ field (k + n) m xs = field k (n + m) xs"
  unfolding field_def by (metis add.commute drop_drop take_add)

lemma field_full: "field 0 (length xs) xs = xs"
  by (simp add: field_def)

lemma nth_field_one: "k < length xs \<Longrightarrow> [xs ! k] = field k 1 xs"
  by (simp add: field_def take_Suc_conv_app_nth hd_drop_conv_nth take_Suc)

lemma field_skip [wire_simps]:
  "length xs \<le> k \<Longrightarrow> field k n (xs @ ys) = field (k - length xs) n ys"
  by (simp add: field_def)

lemma field_prefix [wire_simps]:
  "length xs = n \<Longrightarrow> field 0 n (xs @ ys) = xs"
  by (simp add: field_def)

section \<open>Lists and lookups\<close>

lemma takeWhile_replicate_append:
  "\<forall>x \<in> set xs. P x \<Longrightarrow> \<not> P y \<Longrightarrow> takeWhile P (xs @ y # ys) = xs"
  by (subst takeWhile_append2) auto

lemma length_filter_update:
  assumes "i < length xs" and "P y" and "\<not> P (xs ! i)"
  shows "length (filter P (xs[i := y])) = Suc (length (filter P xs))"
  using assms by (simp add: upd_conv_take_nth_drop id_take_nth_drop [of i xs, THEN arg_cong [of _ _ "\<lambda>l. length (filter P l)"]])

lemma length_filter_update_same:
  assumes "i < length xs" and "P y \<longleftrightarrow> P (xs ! i)"
  shows "length (filter P (xs[i := y])) = length (filter P xs)"
  using assms by (simp add: upd_conv_take_nth_drop id_take_nth_drop [of i xs, THEN arg_cong [of _ _ "\<lambda>l. length (filter P l)"]])

lemma nth_at: "k = length xs \<Longrightarrow> (xs @ y # ys) ! k = y"
  by simp

lemma update_at: "k = length xs \<Longrightarrow> (xs @ y # ys)[k := z] = xs @ z # ys"
  by simp

section \<open>Machines and their invariants\<close>

text \<open>
  A component that reacts to events: what one event keeps (as long as the event is one the
  invariant allows for), a run of any length keeps.
\<close>

locale invariant_machine =
  fixes step :: "'s \<Rightarrow> 'e \<Rightarrow> 's"
    and inv :: "'s \<Rightarrow> bool"
    and allowed :: "'e \<Rightarrow> bool"
  assumes step_keeps: "inv s \<Longrightarrow> allowed e \<Longrightarrow> inv (step s e)"
begin

lemma run_keeps: "inv s \<Longrightarrow> (\<forall>e \<in> set es. allowed e) \<Longrightarrow> inv (foldl step s es)"
  by (induction es arbitrary: s) (simp_all add: step_keeps)

end

section \<open>Runs that end\<close>

locale finite_runs =
  fixes step :: "'s \<Rightarrow> 's \<Rightarrow> bool"
    and inv :: "'s \<Rightarrow> bool"
    and weight :: "'s \<Rightarrow> nat"
  assumes inv_step: "inv s \<Longrightarrow> step s t \<Longrightarrow> inv t"
    and weight_step: "inv s \<Longrightarrow> step s t \<Longrightarrow> weight t < weight s"
begin

lemma run_inv: "(step ^^ n) s t \<Longrightarrow> inv s \<Longrightarrow> inv t"
  by (induction n arbitrary: t) (auto intro: inv_step)

lemma run_bounded: "(step ^^ n) s t \<Longrightarrow> inv s \<Longrightarrow> n + weight t \<le> weight s"
proof (induction n arbitrary: t)
  case (Suc n)
  then obtain u where u: "(step ^^ n) s u" "step u t" by auto
  have "weight t < weight u" using run_inv [OF u(1) Suc.prems(2)] u(2) by (rule weight_step)
  then show ?case using Suc.IH [OF u(1) Suc.prems(2)] by simp
qed simp

lemma run_ends: "inv s \<Longrightarrow> \<exists>n t. (step ^^ n) s t \<and> (\<nexists>u. step t u)"
proof (induction "weight s" arbitrary: s rule: less_induct)
  case less
  show ?case
  proof (cases "\<exists>u. step s u")
    case True
    then obtain u where u: "step s u" ..
    then obtain n t where "(step ^^ n) u t" "\<nexists>v. step t v"
      using less.hyps [OF weight_step [OF less.prems u]] inv_step [OF less.prems u] by blast
    then have "(step ^^ Suc n) s t" using u by (auto simp del: relpowp.simps intro: relpowp_Suc_I2)
    then show ?thesis using \<open>\<nexists>v. step t v\<close> by blast
  next
    case False
    then show ?thesis by (metis relpowp_0_I)
  qed
qed

end

end
