(* ===== verification/Protocol.thy ===== *)
theory Protocol
  imports Prelude
begin

text \<open>
  The wire protocol of \<^verbatim>\<open>include/protocol.h\<close>: packet types, grades, limits and the
  packed headers, with their byte layout. Integers of a header are kept in host order;
  \<open>enc_*\<close> writes them in network order, as every sender does with \<open>htonl\<close> and \<open>htons\<close>,
  and \<open>dec_*\<close> reads them back. A header type extends \<open>CommonHeader\<close>, whose eight bytes
  every packet starts with.

  The locale \<open>packet_codec\<close> is the interface the senders and receivers rely on; it is
  interpreted on every header type.
\<close>

section \<open>Constants\<close>

definition MAGIC_NUMBER :: u32 where
  "MAGIC_NUMBER = 0x4D494E49"

definition PROTO_VERSION :: byte where
  "PROTO_VERSION = 3"

definition MAX_STUDENT_ID :: nat where
  "MAX_STUDENT_ID = 16"

definition MAX_FILENAME :: nat where
  "MAX_FILENAME = 128"

definition MAX_WEEK_NAME :: nat where
  "MAX_WEEK_NAME = 32"

definition FILE_CHUNK_SIZE :: nat where
  "FILE_CHUNK_SIZE = 64 * 1024"

definition MAX_DIST_FILES :: nat where
  "MAX_DIST_FILES = 64"

definition DIST_ROOT :: string where
  "DIST_ROOT = ''dist''"

lemmas proto_consts [simp] =
  MAX_STUDENT_ID_def MAX_FILENAME_def MAX_WEEK_NAME_def FILE_CHUNK_SIZE_def MAX_DIST_FILES_def

datatype ClientPacketType = PKT_SUBMIT | PKT_HEARTBEAT | PKT_GET_FILES

fun client_pkt :: "ClientPacketType \<Rightarrow> byte" where
  "client_pkt PKT_SUBMIT = 1"
| "client_pkt PKT_HEARTBEAT = 2"
| "client_pkt PKT_GET_FILES = 3"

datatype ServerPacketType =
  RES_RESULT | RES_ACK | RES_ERROR
  | RES_FILE_META | RES_FILE_CHUNK | RES_FILE_END | RES_FILE_DONE | RES_FILE_ERROR

fun server_pkt :: "ServerPacketType \<Rightarrow> byte" where
  "server_pkt RES_RESULT = 1"
| "server_pkt RES_ACK = 2"
| "server_pkt RES_ERROR = 3"
| "server_pkt RES_FILE_META = 10"
| "server_pkt RES_FILE_CHUNK = 11"
| "server_pkt RES_FILE_END = 12"
| "server_pkt RES_FILE_DONE = 13"
| "server_pkt RES_FILE_ERROR = 14"

datatype GradeResult = GRADE_AC | GRADE_WA | GRADE_TLE | GRADE_RE | GRADE_CE

fun grade_code :: "GradeResult \<Rightarrow> byte" where
  "grade_code GRADE_AC = 0"
| "grade_code GRADE_WA = 1"
| "grade_code GRADE_TLE = 2"
| "grade_code GRADE_RE = 3"
| "grade_code GRADE_CE = 4"

lemma grade_code_inject [simp]: "grade_code g = grade_code h \<longleftrightarrow> g = h"
  by (cases g; cases h) simp_all

lemma grade_code_range: "unat (grade_code g) < 5"
  by (cases g) simp_all

instantiation GradeResult :: linorder
begin

definition less_eq_GradeResult :: "GradeResult \<Rightarrow> GradeResult \<Rightarrow> bool" where
  "less_eq_GradeResult g h \<longleftrightarrow> grade_code g \<le> grade_code h"

definition less_GradeResult :: "GradeResult \<Rightarrow> GradeResult \<Rightarrow> bool" where
  "less_GradeResult g h \<longleftrightarrow> grade_code g < grade_code h"

instance
  by standard
    (auto simp: less_eq_GradeResult_def less_GradeResult_def simp flip: grade_code_inject)

end

section \<open>The packed headers\<close>

record CommonHeader =
  magic :: u32
  version :: byte
  pkt_type :: byte
  header_size :: u16

definition sizeof_CommonHeader :: nat where
  "sizeof_CommonHeader = 8"

definition enc_common :: "'a CommonHeader_scheme \<Rightarrow> byte list" where
  "enc_common h = be32 (magic h) @ [version h] @ [pkt_type h] @ be16 (header_size h)"

definition dec_common :: "byte list \<Rightarrow> CommonHeader" where
  "dec_common bs =
     \<lparr>magic = of_be32 (field 0 4 bs), version = bs ! 4, pkt_type = bs ! 5,
      header_size = of_be16 (field 6 2 bs)\<rparr>"

record SubmitHeader = CommonHeader +
  sh_student_id :: string
  sh_filename :: string
  sh_file_size :: u32
  sh_checksum :: u32

definition sizeof_SubmitHeader :: nat where
  "sizeof_SubmitHeader = 160"

definition enc_SubmitHeader :: "SubmitHeader \<Rightarrow> byte list" where
  "enc_SubmitHeader h =
     enc_common h @ bytes (sh_student_id h) @ bytes (sh_filename h) @ be32 (sh_file_size h)
       @ be32 (sh_checksum h)"

definition dec_SubmitHeader :: "byte list \<Rightarrow> SubmitHeader" where
  "dec_SubmitHeader bs =
     \<lparr>magic = of_be32 (field 0 4 bs), version = bs ! 4, pkt_type = bs ! 5,
      header_size = of_be16 (field 6 2 bs),
      sh_student_id = chars_at 8 16 bs,
      sh_filename = chars_at 24 128 bs,
      sh_file_size = of_be32 (field 152 4 bs),
      sh_checksum = of_be32 (field 156 4 bs)\<rparr>"

definition wf_SubmitHeader :: "SubmitHeader \<Rightarrow> bool" where
  "wf_SubmitHeader h \<longleftrightarrow> length (sh_student_id h) = 16 \<and> length (sh_filename h) = 128"

record ResultHeader = CommonHeader +
  rh_student_id :: string
  rh_filename :: string
  rh_result :: byte
  rh_exec_time_ms :: u32
  rh_memory_kb :: u32
  rh_submitted_count :: u16
  rh_total_students :: u16
  rh_student_submit_count :: u16
  rh_pad :: u16
  rh_week_name :: string
  rh_message :: string

definition sizeof_ResultHeader :: nat where
  "sizeof_ResultHeader = 329"

definition enc_ResultHeader :: "ResultHeader \<Rightarrow> byte list" where
  "enc_ResultHeader h =
     enc_common h @ bytes (rh_student_id h) @ bytes (rh_filename h) @ [rh_result h]
       @ be32 (rh_exec_time_ms h) @ be32 (rh_memory_kb h) @ be16 (rh_submitted_count h)
       @ be16 (rh_total_students h) @ be16 (rh_student_submit_count h) @ be16 (rh_pad h)
       @ bytes (rh_week_name h) @ bytes (rh_message h)"

definition dec_ResultHeader :: "byte list \<Rightarrow> ResultHeader" where
  "dec_ResultHeader bs =
     \<lparr>magic = of_be32 (field 0 4 bs), version = bs ! 4, pkt_type = bs ! 5,
      header_size = of_be16 (field 6 2 bs),
      rh_student_id = chars_at 8 16 bs,
      rh_filename = chars_at 24 128 bs,
      rh_result = bs ! 152,
      rh_exec_time_ms = of_be32 (field 153 4 bs),
      rh_memory_kb = of_be32 (field 157 4 bs),
      rh_submitted_count = of_be16 (field 161 2 bs),
      rh_total_students = of_be16 (field 163 2 bs),
      rh_student_submit_count = of_be16 (field 165 2 bs),
      rh_pad = of_be16 (field 167 2 bs),
      rh_week_name = chars_at 169 32 bs,
      rh_message = chars_at 201 128 bs\<rparr>"

definition wf_ResultHeader :: "ResultHeader \<Rightarrow> bool" where
  "wf_ResultHeader h \<longleftrightarrow> length (rh_student_id h) = 16 \<and> length (rh_filename h) = 128 \<and> length (rh_week_name h) = 32 \<and> length (rh_message h) = 128"

record GetFilesHeader = CommonHeader +
  gh_student_id :: string

definition sizeof_GetFilesHeader :: nat where
  "sizeof_GetFilesHeader = 24"

definition enc_GetFilesHeader :: "GetFilesHeader \<Rightarrow> byte list" where
  "enc_GetFilesHeader h =
     enc_common h @ bytes (gh_student_id h)"

definition dec_GetFilesHeader :: "byte list \<Rightarrow> GetFilesHeader" where
  "dec_GetFilesHeader bs =
     \<lparr>magic = of_be32 (field 0 4 bs), version = bs ! 4, pkt_type = bs ! 5,
      header_size = of_be16 (field 6 2 bs),
      gh_student_id = chars_at 8 16 bs\<rparr>"

definition wf_GetFilesHeader :: "GetFilesHeader \<Rightarrow> bool" where
  "wf_GetFilesHeader h \<longleftrightarrow> length (gh_student_id h) = 16"

record FileMetaHeader = CommonHeader +
  mh_filename :: string
  mh_file_size :: u32
  mh_is_executable :: byte
  mh_file_index :: byte
  mh_total_files :: byte
  mh_pad :: byte

definition sizeof_FileMetaHeader :: nat where
  "sizeof_FileMetaHeader = 144"

definition enc_FileMetaHeader :: "FileMetaHeader \<Rightarrow> byte list" where
  "enc_FileMetaHeader h =
     enc_common h @ bytes (mh_filename h) @ be32 (mh_file_size h) @ [mh_is_executable h]
       @ [mh_file_index h] @ [mh_total_files h] @ [mh_pad h]"

definition dec_FileMetaHeader :: "byte list \<Rightarrow> FileMetaHeader" where
  "dec_FileMetaHeader bs =
     \<lparr>magic = of_be32 (field 0 4 bs), version = bs ! 4, pkt_type = bs ! 5,
      header_size = of_be16 (field 6 2 bs),
      mh_filename = chars_at 8 128 bs,
      mh_file_size = of_be32 (field 136 4 bs),
      mh_is_executable = bs ! 140,
      mh_file_index = bs ! 141,
      mh_total_files = bs ! 142,
      mh_pad = bs ! 143\<rparr>"

definition wf_FileMetaHeader :: "FileMetaHeader \<Rightarrow> bool" where
  "wf_FileMetaHeader h \<longleftrightarrow> length (mh_filename h) = 128"

record FileChunkHeader = CommonHeader +
  kh_chunk_size :: u32
  kh_offset :: u32

definition sizeof_FileChunkHeader :: nat where
  "sizeof_FileChunkHeader = 16"

definition enc_FileChunkHeader :: "FileChunkHeader \<Rightarrow> byte list" where
  "enc_FileChunkHeader h =
     enc_common h @ be32 (kh_chunk_size h) @ be32 (kh_offset h)"

definition dec_FileChunkHeader :: "byte list \<Rightarrow> FileChunkHeader" where
  "dec_FileChunkHeader bs =
     \<lparr>magic = of_be32 (field 0 4 bs), version = bs ! 4, pkt_type = bs ! 5,
      header_size = of_be16 (field 6 2 bs),
      kh_chunk_size = of_be32 (field 8 4 bs),
      kh_offset = of_be32 (field 12 4 bs)\<rparr>"

definition wf_FileChunkHeader :: "FileChunkHeader \<Rightarrow> bool" where
  "wf_FileChunkHeader h \<longleftrightarrow> True"

record FileEndHeader = CommonHeader +
  eh_checksum :: u32
  eh_total_files :: byte
  eh_pad :: "byte list"

definition sizeof_FileEndHeader :: nat where
  "sizeof_FileEndHeader = 16"

definition enc_FileEndHeader :: "FileEndHeader \<Rightarrow> byte list" where
  "enc_FileEndHeader h =
     enc_common h @ be32 (eh_checksum h) @ [eh_total_files h] @ eh_pad h"

definition dec_FileEndHeader :: "byte list \<Rightarrow> FileEndHeader" where
  "dec_FileEndHeader bs =
     \<lparr>magic = of_be32 (field 0 4 bs), version = bs ! 4, pkt_type = bs ! 5,
      header_size = of_be16 (field 6 2 bs),
      eh_checksum = of_be32 (field 8 4 bs),
      eh_total_files = bs ! 12,
      eh_pad = field 13 3 bs\<rparr>"

definition wf_FileEndHeader :: "FileEndHeader \<Rightarrow> bool" where
  "wf_FileEndHeader h \<longleftrightarrow> length (eh_pad h) = 3"

record FileErrorHeader = CommonHeader +
  xh_message :: string

definition sizeof_FileErrorHeader :: nat where
  "sizeof_FileErrorHeader = 136"

definition enc_FileErrorHeader :: "FileErrorHeader \<Rightarrow> byte list" where
  "enc_FileErrorHeader h =
     enc_common h @ bytes (xh_message h)"

definition dec_FileErrorHeader :: "byte list \<Rightarrow> FileErrorHeader" where
  "dec_FileErrorHeader bs =
     \<lparr>magic = of_be32 (field 0 4 bs), version = bs ! 4, pkt_type = bs ! 5,
      header_size = of_be16 (field 6 2 bs),
      xh_message = chars_at 8 128 bs\<rparr>"

definition wf_FileErrorHeader :: "FileErrorHeader \<Rightarrow> bool" where
  "wf_FileErrorHeader h \<longleftrightarrow> length (xh_message h) = 128"

lemmas sizeofs [simp] =
  sizeof_CommonHeader_def sizeof_SubmitHeader_def sizeof_ResultHeader_def
  sizeof_GetFilesHeader_def sizeof_FileMetaHeader_def sizeof_FileChunkHeader_def
  sizeof_FileEndHeader_def sizeof_FileErrorHeader_def

lemma length_enc_common [simp]: "length (enc_common h) = 8"
  by (simp add: enc_common_def)

lemma nth_skip [wire_simps]: "length xs \<le> k \<Longrightarrow> (xs @ ys) ! k = ys ! (k - length xs)"
  by (simp add: nth_append)

lemma nth_first [wire_simps]: "([x] @ ys) ! 0 = x" "[x] ! 0 = x"
  by simp_all

lemma field_all [wire_simps]: "length xs = n \<Longrightarrow> field 0 n xs = xs"
  by (simp add: field_def)

lemma dec_common_enc: "dec_common (enc_common h @ rest) = CommonHeader.truncate h"
  by (simp add: dec_common_def enc_common_def CommonHeader.truncate_def field_def be32_def
      be16_def of_be32_be32 [unfolded be32_def] of_be16_be16 [unfolded be16_def])

section \<open>The interface of a packet type\<close>

locale packet_codec =
  fixes enc :: "'a \<Rightarrow> byte list"
    and dec :: "byte list \<Rightarrow> 'a"
    and wf :: "'a \<Rightarrow> bool"
    and common :: "'a \<Rightarrow> CommonHeader"
    and size_of :: nat
  assumes enc_length: "wf h \<Longrightarrow> length (enc h) = size_of"
    and dec_enc: "wf h \<Longrightarrow> dec (enc h) = h"
    and enc_starts: "\<exists>body. enc h = enc_common (common h) @ body"
    and dec_wf: "length bs = size_of \<Longrightarrow> wf (dec bs)"
begin

lemma dec_take: "wf h \<Longrightarrow> dec (take size_of (enc h @ rest)) = h"
  by (simp add: enc_length dec_enc)

lemma drop_rest: "wf h \<Longrightarrow> drop size_of (enc h @ rest) = rest"
  by (simp add: enc_length)

lemma common_prefix: "dec_common (enc h @ rest) = common h"
proof -
  obtain body where "enc h = enc_common (common h) @ body"
    using enc_starts by blast
  then show ?thesis
    by (simp add: dec_common_enc CommonHeader.truncate_def)
qed

lemma enc_inject: "wf h \<Longrightarrow> wf h' \<Longrightarrow> enc h = enc h' \<longleftrightarrow> h = h'"
  by (metis dec_enc)

text \<open>Two packets of one type sent in a row are read back one after the other.\<close>

lemma split_packets:
  "wf h \<Longrightarrow> wf h' \<Longrightarrow>
   (let bs = enc h @ enc h' in dec (take size_of bs) = h \<and> dec (drop size_of bs) = h')"
  by (simp add: enc_length dec_enc)

lemma body_field:
  "wf h \<Longrightarrow> 8 \<le> size_of \<Longrightarrow>
   enc h = take 8 (enc h) @ field 8 (size_of - 8) (enc h)"
  by (simp add: field_def enc_length)

end

lemma header_prefix [simp]:
  "CommonHeader.truncate (CommonHeader.extend (CommonHeader.truncate h) ()) = CommonHeader.truncate h"
  by (simp add: CommonHeader.defs)

lemma enc_common_truncate [simp]: "enc_common (CommonHeader.truncate h) = enc_common h"
  by (simp add: enc_common_def CommonHeader.truncate_def)

interpretation submit: packet_codec enc_SubmitHeader dec_SubmitHeader wf_SubmitHeader CommonHeader.truncate sizeof_SubmitHeader
proof
  fix h :: SubmitHeader and bs :: "byte list"
  show "wf_SubmitHeader h \<Longrightarrow> length (enc_SubmitHeader h) = sizeof_SubmitHeader"
    by (simp add: enc_SubmitHeader_def wf_SubmitHeader_def)
  show "wf_SubmitHeader h \<Longrightarrow> dec_SubmitHeader (enc_SubmitHeader h) = h"
    by (simp add: dec_SubmitHeader_def enc_SubmitHeader_def enc_common_def wf_SubmitHeader_def chars_at_def wire_simps del: append_Cons)
  show "\<exists>body. enc_SubmitHeader h = enc_common (CommonHeader.truncate h) @ body"
    by (simp add: enc_SubmitHeader_def)
  show "length bs = sizeof_SubmitHeader \<Longrightarrow> wf_SubmitHeader (dec_SubmitHeader bs)"
    by (simp add: wf_SubmitHeader_def dec_SubmitHeader_def chars_at_def length_field)
qed

interpretation result: packet_codec enc_ResultHeader dec_ResultHeader wf_ResultHeader CommonHeader.truncate sizeof_ResultHeader
proof
  fix h :: ResultHeader and bs :: "byte list"
  show "wf_ResultHeader h \<Longrightarrow> length (enc_ResultHeader h) = sizeof_ResultHeader"
    by (simp add: enc_ResultHeader_def wf_ResultHeader_def)
  show "wf_ResultHeader h \<Longrightarrow> dec_ResultHeader (enc_ResultHeader h) = h"
    by (simp add: dec_ResultHeader_def enc_ResultHeader_def enc_common_def wf_ResultHeader_def chars_at_def wire_simps del: append_Cons)
  show "\<exists>body. enc_ResultHeader h = enc_common (CommonHeader.truncate h) @ body"
    by (simp add: enc_ResultHeader_def)
  show "length bs = sizeof_ResultHeader \<Longrightarrow> wf_ResultHeader (dec_ResultHeader bs)"
    by (simp add: wf_ResultHeader_def dec_ResultHeader_def chars_at_def length_field)
qed

interpretation getfiles: packet_codec enc_GetFilesHeader dec_GetFilesHeader wf_GetFilesHeader CommonHeader.truncate sizeof_GetFilesHeader
proof
  fix h :: GetFilesHeader and bs :: "byte list"
  show "wf_GetFilesHeader h \<Longrightarrow> length (enc_GetFilesHeader h) = sizeof_GetFilesHeader"
    by (simp add: enc_GetFilesHeader_def wf_GetFilesHeader_def)
  show "wf_GetFilesHeader h \<Longrightarrow> dec_GetFilesHeader (enc_GetFilesHeader h) = h"
    by (simp add: dec_GetFilesHeader_def enc_GetFilesHeader_def enc_common_def wf_GetFilesHeader_def chars_at_def wire_simps del: append_Cons)
  show "\<exists>body. enc_GetFilesHeader h = enc_common (CommonHeader.truncate h) @ body"
    by (simp add: enc_GetFilesHeader_def)
  show "length bs = sizeof_GetFilesHeader \<Longrightarrow> wf_GetFilesHeader (dec_GetFilesHeader bs)"
    by (simp add: wf_GetFilesHeader_def dec_GetFilesHeader_def chars_at_def length_field)
qed

interpretation filemeta: packet_codec enc_FileMetaHeader dec_FileMetaHeader wf_FileMetaHeader CommonHeader.truncate sizeof_FileMetaHeader
proof
  fix h :: FileMetaHeader and bs :: "byte list"
  show "wf_FileMetaHeader h \<Longrightarrow> length (enc_FileMetaHeader h) = sizeof_FileMetaHeader"
    by (simp add: enc_FileMetaHeader_def wf_FileMetaHeader_def)
  show "wf_FileMetaHeader h \<Longrightarrow> dec_FileMetaHeader (enc_FileMetaHeader h) = h"
    by (simp add: dec_FileMetaHeader_def enc_FileMetaHeader_def enc_common_def wf_FileMetaHeader_def chars_at_def wire_simps del: append_Cons)
  show "\<exists>body. enc_FileMetaHeader h = enc_common (CommonHeader.truncate h) @ body"
    by (simp add: enc_FileMetaHeader_def)
  show "length bs = sizeof_FileMetaHeader \<Longrightarrow> wf_FileMetaHeader (dec_FileMetaHeader bs)"
    by (simp add: wf_FileMetaHeader_def dec_FileMetaHeader_def chars_at_def length_field)
qed

interpretation filechunk: packet_codec enc_FileChunkHeader dec_FileChunkHeader wf_FileChunkHeader CommonHeader.truncate sizeof_FileChunkHeader
proof
  fix h :: FileChunkHeader and bs :: "byte list"
  show "wf_FileChunkHeader h \<Longrightarrow> length (enc_FileChunkHeader h) = sizeof_FileChunkHeader"
    by (simp add: enc_FileChunkHeader_def wf_FileChunkHeader_def)
  show "wf_FileChunkHeader h \<Longrightarrow> dec_FileChunkHeader (enc_FileChunkHeader h) = h"
    by (simp add: dec_FileChunkHeader_def enc_FileChunkHeader_def enc_common_def wf_FileChunkHeader_def chars_at_def wire_simps del: append_Cons)
  show "\<exists>body. enc_FileChunkHeader h = enc_common (CommonHeader.truncate h) @ body"
    by (simp add: enc_FileChunkHeader_def)
  show "length bs = sizeof_FileChunkHeader \<Longrightarrow> wf_FileChunkHeader (dec_FileChunkHeader bs)"
    by (simp add: wf_FileChunkHeader_def dec_FileChunkHeader_def chars_at_def length_field)
qed

interpretation fileend: packet_codec enc_FileEndHeader dec_FileEndHeader wf_FileEndHeader CommonHeader.truncate sizeof_FileEndHeader
proof
  fix h :: FileEndHeader and bs :: "byte list"
  show "wf_FileEndHeader h \<Longrightarrow> length (enc_FileEndHeader h) = sizeof_FileEndHeader"
    by (simp add: enc_FileEndHeader_def wf_FileEndHeader_def)
  show "wf_FileEndHeader h \<Longrightarrow> dec_FileEndHeader (enc_FileEndHeader h) = h"
    by (simp add: dec_FileEndHeader_def enc_FileEndHeader_def enc_common_def wf_FileEndHeader_def chars_at_def wire_simps del: append_Cons)
  show "\<exists>body. enc_FileEndHeader h = enc_common (CommonHeader.truncate h) @ body"
    by (simp add: enc_FileEndHeader_def)
  show "length bs = sizeof_FileEndHeader \<Longrightarrow> wf_FileEndHeader (dec_FileEndHeader bs)"
    by (simp add: wf_FileEndHeader_def dec_FileEndHeader_def chars_at_def length_field)
qed

interpretation fileerror: packet_codec enc_FileErrorHeader dec_FileErrorHeader wf_FileErrorHeader CommonHeader.truncate sizeof_FileErrorHeader
proof
  fix h :: FileErrorHeader and bs :: "byte list"
  show "wf_FileErrorHeader h \<Longrightarrow> length (enc_FileErrorHeader h) = sizeof_FileErrorHeader"
    by (simp add: enc_FileErrorHeader_def wf_FileErrorHeader_def)
  show "wf_FileErrorHeader h \<Longrightarrow> dec_FileErrorHeader (enc_FileErrorHeader h) = h"
    by (simp add: dec_FileErrorHeader_def enc_FileErrorHeader_def enc_common_def wf_FileErrorHeader_def chars_at_def wire_simps del: append_Cons)
  show "\<exists>body. enc_FileErrorHeader h = enc_common (CommonHeader.truncate h) @ body"
    by (simp add: enc_FileErrorHeader_def)
  show "length bs = sizeof_FileErrorHeader \<Longrightarrow> wf_FileErrorHeader (dec_FileErrorHeader bs)"
    by (simp add: wf_FileErrorHeader_def dec_FileErrorHeader_def chars_at_def length_field)
qed

end
