(* ===== verification/Server_Ctx.thy ===== *)
theory Server_Ctx
  imports Protocol
begin

text \<open>
  The server's shared state and its operations: \<^verbatim>\<open>server_ctx.h\<close> and
  \<^verbatim>\<open>server/server_ctx.c\<close>. The operating system is the record \<open>os\<close> (files, directories,
  the table of open append descriptors); what a call returns is decided by the
  environment record \<open>env\<close> (\<open>open\<close>, \<open>mkdir\<close>, \<open>write\<close>, which may write less than it was
  given or fail with a negative value, \<open>time\<close>, \<open>localtime\<close> with \<open>strftime\<close>). Locks delimit the critical sections, which are definitions of their own
  (\<open>set_hw_paths\<close>, \<open>set_hw_reset_tracker\<close>, \<open>set_hw_switch_csv\<close>, \<open>ctx_record_submission\<close>,
  \<open>csv_append\<close>), so that the theory of the server's concurrency can interleave them.

  A character array of the context is kept as the C string it holds; an id that starts
  with NUL (a free slot) is the empty string.
\<close>

section \<open>State\<close>

record StudentRecord =
  sr_id :: string
  submitted :: byte
  best_result :: byte
  submit_count :: u32
  last_submit_ts :: int

record CsvState =
  total_records :: u32
  last_write_ts :: int
  csv_fd :: int
  csv_path :: string

record ServerContext =
  current_hw :: string
  ans_path :: string
  submit_dir :: string
  students :: "StudentRecord list"
  total_students :: u16
  submitted_count :: u16
  csv :: CsvState
  paused :: int
  dist_paused :: int
  timeout_ms :: u32

definition MAX_STUDENTS :: nat where
  "MAX_STUDENTS = 512"

definition SUBMISSIONS_DIR :: string where
  "SUBMISSIONS_DIR = ''submissions''"

record os =
  os_files :: "string \<Rightarrow> string option"
  os_dirs :: "string list"
  os_fds :: "int \<Rightarrow> string option"

record env =
  env_open :: "string \<Rightarrow> int"
  env_mkdir :: "string \<Rightarrow> bool"
  env_write :: "string \<Rightarrow> int"
  env_now :: int
  env_localtime :: "int \<Rightarrow> string"

definition empty_slot :: StudentRecord where
  "empty_slot = \<lparr>sr_id = [], submitted = 0, best_result = 0, submit_count = 0, last_submit_ts = 0\<rparr>"

section \<open>Helpers\<close>

text \<open>\<open>ensure_dir\<close>: an existing path is fine; otherwise it is created, unless \<open>mkdir\<close> fails.\<close>

definition ensure_dir :: "env \<Rightarrow> string \<Rightarrow> os \<Rightarrow> int \<times> os" where
  "ensure_dir e path w =
     (if path \<in> set (os_dirs w) \<or> os_files w path \<noteq> None then (0, w)
      else if \<not> env_mkdir e path then (-1, w)
      else (0, w\<lparr>os_dirs := path # os_dirs w\<rparr>))"

fun grade_str :: "GradeResult \<Rightarrow> string" where
  "grade_str GRADE_AC = ''AC''"
| "grade_str GRADE_WA = ''WA''"
| "grade_str GRADE_TLE = ''TLE''"
| "grade_str GRADE_RE = ''RE''"
| "grade_str GRADE_CE = ''CE''"

section \<open>Switching the week\<close>

definition set_hw_paths :: "string \<Rightarrow> ServerContext \<Rightarrow> ServerContext" where
  "set_hw_paths week ctx =
     ctx\<lparr>current_hw := take (MAX_WEEK_NAME - 1) week,
         ans_path := snprintf 256 (week @ ''_ans.txt''),
         submit_dir := snprintf 256 (SUBMISSIONS_DIR @ ''/'' @ week)\<rparr>"

definition set_hw_dirs :: "env \<Rightarrow> ServerContext \<Rightarrow> os \<Rightarrow> os" where
  "set_hw_dirs e ctx w = snd (ensure_dir e (submit_dir ctx) (snd (ensure_dir e SUBMISSIONS_DIR w)))"

definition set_hw_reset_tracker :: "ServerContext \<Rightarrow> ServerContext" where
  "set_hw_reset_tracker ctx =
     ctx\<lparr>students := replicate (length (students ctx)) empty_slot, submitted_count := 0\<rparr>"

definition csv_header :: string where
  "csv_header =
     ''Timestamp,Student_ID,Assignment_Week,'' @ ''Result,ExecTime_ms,Memory_KB'' @ [CHR 0x0A]"

definition csv_write :: "env \<Rightarrow> int \<Rightarrow> string \<Rightarrow> os \<Rightarrow> bool \<times> os" where
  "csv_write e fd text w =
     (case os_fds w fd of
        None \<Rightarrow> (False, w)
      | Some path \<Rightarrow>
          if env_write e text < 0 then (False, w)
          else (True, w\<lparr>os_files := (os_files w)(path \<mapsto>
                  (case os_files w path of Some t \<Rightarrow> t | None \<Rightarrow> []) @ take (nat (env_write e text)) text)\<rparr>))"

definition set_hw_switch_csv :: "env \<Rightarrow> string \<Rightarrow> ServerContext \<Rightarrow> os \<Rightarrow> ServerContext \<times> os" where
  "set_hw_switch_csv e week ctx w =
     (let w1 = (if 0 \<le> csv_fd (csv ctx) then w\<lparr>os_fds := (os_fds w)(csv_fd (csv ctx) := None)\<rparr> else w);
          path = snprintf 256 (week @ ''_results.csv'');
          need_header = (os_files w1 path = None);
          fd = env_open e path;
          c1 = (csv ctx)\<lparr>csv_path := path, csv_fd := fd\<rparr>
      in if fd < 0 then (ctx\<lparr>csv := c1\<rparr>, w1)
         else let w2 = w1\<lparr>os_fds := (os_fds w1)(fd \<mapsto> path),
                          os_files := (os_files w1)(path \<mapsto> (case os_files w1 path of Some t \<Rightarrow> t | None \<Rightarrow> []))\<rparr>;
                  w3 = (if need_header then snd (csv_write e fd csv_header w2) else w2)
              in (ctx\<lparr>csv := c1\<lparr>total_records := 0, last_write_ts := 0\<rparr>\<rparr>, w3))"

definition ctx_set_hw :: "env \<Rightarrow> string \<Rightarrow> ServerContext \<Rightarrow> os \<Rightarrow> ServerContext \<times> os" where
  "ctx_set_hw e week_name ctx w =
     (if strlen week_name = 0 \<or> MAX_WEEK_NAME \<le> strlen week_name then (ctx, w)
      else let week = cstr week_name;
               ctx1 = set_hw_paths week ctx;
               w1 = set_hw_dirs e ctx1 w
           in set_hw_switch_csv e week (set_hw_reset_tracker ctx1) w1)"

definition ctx_init :: "env \<Rightarrow> os \<Rightarrow> ServerContext \<times> os" where
  "ctx_init e w =
     ctx_set_hw e ''week_1''
       \<lparr>current_hw = [], ans_path = [], submit_dir = [],
        students = replicate MAX_STUDENTS empty_slot, total_students = 0, submitted_count = 0,
        csv = \<lparr>total_records = 0, last_write_ts = 0, csv_fd = -1, csv_path = []\<rparr>,
        paused = 0, dist_paused = 0, timeout_ms = 5000\<rparr> w"

section \<open>Recording a submission\<close>

text \<open>The search loop: it stops at the first free slot, or at the first id that agrees.\<close>

fun find_student :: "StudentRecord list \<Rightarrow> string \<Rightarrow> nat option" where
  "find_student [] sid = None"
| "find_student (r # rs) sid =
     (if sr_id r = [] then None
      else if strncmp_eq (sr_id r) sid MAX_STUDENT_ID then Some 0
      else map_option Suc (find_student rs sid))"

fun find_free :: "StudentRecord list \<Rightarrow> nat option" where
  "find_free [] = None"
| "find_free (r # rs) = (if sr_id r = [] then Some 0 else map_option Suc (find_free rs))"

definition new_record :: "StudentRecord \<Rightarrow> string \<Rightarrow> StudentRecord" where
  "new_record r sid =
     r\<lparr>sr_id := take (MAX_STUDENT_ID - 1) (cstr sid), submitted := 0,
       best_result := grade_code GRADE_WA, submit_count := 0\<rparr>"

definition count_attempt :: "int \<Rightarrow> StudentRecord \<Rightarrow> StudentRecord" where
  "count_attempt now r =
     r\<lparr>submit_count := (if submit_count r < 0xFFFFFFFF then submit_count r + 1 else submit_count r),
       last_submit_ts := now\<rparr>"

definition clamp_u16 :: "u32 \<Rightarrow> u16" where
  "clamp_u16 n = (if 0xFFFF < n then 0xFFFF else ucast n)"

definition note_grade :: "GradeResult \<Rightarrow> StudentRecord \<Rightarrow> StudentRecord" where
  "note_grade g r =
     (if g = GRADE_AC \<and> submitted r = 0
      then r\<lparr>submitted := 1, best_result := grade_code GRADE_AC\<rparr>
      else if g \<noteq> GRADE_AC \<and> best_result r \<noteq> grade_code GRADE_AC
      then r\<lparr>best_result := grade_code g\<rparr>
      else r)"

definition record_at :: "int \<Rightarrow> nat \<Rightarrow> GradeResult \<Rightarrow> ServerContext \<Rightarrow> ServerContext \<times> u16" where
  "record_at now i g ctx =
     (let r = count_attempt now (students ctx ! i);
          first_ac = (g = GRADE_AC \<and> submitted r = 0)
      in (ctx\<lparr>students := (students ctx)[i := note_grade g r],
              submitted_count := (if first_ac then submitted_count ctx + 1 else submitted_count ctx)\<rparr>,
          clamp_u16 (submit_count r)))"

definition ctx_record_submission ::
  "int \<Rightarrow> ServerContext \<Rightarrow> string \<Rightarrow> GradeResult \<Rightarrow> ServerContext \<times> u16" where
  "ctx_record_submission now ctx sid g =
     (case find_student (students ctx) sid of
        Some i \<Rightarrow> record_at now i g ctx
      | None \<Rightarrow>
          (case find_free (students ctx) of
             Some i \<Rightarrow>
               record_at now i g
                 (ctx\<lparr>students := (students ctx)[i := new_record (students ctx ! i) sid]\<rparr>)
           | None \<Rightarrow> (ctx, 0)))"

lemma find_student_index: "find_student rs sid = Some i \<Longrightarrow> i < length rs"
  by (induction rs arbitrary: i) (auto split: if_splits)

lemma find_free_index: "find_free rs = Some i \<Longrightarrow> i < length rs"
  by (induction rs arbitrary: i) (auto split: if_splits)

section \<open>The results file\<close>

definition csv_line :: "env \<Rightarrow> string \<Rightarrow> GradeResult \<Rightarrow> u32 \<Rightarrow> u32 \<Rightarrow> string \<Rightarrow> string" where
  "csv_line e sid g exec_ms mem_kb week =
     env_localtime e (env_now e) @ '','' @ cstr sid @ '','' @ cstr week @ '','' @ grade_str g
       @ '','' @ dec_w exec_ms @ '','' @ dec_w mem_kb @ [CHR 0x0A]"

definition csv_append :: "env \<Rightarrow> string \<Rightarrow> ServerContext \<Rightarrow> os \<Rightarrow> ServerContext \<times> os" where
  "csv_append e line ctx w =
     (let (ok, w') = csv_write e (csv_fd (csv ctx)) line w
      in if \<not> ok then (ctx, w')
         else (ctx\<lparr>csv := (csv ctx)\<lparr>total_records := total_records (csv ctx) + 1,
                                    last_write_ts := env_now e\<rparr>\<rparr>, w'))"

definition ctx_write_csv ::
  "env \<Rightarrow> ServerContext \<Rightarrow> string \<Rightarrow> GradeResult \<Rightarrow> u32 \<Rightarrow> u32 \<Rightarrow> string \<Rightarrow> os \<Rightarrow> ServerContext \<times> os" where
  "ctx_write_csv e ctx sid g exec_ms mem_kb week w =
     (if csv_fd (csv ctx) < 0 then (ctx, w)
      else csv_append e (csv_line e sid g exec_ms mem_kb week) ctx w)"

section \<open>What a week switch does\<close>

definition valid_week :: "string \<Rightarrow> bool" where
  "valid_week w \<longleftrightarrow> strlen w \<noteq> 0 \<and> strlen w < MAX_WEEK_NAME"

lemma set_hw_invalid: "\<not> valid_week week \<Longrightarrow> ctx_set_hw e week ctx w = (ctx, w)"
  by (auto simp: ctx_set_hw_def valid_week_def)

lemma switch_csv_frame:
  "current_hw (fst (set_hw_switch_csv e week ctx w)) = current_hw ctx"
  "ans_path (fst (set_hw_switch_csv e week ctx w)) = ans_path ctx"
  "submit_dir (fst (set_hw_switch_csv e week ctx w)) = submit_dir ctx"
  "students (fst (set_hw_switch_csv e week ctx w)) = students ctx"
  "submitted_count (fst (set_hw_switch_csv e week ctx w)) = submitted_count ctx"
  "total_students (fst (set_hw_switch_csv e week ctx w)) = total_students ctx"
  "paused (fst (set_hw_switch_csv e week ctx w)) = paused ctx"
  "dist_paused (fst (set_hw_switch_csv e week ctx w)) = dist_paused ctx"
  "timeout_ms (fst (set_hw_switch_csv e week ctx w)) = timeout_ms ctx"
  "csv_path (csv (fst (set_hw_switch_csv e week ctx w))) = snprintf 256 (week @ ''_results.csv'')"
  "csv_fd (csv (fst (set_hw_switch_csv e week ctx w))) = env_open e (snprintf 256 (week @ ''_results.csv''))"
  by (simp_all add: set_hw_switch_csv_def Let_def)

lemma short_names:
  assumes "valid_week week"
  shows "take (MAX_WEEK_NAME - 1) (cstr week) = cstr week"
    and "snprintf 256 (cstr week @ ''_ans.txt'') = cstr week @ ''_ans.txt''"
    and "snprintf 256 (SUBMISSIONS_DIR @ ''/'' @ cstr week) = SUBMISSIONS_DIR @ ''/'' @ cstr week"
    and "snprintf 256 (cstr week @ ''_results.csv'') = cstr week @ ''_results.csv''"
proof -
  have "length (cstr week) < 32" using assms by (simp add: valid_week_def strlen_def)
  then show "take (MAX_WEEK_NAME - 1) (cstr week) = cstr week"
    and "snprintf 256 (cstr week @ ''_ans.txt'') = cstr week @ ''_ans.txt''"
    and "snprintf 256 (SUBMISSIONS_DIR @ ''/'' @ cstr week) = SUBMISSIONS_DIR @ ''/'' @ cstr week"
    and "snprintf 256 (cstr week @ ''_results.csv'') = cstr week @ ''_results.csv''"
    unfolding snprintf_def SUBMISSIONS_DIR_def by (intro take_all; simp)+
qed

lemma csv_write_files:
  "os_fds w fd = Some path \<Longrightarrow> env_write e text = int (length text) \<Longrightarrow>
   os_files (snd (csv_write e fd text w)) path =
     Some ((case os_files w path of Some t \<Rightarrow> t | None \<Rightarrow> []) @ text)"
  by (simp add: csv_write_def split: option.splits)

lemma ensure_dir_files [simp]: "os_files (snd (ensure_dir e path w)) = os_files w"
  "os_fds (snd (ensure_dir e path w)) = os_fds w"
  by (simp_all add: ensure_dir_def)

lemma set_hw_dirs_files [simp]: "os_files (set_hw_dirs e ctx w) = os_files w"
  "os_fds (set_hw_dirs e ctx w) = os_fds w"
  by (simp_all add: set_hw_dirs_def)

lemma set_hw_valid:
  assumes v: "valid_week week"
  shows "current_hw (fst (ctx_set_hw e week ctx w)) = cstr week"
    "ans_path (fst (ctx_set_hw e week ctx w)) = cstr week @ ''_ans.txt''"
    "submit_dir (fst (ctx_set_hw e week ctx w)) = ''submissions/'' @ cstr week"
    "csv_path (csv (fst (ctx_set_hw e week ctx w))) = cstr week @ ''_results.csv''"
    "students (fst (ctx_set_hw e week ctx w)) = replicate (length (students ctx)) empty_slot"
    "submitted_count (fst (ctx_set_hw e week ctx w)) = 0"
    "total_students (fst (ctx_set_hw e week ctx w)) = total_students ctx"
    "paused (fst (ctx_set_hw e week ctx w)) = paused ctx"
    "dist_paused (fst (ctx_set_hw e week ctx w)) = dist_paused ctx"
    "timeout_ms (fst (ctx_set_hw e week ctx w)) = timeout_ms ctx"
proof -
  have "ctx_set_hw e week ctx w =
      set_hw_switch_csv e (cstr week) (set_hw_reset_tracker (set_hw_paths (cstr week) ctx))
        (set_hw_dirs e (set_hw_paths (cstr week) ctx) w)"
    using v by (auto simp: ctx_set_hw_def valid_week_def Let_def)
  then show "current_hw (fst (ctx_set_hw e week ctx w)) = cstr week"
    "ans_path (fst (ctx_set_hw e week ctx w)) = cstr week @ ''_ans.txt''"
    "submit_dir (fst (ctx_set_hw e week ctx w)) = ''submissions/'' @ cstr week"
    "csv_path (csv (fst (ctx_set_hw e week ctx w))) = cstr week @ ''_results.csv''"
    "students (fst (ctx_set_hw e week ctx w)) = replicate (length (students ctx)) empty_slot"
    "submitted_count (fst (ctx_set_hw e week ctx w)) = 0"
    "total_students (fst (ctx_set_hw e week ctx w)) = total_students ctx"
    "paused (fst (ctx_set_hw e week ctx w)) = paused ctx"
    "dist_paused (fst (ctx_set_hw e week ctx w)) = dist_paused ctx"
    "timeout_ms (fst (ctx_set_hw e week ctx w)) = timeout_ms ctx"
    using short_names [OF v]
    by (simp_all add: switch_csv_frame set_hw_paths_def set_hw_reset_tracker_def SUBMISSIONS_DIR_def)
qed

section \<open>Properties\<close>

text \<open>C16: switching to a valid week replaces the week name and the three paths derived from
  it, empties the tracker and its counter, keeps the class size and the server's switches;
  an empty or over-long week name changes nothing at all, neither in the context nor on disk.\<close>

theorem set_hw_effect:
  "(valid_week week \<longrightarrow>
      (let ctx' = fst (ctx_set_hw e week ctx w) in
       current_hw ctx' = cstr week \<and> ans_path ctx' = cstr week @ ''_ans.txt'' \<and>
       submit_dir ctx' = ''submissions/'' @ cstr week \<and>
       csv_path (csv ctx') = cstr week @ ''_results.csv'' \<and>
       students ctx' = replicate (length (students ctx)) empty_slot \<and> submitted_count ctx' = 0 \<and>
       total_students ctx' = total_students ctx \<and> paused ctx' = paused ctx \<and>
       dist_paused ctx' = dist_paused ctx \<and> timeout_ms ctx' = timeout_ms ctx)) \<and>
   (\<not> valid_week week \<longrightarrow> ctx_set_hw e week ctx w = (ctx, w))"
  by (simp add: set_hw_valid set_hw_invalid Let_def)

theorem set_hw_effect_witness:
  "let e = \<lparr>env_open = \<lambda>_. 5, env_mkdir = \<lambda>_. True, env_write = \<lambda>t. int (length t), env_now = 7,
            env_localtime = \<lambda>_. ''t''\<rparr>;
       w = \<lparr>os_files = \<lambda>_. None, os_dirs = [], os_fds = \<lambda>_. None\<rparr>;
       c = fst (ctx_set_hw e ''week_4'' (fst (ctx_init e w)) w)
   in valid_week ''week_4'' \<and> current_hw c = ''week_4'' \<and> submitted_count c = 0"
proof -
  have v: "valid_week ''week_4''" by (simp add: valid_week_def strlen_def cstr_def)
  have c: "cstr ''week_4'' = ''week_4''" by (simp add: cstr_def)
  show ?thesis
    using v set_hw_effect [of "''week_4''"] by (simp add: Let_def c)
qed



text \<open>The line \<open>ctx_write_csv\<close> formats always fits its 512-byte buffer, so the length
  \<open>snprintf\<close> returns never makes \<open>write\<close> read past it, for every id, week, time stamp and
  measurement the server can pass (an id that is not terminated runs at most to the end of
  the file name that follows it in the header).\<close>

theorem csv_line_fits:
  assumes "length (env_localtime e (env_now e)) < 32" and "length sid \<le> MAX_STUDENT_ID + MAX_FILENAME"
    and "length wk \<le> MAX_WEEK_NAME"
  shows "length (csv_line e sid g ms kb wk) < 512"
proof -
  have "length (grade_str g) \<le> 3" by (cases g) simp_all
  moreover have "length (cstr sid) \<le> length sid" "length (cstr wk) \<le> length wk"
    by (simp_all add: cstr_def length_takeWhile_le)
  ultimately show ?thesis
    using assms length_dec_u32 [of ms] length_dec_u32 [of kb] by (simp add: csv_line_def)
qed

theorem csv_line_fits_witness:
  "length (csv_line \<lparr>env_open = \<lambda>_. 5, env_mkdir = \<lambda>_. True, env_write = \<lambda>t. int (length t), env_now = 0,
     env_localtime = \<lambda>_. ''2025-05-24T10:32:01''\<rparr> ''20240123'' GRADE_TLE 342 1024 ''week_2'') < 512"
  using csv_line_fits [of "\<lparr>env_open = \<lambda>_. 5, env_mkdir = \<lambda>_. True, env_write = \<lambda>t. int (length t), env_now = 0,
     env_localtime = \<lambda>_. ''2025-05-24T10:32:01''\<rparr>" "''20240123''" "''week_2''" GRADE_TLE 342 1024]
  by simp

end
