(* ===== verification/Tracker.thy ===== *)
theory Tracker
  imports Server_Ctx
begin

text \<open>
  What the student tracker promises: a history of graded submissions is the abstract
  state, and the table of \<open>StudentRecord\<close>s with its counter is a function of it. The locale
  \<open>tracker_contract\<close> states the promise for the callers (the grading worker, the control
  socket); \<open>ctx_record_submission\<close> and the week switch of \<^verbatim>\<open>server/server_ctx.c\<close> provide it.
\<close>

section \<open>Histories\<close>

type_synonym submission = "int \<times> string \<times> GradeResult"

abbreviation who :: "submission \<Rightarrow> string" where
  "who e \<equiv> fst (snd e)"

abbreviation verdict :: "submission \<Rightarrow> GradeResult" where
  "verdict e \<equiv> snd (snd e)"

definition of_student :: "string \<Rightarrow> submission list \<Rightarrow> submission list" where
  "of_student s h = filter (\<lambda>e. who e = s) h"

definition add_id :: "string list \<Rightarrow> string \<Rightarrow> string list" where
  "add_id ids s = (if s \<in> set ids then ids else ids @ [s])"

text \<open>The students of a history, in the order of their first submission.\<close>

definition ids_of :: "submission list \<Rightarrow> string list" where
  "ids_of h = foldl add_id [] (map who h)"

definition attempts :: "submission list \<Rightarrow> string \<Rightarrow> nat" where
  "attempts h s = length (of_student s h)"

definition accepted :: "submission list \<Rightarrow> string \<Rightarrow> bool" where
  "accepted h s \<longleftrightarrow> GRADE_AC \<in> set (map verdict (of_student s h))"

definition best_grade :: "submission list \<Rightarrow> string \<Rightarrow> GradeResult" where
  "best_grade h s = (if accepted h s then GRADE_AC else verdict (last (of_student s h)))"

definition sat :: "nat \<Rightarrow> nat \<Rightarrow> nat" where
  "sat m n = min m n"

definition UINT32_MAX :: nat where
  "UINT32_MAX = 4294967295"

text \<open>What the table holds for a student after a history.\<close>

definition rec_of :: "submission list \<Rightarrow> string \<Rightarrow> StudentRecord" where
  "rec_of h s =
     \<lparr>sr_id = s, submitted = of_bool (accepted h s), best_result = grade_code (best_grade h s),
      submit_count = of_nat (sat UINT32_MAX (attempts h s)),
      last_submit_ts = fst (last (of_student s h))\<rparr>"

definition table_of :: "submission list \<Rightarrow> StudentRecord list" where
  "table_of h = map (rec_of h) (ids_of h) @ replicate (MAX_STUDENTS - length (ids_of h)) empty_slot"

definition solved :: "submission list \<Rightarrow> string list" where
  "solved h = filter (accepted h) (ids_of h)"

definition tracks :: "ServerContext \<Rightarrow> submission list \<Rightarrow> bool" where
  "tracks ctx h \<longleftrightarrow>
     students ctx = table_of h \<and> submitted_count ctx = of_nat (length (solved h)) \<and>
     length (ids_of h) \<le> MAX_STUDENTS \<and> (\<forall>s \<in> set (ids_of h). s \<noteq> [] \<and> length s < MAX_STUDENT_ID \<and> cstr s = s)"

definition valid_id :: "string \<Rightarrow> bool" where
  "valid_id sid \<longleftrightarrow> cstr sid \<noteq> [] \<and> length (cstr sid) < MAX_STUDENT_ID"

definition has_room :: "submission list \<Rightarrow> string \<Rightarrow> bool" where
  "has_room h s \<longleftrightarrow> s \<in> set (ids_of h) \<or> length (ids_of h) < MAX_STUDENTS"

definition reported :: "submission list \<Rightarrow> string \<Rightarrow> u16" where
  "reported h s = of_nat (sat 65535 (attempts h s))"

section \<open>Facts about histories\<close>

lemma add_id_set [simp]: "set (add_id ids s) = insert s (set ids)"
  by (auto simp: add_id_def)

lemma ids_of_Nil [simp]: "ids_of [] = []"
  by (simp add: ids_of_def)

lemma ids_of_snoc: "ids_of (h @ [e]) = add_id (ids_of h) (who e)"
  by (simp add: ids_of_def)

lemma ids_of_distinct: "distinct (ids_of h)"
  by (induction h rule: rev_induct) (auto simp: ids_of_snoc add_id_def)

lemma ids_of_set: "set (ids_of h) = who ` set h"
  by (induction h rule: rev_induct) (auto simp: ids_of_snoc)

lemma ids_of_mono: "length (ids_of h) \<le> length (ids_of (h @ h'))"
proof (induction h' rule: rev_induct)
  case (snoc e h')
  then show ?case
    using ids_of_snoc [of "h @ h'" e] by (simp add: add_id_def)
qed simp

lemma of_student_snoc: "of_student s (h @ [e]) = of_student s h @ (if who e = s then [e] else [])"
  by (simp add: of_student_def)

lemma of_student_empty_iff: "of_student s h = [] \<longleftrightarrow> s \<notin> set (ids_of h)"
  by (auto simp: of_student_def ids_of_set filter_empty_conv)

lemma attempts_snoc: "attempts (h @ [e]) s = attempts h s + of_bool (who e = s)"
  by (simp add: attempts_def of_student_snoc)

lemma accepted_snoc:
  "accepted (h @ [e]) s \<longleftrightarrow> accepted h s \<or> who e = s \<and> verdict e = GRADE_AC"
  by (auto simp: accepted_def of_student_snoc)

lemma rec_of_other: "who e \<noteq> s \<Longrightarrow> rec_of (h @ [e]) s = rec_of h s"
  by (simp add: rec_of_def of_student_snoc attempts_snoc accepted_snoc best_grade_def)

lemma solved_snoc_known:
  assumes "who e \<in> set (ids_of h)"
  shows "length (solved (h @ [e])) =
    length (solved h) + of_bool (verdict e = GRADE_AC \<and> \<not> accepted h (who e))"
proof -
  have ids: "ids_of (h @ [e]) = ids_of h"
    using assms by (simp add: ids_of_snoc add_id_def)
  have "length (filter (accepted (h @ [e])) xs) =
      length (filter (accepted h) xs) +
      of_bool (who e \<in> set xs \<and> verdict e = GRADE_AC \<and> \<not> accepted h (who e))"
    if "distinct xs" for xs
    using that by (induction xs) (auto simp: accepted_snoc)
  with assms show ?thesis by (simp add: solved_def ids ids_of_distinct)
qed

lemma solved_snoc_new:
  assumes "who e \<notin> set (ids_of h)"
  shows "length (solved (h @ [e])) = length (solved h) + of_bool (verdict e = GRADE_AC)"
proof -
  have ids: "ids_of (h @ [e]) = ids_of h @ [who e]"
    using assms by (simp add: ids_of_snoc add_id_def)
  have "\<not> accepted h (who e)"
    using assms by (simp add: accepted_def flip: of_student_empty_iff)
  moreover have "filter (accepted (h @ [e])) (ids_of h) = filter (accepted h) (ids_of h)"
    using assms by (auto intro!: filter_cong simp: accepted_snoc)
  ultimately show ?thesis by (simp add: solved_def ids accepted_snoc)
qed

lemma solved_bound: "length (solved h) \<le> length (ids_of h)"
  by (simp add: solved_def)

section \<open>The interface\<close>

locale tracker_contract =
  fixes record_sub :: "int \<Rightarrow> 'c \<Rightarrow> string \<Rightarrow> GradeResult \<Rightarrow> 'c \<times> u16"
    and reset :: "'c \<Rightarrow> 'c"
    and holds :: "'c \<Rightarrow> submission list \<Rightarrow> bool"
  assumes record_holds:
      "holds c h \<Longrightarrow> valid_id s \<Longrightarrow> has_room h (cstr s) \<Longrightarrow>
       holds (fst (record_sub t c s g)) (h @ [(t, cstr s, g)])"
    and record_reports:
      "holds c h \<Longrightarrow> valid_id s \<Longrightarrow> has_room h (cstr s) \<Longrightarrow>
       snd (record_sub t c s g) = reported (h @ [(t, cstr s, g)]) (cstr s)"
    and record_full:
      "holds c h \<Longrightarrow> valid_id s \<Longrightarrow> \<not> has_room h (cstr s) \<Longrightarrow> record_sub t c s g = (c, 0)"
    and reset_holds: "holds c h \<Longrightarrow> holds (reset c) []"
begin

definition record_all :: "'c \<Rightarrow> submission list \<Rightarrow> 'c" where
  "record_all c es = foldl (\<lambda>c (t, s, g). fst (record_sub t c s g)) c es"

lemma record_all_simps:
  "record_all c [] = c"
  "record_all c (e # es) = record_all (fst (record_sub (fst e) c (who e) (verdict e))) es"
  by (simp_all add: record_all_def case_prod_unfold)

text \<open>A whole run of submissions, as long as its students fit the table.\<close>

lemma record_all_holds:
  "holds c h \<Longrightarrow> (\<forall>e \<in> set es. valid_id (who e) \<and> cstr (who e) = who e) \<Longrightarrow>
   length (ids_of (h @ es)) \<le> MAX_STUDENTS \<Longrightarrow> holds (record_all c es) (h @ es)"
proof (induction es arbitrary: c h)
  case Nil
  then show ?case by (simp add: record_all_simps)
next
  case (Cons e es)
  have mono: "length (ids_of (h @ [e])) \<le> length (ids_of (h @ e # es))"
    using ids_of_mono [of "h @ [e]" es] by simp
  have room: "has_room h (cstr (who e))"
    using mono Cons.prems by (auto simp: has_room_def ids_of_snoc add_id_def split: if_splits)
  have "holds (fst (record_sub (fst e) c (who e) (verdict e))) (h @ [(fst e, cstr (who e), verdict e)])"
    by (rule record_holds) (use Cons.prems room in auto)
  then have "holds (fst (record_sub (fst e) c (who e) (verdict e))) (h @ [e])"
    using Cons.prems(2) by simp
  then have "holds (record_all (fst (record_sub (fst e) c (who e) (verdict e))) es) ((h @ [e]) @ es)"
    using Cons.prems by (intro Cons.IH) auto
  then show ?case by (simp add: record_all_simps)
qed

text \<open>The count sent back with the last submission of a run is that student's attempts.\<close>

lemma record_all_reports:
  assumes "holds c []" and "\<forall>e \<in> set (es @ [e]). valid_id (who e) \<and> cstr (who e) = who e"
    and "length (ids_of (es @ [e])) \<le> MAX_STUDENTS"
  shows "snd (record_sub (fst e) (record_all c es) (who e) (verdict e)) = reported (es @ [e]) (who e)"
proof -
  have le: "length (ids_of es) \<le> length (ids_of (es @ [e]))" by (rule ids_of_mono)
  have h: "holds (record_all c es) es"
    using record_all_holds [of c "[]" es] assms le by auto
  have room: "has_room es (cstr (who e))"
    using assms by (auto simp: has_room_def ids_of_snoc add_id_def split: if_splits)
  show ?thesis
    using record_reports [OF h _ room, of "fst e" "verdict e"] assms(2) by simp
qed

end

section \<open>Searching the table\<close>

lemma strncmp_ids:
  "length s < MAX_STUDENT_ID \<Longrightarrow> cstr s = s \<Longrightarrow> length (cstr sid) < MAX_STUDENT_ID \<Longrightarrow>
   strncmp_eq s sid MAX_STUDENT_ID \<longleftrightarrow> s = cstr sid"
  by (simp add: strncmp_eq_def)

lemma find_student_known:
  assumes "\<forall>s \<in> set ids. s \<noteq> [] \<and> length s < MAX_STUDENT_ID \<and> cstr s = s"
    and "length (cstr sid) < MAX_STUDENT_ID" and "cstr sid \<in> set ids"
    and "\<And>s. sr_id (f s) = s"
  shows "\<exists>i < length ids. find_student (map f ids @ rest) sid = Some i \<and> ids ! i = cstr sid"
  using assms(1,3)
proof (induction ids)
  case (Cons s ids)
  show ?case
  proof (cases "s = cstr sid")
    case True
    with Cons.prems assms(2,4) show ?thesis by (auto simp: strncmp_ids simp del: proto_consts)
  next
    case False
    with Cons.prems have "cstr sid \<in> set ids" by simp
    with Cons obtain i where "i < length ids" "find_student (map f ids @ rest) sid = Some i"
      "ids ! i = cstr sid" by auto
    with False Cons.prems assms(2,4) show ?thesis
      by (intro exI [of _ "Suc i"]) (simp add: strncmp_ids del: proto_consts)
  qed
qed simp

lemma find_student_unknown:
  assumes "\<forall>s \<in> set ids. s \<noteq> [] \<and> length s < MAX_STUDENT_ID \<and> cstr s = s"
    and "length (cstr sid) < MAX_STUDENT_ID" and "cstr sid \<notin> set ids"
    and "\<And>s. sr_id (f s) = s"
  shows "find_student (map f ids @ replicate k empty_slot) sid = None"
  using assms(1,3)
proof (induction ids)
  case Nil
  then show ?case by (cases k) (simp_all add: empty_slot_def)
next
  case (Cons s ids)
  with assms(2,4) show ?case by (auto simp: strncmp_ids simp del: proto_consts)
qed

lemma find_free_table:
  assumes "\<forall>s \<in> set ids. s \<noteq> []" and "\<And>s. sr_id (f s) = s"
  shows "find_free (map f ids @ replicate k empty_slot) = (if k = 0 then None else Some (length ids))"
  using assms(1)
proof (induction ids)
  case Nil
  then show ?case by (cases k) (simp_all add: empty_slot_def)
qed (simp add: assms(2))

section \<open>The context provides the contract\<close>

lemma rec_of_id [simp]: "sr_id (rec_of h s) = s"
  by (simp add: rec_of_def)

lemma unat_max: "unat (0xFFFFFFFF :: u32) = UINT32_MAX"
  by (simp add: UINT32_MAX_def)

lemma UINT32_MAX_less: "UINT32_MAX < 2 ^ 32"
  by (simp add: UINT32_MAX_def)

lemma unat_sat: "unat (of_nat (sat UINT32_MAX n) :: u32) = sat UINT32_MAX n"
proof -
  have "sat UINT32_MAX n < 2 ^ 32" using UINT32_MAX_less by (simp add: sat_def)
  then have "take_bit 32 (sat UINT32_MAX n) = sat UINT32_MAX n" by (rule take_bit_nat_eq_self)
  then show ?thesis by (simp add: unsigned_of_nat)
qed

lemma sat_count:
  "(if (of_nat (sat UINT32_MAX n) :: u32) < 0xFFFFFFFF
    then of_nat (sat UINT32_MAX n) + 1 else of_nat (sat UINT32_MAX n)) =
   (of_nat (sat UINT32_MAX (Suc n)) :: u32)"
proof (cases "n < UINT32_MAX")
  case True
  then have "sat UINT32_MAX n = n" "sat UINT32_MAX (Suc n) = Suc n"
    by (simp_all add: sat_def)
  then show ?thesis using True unat_sat [of n]
    by (simp only: word_less_nat_alt unat_max if_True of_nat_Suc add.commute)
next
  case False
  then have s: "sat UINT32_MAX n = UINT32_MAX" "sat UINT32_MAX (Suc n) = UINT32_MAX"
    by (simp_all add: sat_def)
  then show ?thesis using unat_sat [of n]
    by (simp only: word_less_nat_alt unat_max less_irrefl if_False)
qed

lemma sat_report: "clamp_u16 (of_nat (sat UINT32_MAX n)) = of_nat (sat 65535 n)"
proof -
  have u: "unat (0xFFFF :: u32) = 65535" by simp
  have m: "65535 < UINT32_MAX" by (simp add: UINT32_MAX_def)
  show ?thesis
  proof (cases "n \<le> 65535")
    case True
    then have s: "sat UINT32_MAX n = n" "sat 65535 n = n"
      using m by (simp_all add: sat_def)
    have "\<not> 0xFFFF < (of_nat n :: u32)"
      using unat_sat [of n] True by (simp only: s u word_less_nat_alt not_less)
    moreover have "ucast (of_nat n :: u32) = (of_nat n :: u16)"
      using True by (simp add: unsigned_of_nat take_bit_nat_eq_self)
    ultimately show ?thesis by (simp only: s clamp_u16_def if_False)
  next
    case False
    then have s: "65535 < sat UINT32_MAX n" "sat 65535 n = 65535"
      using m by (simp_all add: sat_def)
    have "0xFFFF < (of_nat (sat UINT32_MAX n) :: u32)"
      using unat_sat [of n] s(1) by (simp only: u word_less_nat_alt)
    then show ?thesis by (simp add: clamp_u16_def s(2))
  qed
qed

lemma accepted_best:
  assumes "of_student s h \<noteq> []"
  shows "accepted h s \<longleftrightarrow> best_grade h s = GRADE_AC"
proof -
  have "verdict (last (of_student s h)) \<in> set (map verdict (of_student s h))"
    using last_in_set [OF assms] by (metis image_eqI set_map)
  then show ?thesis by (metis accepted_def best_grade_def)
qed

lemma note_grade_count [simp]: "submit_count (note_grade g r) = submit_count r"
  by (simp add: note_grade_def)

lemma count_attempt_count:
  "submit_count (count_attempt t r) =
     (if submit_count r < 0xFFFFFFFF then submit_count r + 1 else submit_count r)"
  by (simp add: count_attempt_def)

text \<open>One more submission of a student the table already holds.\<close>

lemma note_known:
  assumes "of_student (who e) h \<noteq> []"
  shows "note_grade (verdict e) (count_attempt (fst e) (rec_of h (who e))) = rec_of (h @ [e]) (who e)"
    (is "?l = ?r")
proof (rule StudentRecord.equality)
  have ac: "accepted h (who e) \<longleftrightarrow> best_grade h (who e) = GRADE_AC"
    using assms by (rule accepted_best)
  have ac': "\<not> accepted h (who e) \<longleftrightarrow> best_grade h (who e) \<noteq> GRADE_AC"
    using ac by simp
  have old: "submit_count (rec_of h (who e)) = of_nat (sat UINT32_MAX (attempts h (who e)))"
    and new: "submit_count ?r = of_nat (sat UINT32_MAX (Suc (attempts h (who e))))"
    by (simp_all add: rec_of_def attempts_snoc)
  show "submit_count ?l = submit_count ?r"
    by (simp only: note_grade_count new count_attempt_count old sat_count)
  have b: "best_grade (h @ [e]) (who e) =
      (if accepted h (who e) \<or> verdict e = GRADE_AC then GRADE_AC else verdict e)"
    by (simp add: best_grade_def accepted_snoc of_student_snoc)
  have s: "submitted (rec_of h (who e)) = of_bool (accepted h (who e))"
    "best_result (rec_of h (who e)) = grade_code (best_grade h (who e))"
    by (simp_all add: rec_of_def)
  show "submitted ?l = submitted ?r"
    by (cases "accepted h (who e)"; cases "verdict e = GRADE_AC")
      (simp_all add: note_grade_def count_attempt_def s rec_of_def [of "h @ [e]"] accepted_snoc)
  show "best_result ?l = best_result ?r"
    by (cases "accepted h (who e)"; cases "verdict e = GRADE_AC")
      (use ac ac' in \<open>simp_all add: note_grade_def count_attempt_def s rec_of_def [of "h @ [e]"] b
        flip: grade_code.simps\<close>)
qed (simp_all add: note_grade_def count_attempt_def rec_of_def of_student_snoc)

lemma note_new:
  assumes "of_student (who e) h = []" and "length (who e) < MAX_STUDENT_ID" and "cstr sid = who e"
  shows "note_grade (verdict e) (count_attempt (fst e) (new_record empty_slot sid))
    = rec_of (h @ [e]) (who e)"
proof -
  have "take 15 (who e) = who e" using assms(2) by simp
  moreover have "\<not> accepted h (who e)" "attempts h (who e) = 0"
    using assms(1) by (simp_all add: accepted_def attempts_def)
  ultimately show ?thesis
    using assms(1,3)
    by (auto simp: note_grade_def count_attempt_def rec_of_def new_record_def accepted_snoc
        best_grade_def of_student_snoc attempts_snoc sat_def empty_slot_def UINT32_MAX_def)
qed

lemma table_length: "length (ids_of h) \<le> MAX_STUDENTS \<Longrightarrow> length (table_of h) = MAX_STUDENTS"
  by (simp add: table_of_def)

lemma table_snoc_known:
  assumes "i < length (ids_of h)" and "ids_of h ! i = who e"
  shows "(table_of h)[i := rec_of (h @ [e]) (who e)] = table_of (h @ [e])"
proof -
  have "who e \<in> set (ids_of h)" using assms nth_mem by metis
  then have ids: "ids_of (h @ [e]) = ids_of h" by (simp add: ids_of_snoc add_id_def)
  have "(map (rec_of h) (ids_of h))[i := rec_of (h @ [e]) (who e)] = map (rec_of (h @ [e])) (ids_of h)"
  proof (rule nth_equalityI)
    fix j
    assume j: "j < length ((map (rec_of h) (ids_of h))[i := rec_of (h @ [e]) (who e)])"
    show "(map (rec_of h) (ids_of h))[i := rec_of (h @ [e]) (who e)] ! j
        = map (rec_of (h @ [e])) (ids_of h) ! j"
    proof (cases "j = i")
      case False
      then have "who e \<noteq> ids_of h ! j"
        using j assms nth_eq_iff_index_eq [OF ids_of_distinct, of i h j] by auto
      with False j show ?thesis by (simp add: rec_of_other)
    qed (use j assms in simp)
  qed simp
  then show ?thesis using assms by (simp add: table_of_def ids list_update_append)
qed

lemma table_snoc_new:
  assumes "who e \<notin> set (ids_of h)" and "length (ids_of h) < MAX_STUDENTS"
  shows "(table_of h)[length (ids_of h) := rec_of (h @ [e]) (who e)] = table_of (h @ [e])"
proof -
  have ids: "ids_of (h @ [e]) = ids_of h @ [who e]"
    using assms by (simp add: ids_of_snoc add_id_def)
  have "map (rec_of h) (ids_of h) = map (rec_of (h @ [e])) (ids_of h)"
    using assms(1) by (auto intro: rec_of_other [symmetric])
  moreover obtain k where "MAX_STUDENTS - length (ids_of h) = Suc k"
    using assms(2) by (metis Suc_diff_Suc)
  ultimately show ?thesis
    by (simp add: table_of_def ids list_update_append Suc_diff_Suc)
qed

lemma record_at_result:
  assumes "note_grade g (count_attempt now (students ctx ! i)) = rec_of (h @ [e]) (who e)"
    and "(students ctx)[i := rec_of (h @ [e]) (who e)] = table_of (h @ [e])"
    and "submitted_count ctx = of_nat n"
    and "length (solved (h @ [e])) =
      n + of_bool (g = GRADE_AC \<and> submitted (count_attempt now (students ctx ! i)) = 0)"
  shows "record_at now i g ctx =
    (ctx\<lparr>students := table_of (h @ [e]), submitted_count := of_nat (length (solved (h @ [e])))\<rparr>,
     reported (h @ [e]) (who e))"
proof -
  have "submit_count (count_attempt now (students ctx ! i)) = submit_count (rec_of (h @ [e]) (who e))"
    by (metis assms(1) note_grade_count)
  then have "submit_count (count_attempt now (students ctx ! i))
      = of_nat (sat UINT32_MAX (attempts (h @ [e]) (who e)))"
    by (simp add: rec_of_def)
  then have c: "clamp_u16 (submit_count (count_attempt now (students ctx ! i)))
      = reported (h @ [e]) (who e)"
    by (simp only: sat_report reported_def)
  show ?thesis
    unfolding record_at_def Let_def c assms(1,2,4) using assms(3) by simp
qed

text \<open>The two ways a submission is recorded, and what it does to the table.\<close>

lemma record_known:
  fixes now :: int and g :: GradeResult
  assumes "tracks ctx h" and "valid_id sid" and "cstr sid \<in> set (ids_of h)"
  defines "e \<equiv> (now, cstr sid, g)"
  shows "tracks (fst (ctx_record_submission now ctx sid g)) (h @ [e])"
    and "snd (ctx_record_submission now ctx sid g) = reported (h @ [e]) (cstr sid)"
proof -
  have st: "students ctx = table_of h" and ok: "\<forall>s \<in> set (ids_of h). s \<noteq> [] \<and> length s < MAX_STUDENT_ID \<and> cstr s = s"
    using assms(1) by (auto simp: tracks_def)
  obtain i where i: "i < length (ids_of h)" "find_student (students ctx) sid = Some i"
      "ids_of h ! i = who e"
    using find_student_known [OF ok _ assms(3), of "rec_of h" "replicate (MAX_STUDENTS - length (ids_of h)) empty_slot"]
      assms(2) by (auto simp: st table_of_def valid_id_def e_def simp del: proto_consts)
  have r: "students ctx ! i = rec_of h (who e)"
    using i by (simp add: st table_of_def nth_append)
  have ne: "of_student (who e) h \<noteq> []"
    using assms(3) by (simp add: of_student_empty_iff e_def)
  have ids: "ids_of (h @ [e]) = ids_of h"
    using assms(3) by (simp add: ids_of_snoc add_id_def e_def)
  have first: "submitted (count_attempt now (rec_of h (who e))) = 0 \<longleftrightarrow> \<not> accepted h (who e)"
    by (simp add: count_attempt_def rec_of_def)
  have nt: "note_grade g (count_attempt now (rec_of h (who e))) = rec_of (h @ [e]) (who e)"
    using note_known [OF ne] by (simp add: e_def)
  have "record_at now i g ctx =
      (ctx\<lparr>students := table_of (h @ [e]), submitted_count := of_nat (length (solved (h @ [e])))\<rparr>,
       reported (h @ [e]) (who e))"
  proof (rule record_at_result)
    show "note_grade g (count_attempt now (students ctx ! i)) = rec_of (h @ [e]) (who e)"
      using nt r by simp
    show "(students ctx)[i := rec_of (h @ [e]) (who e)] = table_of (h @ [e])"
      using table_snoc_known [OF i(1,3)] st by simp
    show "length (solved (h @ [e])) = length (solved h)
        + of_bool (g = GRADE_AC \<and> submitted (count_attempt now (students ctx ! i)) = 0)"
      using solved_snoc_known [of e h] assms(3) first r by (simp add: e_def)
  qed (use assms(1) in \<open>simp add: tracks_def\<close>)
  then have "ctx_record_submission now ctx sid g =
      (ctx\<lparr>students := table_of (h @ [e]), submitted_count := of_nat (length (solved (h @ [e])))\<rparr>,
       reported (h @ [e]) (cstr sid))"
    by (simp add: ctx_record_submission_def i(2) e_def)
  then show "tracks (fst (ctx_record_submission now ctx sid g)) (h @ [e])"
    and "snd (ctx_record_submission now ctx sid g) = reported (h @ [e]) (cstr sid)"
    using assms(1) by (simp_all add: tracks_def ids)
qed

lemma record_new:
  fixes now :: int and g :: GradeResult
  assumes "tracks ctx h" and "valid_id sid" and "cstr sid \<notin> set (ids_of h)"
    and "length (ids_of h) < MAX_STUDENTS"
  defines "e \<equiv> (now, cstr sid, g)"
  shows "tracks (fst (ctx_record_submission now ctx sid g)) (h @ [e])"
    and "snd (ctx_record_submission now ctx sid g) = reported (h @ [e]) (cstr sid)"
proof -
  let ?n = "length (ids_of h)"
  have st: "students ctx = table_of h"
    and ok: "\<forall>s \<in> set (ids_of h). s \<noteq> [] \<and> length s < MAX_STUDENT_ID \<and> cstr s = s"
    using assms(1) by (auto simp: tracks_def)
  have sid: "cstr sid \<noteq> []" "length (cstr sid) < MAX_STUDENT_ID"
    using assms(2) by (simp_all add: valid_id_def)
  have none: "find_student (students ctx) sid = None"
    using find_student_unknown [OF ok sid(2) assms(3), of "rec_of h"] by (simp add: st table_of_def)
  have free: "find_free (students ctx) = Some ?n"
    using find_free_table [of "ids_of h" "rec_of h"] ok assms(4) by (simp add: st table_of_def)
  have r: "students ctx ! ?n = empty_slot"
    using assms(4) by (simp add: st table_of_def nth_append)
  have len: "?n < length (students ctx)"
    using assms(4) by (simp add: st table_length)
  have es: "of_student (who e) h = []"
    using assms(3) by (simp add: of_student_empty_iff e_def)
  have ids: "ids_of (h @ [e]) = ids_of h @ [cstr sid]"
    using assms(3) by (simp add: ids_of_snoc add_id_def e_def)
  have nt: "note_grade g (count_attempt now (new_record empty_slot sid)) = rec_of (h @ [e]) (who e)"
  proof -
    have w: "cstr sid = who e" "length (who e) < MAX_STUDENT_ID" and v: "verdict e = g" "fst e = now"
      using sid(2) by (simp_all only: e_def fst_conv snd_conv)
    show ?thesis by (rule note_new [OF es w(2) w(1), unfolded v])
  qed
  have zero: "submitted (count_attempt now (new_record empty_slot sid)) = 0"
    by (simp add: count_attempt_def new_record_def)
  let ?c = "ctx\<lparr>students := (students ctx)[?n := new_record empty_slot sid]\<rparr>"
  have "record_at now ?n g ?c =
      (?c\<lparr>students := table_of (h @ [e]), submitted_count := of_nat (length (solved (h @ [e])))\<rparr>,
       reported (h @ [e]) (who e))"
  proof (rule record_at_result)
    show "note_grade g (count_attempt now (students ?c ! ?n)) = rec_of (h @ [e]) (who e)"
      using nt len by simp
    show "(students ?c)[?n := rec_of (h @ [e]) (who e)] = table_of (h @ [e])"
      using table_snoc_new [of e h] assms(3,4) st by (simp add: e_def)
    show "length (solved (h @ [e])) = length (solved h)
        + of_bool (g = GRADE_AC \<and> submitted (count_attempt now (students ?c ! ?n)) = 0)"
      using solved_snoc_new [of e h] assms(3) zero len by (simp add: e_def)
  qed (use assms(1) in \<open>simp add: tracks_def\<close>)
  then have "ctx_record_submission now ctx sid g =
      (ctx\<lparr>students := table_of (h @ [e]), submitted_count := of_nat (length (solved (h @ [e])))\<rparr>,
       reported (h @ [e]) (cstr sid))"
    by (simp add: ctx_record_submission_def none free r e_def)
  then show "tracks (fst (ctx_record_submission now ctx sid g)) (h @ [e])"
    and "snd (ctx_record_submission now ctx sid g) = reported (h @ [e]) (cstr sid)"
    using assms(1,4) sid by (auto simp: tracks_def ids)
qed

lemma record_no_room:
  assumes "tracks ctx h" and "valid_id sid" and "\<not> has_room h (cstr sid)"
  shows "ctx_record_submission now ctx sid g = (ctx, 0)"
proof -
  have st: "students ctx = table_of h"
    and ok: "\<forall>s \<in> set (ids_of h). s \<noteq> [] \<and> length s < MAX_STUDENT_ID \<and> cstr s = s"
    using assms(1) by (auto simp: tracks_def)
  have full: "length (ids_of h) = MAX_STUDENTS" "cstr sid \<notin> set (ids_of h)"
    using assms(1,3) by (auto simp: has_room_def tracks_def)
  have "find_student (students ctx) sid = None"
    using find_student_unknown [OF ok _ full(2), of "rec_of h"] assms(2)
    by (simp add: st table_of_def valid_id_def del: proto_consts)
  moreover have "find_free (students ctx) = None"
    using find_free_table [of "ids_of h" "rec_of h" 0] ok full by (simp add: st table_of_def)
  ultimately show ?thesis by (simp add: ctx_record_submission_def)
qed

lemma reset_tracks: "tracks ctx h \<Longrightarrow> tracks (set_hw_reset_tracker ctx) []"
  by (simp add: tracks_def set_hw_reset_tracker_def table_length table_of_def solved_def)

interpretation tracker: tracker_contract ctx_record_submission set_hw_reset_tracker tracks
proof
  fix c :: ServerContext and h :: "submission list" and s :: string and t :: int and g :: GradeResult
  assume c: "tracks c h" "valid_id s"
  {
    assume room: "has_room h (cstr s)"
    show "tracks (fst (ctx_record_submission t c s g)) (h @ [(t, cstr s, g)])"
      using c room record_known [of c h s t g] record_new [of c h s t g]
      by (cases "cstr s \<in> set (ids_of h)") (auto simp: has_room_def)
    show "snd (ctx_record_submission t c s g) = reported (h @ [(t, cstr s, g)]) (cstr s)"
      using c room record_known [of c h s t g] record_new [of c h s t g]
      by (cases "cstr s \<in> set (ids_of h)") (auto simp: has_room_def)
  next
    assume "\<not> has_room h (cstr s)"
    with c show "ctx_record_submission t c s g = (c, 0)" by (rule record_no_room)
  }
qed (rule reset_tracks)

section \<open>Properties\<close>

text \<open>C2: the tracker is a faithful summary of what was submitted. After any sequence of graded
  submissions (with well-formed ids of at most 512 students, starting from a fresh week) the
  student table is exactly the table of the history: one record per student in order of first
  submission, with the number of attempts, accepted or not, the best grade (AC if there was
  one, else the latest) and the time of the last attempt; the shared counter is the number of
  students with an AC; and the count reported for the latest submission is its student's
  number of attempts, saturated at 65535.\<close>

theorem tracker_refines_history:
  assumes "tracks ctx []" and "\<forall>x \<in> set (es @ [(now, s, g)]). valid_id (who x) \<and> cstr (who x) = who x"
    and "length (ids_of (es @ [(now, s, g)])) \<le> MAX_STUDENTS"
  shows "let before = foldl (\<lambda>c (t, s, g). fst (ctx_record_submission t c s g)) ctx es;
             (after, count) = ctx_record_submission now before s g;
             h = es @ [(now, s, g)]
         in students after = map (rec_of h) (ids_of h) @ replicate (512 - length (ids_of h)) empty_slot \<and>
            submitted_count after = of_nat (length (filter (accepted h) (ids_of h))) \<and>
            count = of_nat (min 65535 (attempts h s))"
proof -
  let ?e = "(now, s, g)"
  let ?before = "tracker.record_all ctx es"
  have all: "?before = foldl (\<lambda>c (t, s, g). fst (ctx_record_submission t c s g)) ctx es"
    by (simp add: tracker.record_all_def)
  have "snd (ctx_record_submission now ?before s g) = reported (es @ [?e]) s"
    using tracker.record_all_reports [OF assms(1), of es ?e] assms(2,3) by simp
  moreover have "tracks (tracker.record_all ctx (es @ [?e])) (es @ [?e])"
    using tracker.record_all_holds [OF assms(1), of "es @ [?e]"] assms(2,3) by simp
  then have "tracks (fst (ctx_record_submission now ?before s g)) (es @ [?e])"
    by (simp add: tracker.record_all_def)
  ultimately show ?thesis
    unfolding all [symmetric] Let_def case_prod_beta
    by (simp only: tracks_def table_of_def solved_def reported_def sat_def MAX_STUDENTS_def
        min.commute [of _ 65535])
qed

lemma fresh_tracks: "students c = replicate MAX_STUDENTS empty_slot \<Longrightarrow> submitted_count c = 0 \<Longrightarrow> tracks c []"
  by (simp add: tracks_def table_of_def solved_def)

lemma ctx_init_fresh: "tracks (fst (ctx_init e w)) []"
proof -
  have "valid_week ''week_1''" by (simp add: valid_week_def strlen_def cstr_def)
  then show ?thesis
    unfolding ctx_init_def by (intro fresh_tracks) (simp_all add: set_hw_valid)
qed

theorem tracker_refines_history_witness:
  "let e = \<lparr>env_open = \<lambda>_. 5, env_mkdir = \<lambda>_. True, env_write = \<lambda>t. int (length t), env_now = 7,
            env_localtime = \<lambda>_. ''t''\<rparr>;
       w = \<lparr>os_files = \<lambda>_. None, os_dirs = [], os_fds = \<lambda>_. None\<rparr>;
       c0 = fst (ctx_init e w);
       c1 = fst (ctx_record_submission 1 c0 ''20240001'' GRADE_WA);
       (c2, n) = ctx_record_submission 2 c1 ''20240001'' GRADE_AC
   in n = 2 \<and> submitted_count c2 = 1 \<and> submit_count (hd (students c2)) = 2"
proof -
  define e where "e = \<lparr>env_open = \<lambda>_::string. 5, env_mkdir = \<lambda>_. True, env_write = \<lambda>t. int (length t),
     env_now = 7, env_localtime = \<lambda>_. ''t''\<rparr>"
  define w where "w = \<lparr>os_files = \<lambda>_. None, os_dirs = [], os_fds = \<lambda>_. None\<rparr>"
  let ?s = "''20240001''"
  let ?h = "[(1, ?s, GRADE_WA), (2, ?s, GRADE_AC)]"
  have c: "cstr ?s = ?s" by (simp add: cstr_def)
  have ids: "ids_of ?h = [?s]" by (simp add: ids_of_def add_id_def)
  show ?thesis
    using tracker_refines_history [OF ctx_init_fresh [of e w], of "[(1, ?s, GRADE_WA)]" 2 ?s GRADE_AC]
    unfolding e_def [symmetric] w_def [symmetric]
    by (simp add: c valid_id_def MAX_STUDENTS_def Let_def ids case_prod_beta accepted_def
        of_student_def attempts_def rec_of_def sat_def UINT32_MAX_def)
qed

text \<open>When 512 students are on the table, a submission of a further student is dropped: the
  context is unchanged, the reported count is 0 and an AC is not counted; a student
  already on the table is still recorded.\<close>

theorem full_table_drops:
  assumes "tracks ctx h" and "length (ids_of h) = 512" and "valid_id sid"
  shows "(cstr sid \<notin> set (ids_of h) \<longrightarrow> ctx_record_submission now ctx sid g = (ctx, 0)) \<and>
         (cstr sid \<in> set (ids_of h) \<longrightarrow>
            snd (ctx_record_submission now ctx sid g) = of_nat (min 65535 (Suc (attempts h (cstr sid)))))"
proof (intro conjI impI)
  show "ctx_record_submission now ctx sid g = (ctx, 0)" if "cstr sid \<notin> set (ids_of h)"
    by (rule tracker.record_full [OF assms(1,3)])
      (use that assms(2) in \<open>simp add: has_room_def MAX_STUDENTS_def\<close>)
  show "snd (ctx_record_submission now ctx sid g) = of_nat (min 65535 (Suc (attempts h (cstr sid))))"
    if "cstr sid \<in> set (ids_of h)"
    using tracker.record_reports [OF assms(1,3), of now g] that
    by (simp add: has_room_def reported_def sat_def attempts_snoc min.commute)
qed

lemma ids_of_distinct_list: "distinct (map who h) \<Longrightarrow> ids_of h = map who h"
proof (induction h rule: rev_induct)
  case (snoc e h)
  then show ?case by (auto simp: ids_of_snoc add_id_def)
qed simp

lemma dec_inject: "dec m = dec n \<longleftrightarrow> m = n"
  by (metis digits_val_dec)

theorem full_table_drops_witness:
  "\<exists>ctx h. tracks ctx h \<and> length (ids_of h) = 512 \<and>
     ctx_record_submission 9 ctx ''99999999'' GRADE_AC = (ctx, 0)"
proof -
  define h :: "submission list" where "h = map (\<lambda>n. (0, dec n, GRADE_WA)) [0..<512]"
  have d: "distinct (map who h)"
    by (simp add: h_def comp_def distinct_map inj_on_def dec_inject)
  have ids: "ids_of h = map dec [0..<512]"
    using ids_of_distinct_list [OF d] by (simp add: h_def comp_def)
  have short: "dec n \<noteq> [] \<and> length (dec n) < MAX_STUDENT_ID \<and> cstr (dec n) = dec n" if "n < 512" for n
  proof -
    have "length (dec n) \<le> Suc 2" using that by (intro length_dec) simp
    then show ?thesis by (simp add: cstr_id dec_no_nul)
  qed
  define ctx :: ServerContext where "ctx = \<lparr>current_hw = ''w'', ans_path = [], submit_dir = [],
    students = table_of h, total_students = 0, submitted_count = of_nat (length (solved h)),
    csv = \<lparr>total_records = 0, last_write_ts = 0, csv_fd = -1, csv_path = []\<rparr>,
    paused = 0, dist_paused = 0, timeout_ms = 5000\<rparr>"
  have t: "tracks ctx h"
    using short by (auto simp: tracks_def ctx_def ids MAX_STUDENTS_def)
  have v: "valid_id ''99999999''" "cstr ''99999999'' = ''99999999''"
    by (simp_all add: valid_id_def cstr_def)
  have "''99999999'' \<notin> set (ids_of h)"
  proof
    assume "''99999999'' \<in> set (ids_of h)"
    then obtain n where "n < 512" "dec n = ''99999999''" by (auto simp: ids)
    then have "digits_val ''99999999'' < 512" using digits_val_dec [of n] by simp
    then show False by (simp add: digits_val_def digit_def)
  qed
  then have "ctx_record_submission 9 ctx ''99999999'' GRADE_AC = (ctx, 0)"
    using full_table_drops [OF t _ v(1), of 9 GRADE_AC] v(2) by (simp add: ids)
  with t show ?thesis by (intro exI [of _ ctx] exI [of _ h]) (simp add: ids)
qed

lemma find_student_empty:
  assumes "\<forall>r \<in> set rs. cstr (sr_id r) = sr_id r" and "cstr sid = []"
  shows "find_student rs sid = None"
  using assms(1) by (induction rs) (auto simp: strncmp_eq_def assms(2))

text \<open>An id that is no C string of at most 15 characters never equals a stored one.\<close>

lemma find_student_overlong:
  assumes "\<forall>r \<in> set rs. length (sr_id r) < MAX_STUDENT_ID" and "MAX_STUDENT_ID \<le> length (cstr sid)"
  shows "find_student rs sid = None"
  using assms(1)
proof (induction rs)
  case (Cons r rs)
  have "length (cstr (sr_id r)) < 16"
    using Cons.prems length_takeWhile_le [of "\<lambda>c. c \<noteq> NUL" "sr_id r"]
    by (simp add: cstr_def order.strict_trans1)
  then have "\<not> strncmp_eq (sr_id r) sid MAX_STUDENT_ID"
    using assms(2) by (auto simp: strncmp_eq_def dest: arg_cong [of _ _ length])
  with Cons show ?case by simp
qed simp

text \<open>The shape of the table between two submissions, the free slot included.\<close>

definition slots :: "ServerContext \<Rightarrow> submission list \<Rightarrow> StudentRecord list \<Rightarrow> bool" where
  "slots c h rs \<longleftrightarrow> students c = map (rec_of h) (ids_of h) @ rs \<and>
     (\<forall>s \<in> set (ids_of h). s \<noteq> [] \<and> length s < MAX_STUDENT_ID \<and> cstr s = s)"

lemma tracks_slots:
  "tracks c h \<Longrightarrow> slots c h (replicate (MAX_STUDENTS - length (ids_of h)) empty_slot)"
  by (simp add: tracks_def slots_def table_of_def)

lemma find_free_slots:
  assumes "slots c h (rs @ r # qs)" and "\<forall>r \<in> set rs. sr_id r \<noteq> []" and "sr_id r = []"
  shows "find_free (students c) = Some (length (ids_of h) + length rs)"
proof -
  have "find_free (xs @ r # qs) = Some (length xs)" if "\<forall>r \<in> set xs. sr_id r \<noteq> []" for xs
    using that assms(3) by (induction xs) simp_all
  moreover have "\<forall>r \<in> set (map (rec_of h) (ids_of h) @ rs). sr_id r \<noteq> []"
    using assms(1,2) by (auto simp: slots_def)
  ultimately have "find_free ((map (rec_of h) (ids_of h) @ rs) @ r # qs)
      = Some (length (map (rec_of h) (ids_of h) @ rs))"
    by blast
  then show ?thesis using assms(1) by (simp add: slots_def)
qed

lemma record_empty_id:
  assumes "slots c h (r # rs)" and "sr_id r = []" and "\<forall>r \<in> set rs. sr_id r = []" and "cstr sid = []"
  shows "\<exists>r'. sr_id r' = [] \<and> slots (fst (ctx_record_submission now c sid GRADE_AC)) h (r' # rs) \<and>
    submitted_count (fst (ctx_record_submission now c sid GRADE_AC)) = submitted_count c + 1 \<and>
    snd (ctx_record_submission now c sid GRADE_AC) = 1"
proof -
  have "find_student (students c) sid = None"
    using assms by (intro find_student_empty) (auto simp: slots_def)
  moreover have "find_free (students c) = Some (length (ids_of h))"
    using find_free_slots [of c h "[]" r rs] assms(1,2) by simp
  moreover have "students c ! length (ids_of h) = r"
    using assms(1) by (simp add: slots_def nth_append)
  ultimately have rec: "ctx_record_submission now c sid GRADE_AC =
      record_at now (length (ids_of h)) GRADE_AC
        (c\<lparr>students := (students c)[length (ids_of h) := new_record r sid]\<rparr>)"
    by (simp add: ctx_record_submission_def)
  let ?r = "note_grade GRADE_AC (count_attempt now (new_record r sid))"
  have "sr_id ?r = []"
    using assms(4) by (simp add: note_grade_def count_attempt_def new_record_def)
  moreover have "submitted (count_attempt now (new_record r sid)) = 0"
    "submit_count (count_attempt now (new_record r sid)) = 1"
    by (simp_all add: count_attempt_def new_record_def)
  ultimately show ?thesis
    using assms(1)
    by (intro exI [of _ ?r])
      (simp add: rec record_at_def Let_def slots_def nth_at update_at clamp_u16_def)
qed

text \<open>The tracker has no guard against an empty student id. Such a submission is written to
  the first free slot, which stays free; so every AC sent with an empty id is counted as one
  more student who solved the week, while no record of it is ever found: \<open>n\<close> of them raise
  the counter by \<open>n\<close>, and the table of the real students does not change.\<close>

theorem empty_id_inflates_counter:
  assumes "tracks ctx h" and "length (ids_of h) < 512" and "cstr sid = []"
  shows "let ctx' = ((\<lambda>c. fst (ctx_record_submission now c sid GRADE_AC)) ^^ n) ctx
         in submitted_count ctx' = submitted_count ctx + of_nat n \<and>
            take (length (ids_of h)) (students ctx') = map (rec_of h) (ids_of h) \<and>
            find_free (students ctx') = find_free (students ctx)"
proof -
  obtain k where k: "MAX_STUDENTS - length (ids_of h) = Suc k"
    using assms(2) by (metis MAX_STUDENTS_def Suc_diff_Suc)
  let ?run = "\<lambda>n. ((\<lambda>c. fst (ctx_record_submission now c sid GRADE_AC)) ^^ n) ctx"
  have inv: "\<exists>r. sr_id r = [] \<and> slots (?run n) h (r # replicate k empty_slot) \<and>
      submitted_count (?run n) = submitted_count ctx + of_nat n" for n
  proof (induction n)
    case 0
    have "slots ctx h (empty_slot # replicate k empty_slot)"
      using tracks_slots [OF assms(1)] k by simp
    then show ?case by (intro exI [of _ empty_slot]) (simp add: empty_slot_def)
  next
    case (Suc n)
    then obtain r where r: "sr_id r = []" "slots (?run n) h (r # replicate k empty_slot)"
      "submitted_count (?run n) = submitted_count ctx + of_nat n" by blast
    from record_empty_id [OF r(2,1) _ assms(3), of now] r(3) show ?case
      by (auto simp: empty_slot_def add.commute add.left_commute)
  qed
  have free: "find_free (students (?run m)) = Some (length (ids_of h))" for m
    using inv [of m] find_free_slots [of "?run m" h "[]"] by auto
  from inv [of n] free [of n] free [of 0] show ?thesis
    by (auto simp: Let_def slots_def)
qed

theorem empty_id_inflates_counter_witness:
  "\<exists>ctx. tracks ctx [] \<and>
     submitted_count (((\<lambda>c. fst (ctx_record_submission 1 c [] GRADE_AC)) ^^ 3) ctx) = 3"
proof -
  obtain e :: env and w :: os where True by blast
  let ?c = "fst (ctx_init e w)"
  have "submitted_count ?c = 0"
    using ctx_init_fresh [of e w] by (simp add: tracks_def solved_def)
  then show ?thesis
    using empty_id_inflates_counter [OF ctx_init_fresh [of e w], of "[]" 3 1]
    by (intro exI [of _ ?c]) (simp add: Let_def ctx_init_fresh)
qed

text \<open>An id that fills the 16-byte field without a NUL is stored cut to 15 characters and is
  compared over 16, so it never matches its own record: every submission of such a student
  takes a new slot of the table and is reported as the first attempt.\<close>

theorem unterminated_id_never_found:
  assumes "tracks ctx h" and "length (ids_of h) + 2 \<le> 512" and "16 \<le> length (cstr sid)"
  shows "let (c1, n1) = ctx_record_submission t1 ctx sid g1;
             (c2, n2) = ctx_record_submission t2 c1 sid g2;
             k = length (ids_of h)
         in n1 = 1 \<and> n2 = 1 \<and>
            sr_id (students c2 ! k) = take 15 (cstr sid) \<and>
            sr_id (students c2 ! Suc k) = take 15 (cstr sid)"
proof -
  let ?k = "length (ids_of h)"
  obtain m where m: "MAX_STUDENTS - ?k = Suc (Suc m)"
    by (rule that [of "510 - ?k"]) (use assms(2) in \<open>simp add: MAX_STUDENTS_def\<close>)
  have sl: "slots ctx h (empty_slot # empty_slot # replicate m empty_slot)"
    using tracks_slots [OF assms(1)] m by simp
  let ?rec = "\<lambda>t g. note_grade g (count_attempt t (new_record empty_slot sid))"
  have id: "sr_id (?rec t g) = take 15 (cstr sid)" "sr_id (?rec t g) \<noteq> []" "length (sr_id (?rec t g)) < 16"
    for t g
    using assms(3) by (auto simp: note_grade_def count_attempt_def new_record_def)
  have one: "submit_count (count_attempt t (new_record empty_slot sid)) = 1" for t
    by (simp add: count_attempt_def new_record_def)
  have step: "\<exists>c'. ctx_record_submission t c sid g = (c', 1) \<and> slots c' h (rs @ ?rec t g # qs)"
    if s: "slots c h (rs @ empty_slot # qs)" and rs: "\<forall>r \<in> set rs. sr_id r \<noteq> [] \<and> length (sr_id r) < 16"
      and qs: "\<forall>r \<in> set qs. sr_id r = []" for c t g rs qs
  proof -
    have "find_student (students c) sid = None"
      using s rs qs assms(3) by (intro find_student_overlong) (auto simp: slots_def empty_slot_def)
    moreover have "find_free (students c) = Some (?k + length rs)"
      using find_free_slots [OF s] rs by (simp add: empty_slot_def)
    moreover have "students c ! (?k + length rs) = empty_slot"
      using s by (simp add: slots_def nth_append)
    ultimately show ?thesis
      using s by (simp add: ctx_record_submission_def record_at_def Let_def one clamp_u16_def slots_def
          nth_append list_update_append)
  qed
  have q: "\<forall>r \<in> set (empty_slot # replicate m empty_slot). sr_id r = []"
    "\<forall>r \<in> set (replicate m empty_slot). sr_id r = []"
    by (simp_all add: empty_slot_def)
  have "\<exists>c'. ctx_record_submission t1 ctx sid g1 = (c', 1)
      \<and> slots c' h ([] @ ?rec t1 g1 # (empty_slot # replicate m empty_slot))"
    by (rule step [OF _ _ q(1)]) (simp_all add: sl)
  then obtain c1 where c1: "ctx_record_submission t1 ctx sid g1 = (c1, 1)"
      "slots c1 h ([?rec t1 g1] @ empty_slot # replicate m empty_slot)" by auto
  have "\<exists>c'. ctx_record_submission t2 c1 sid g2 = (c', 1)
      \<and> slots c' h ([?rec t1 g1] @ ?rec t2 g2 # replicate m empty_slot)"
    by (rule step [OF c1(2) _ q(2)]) (use id in simp)
  then obtain c2 where c2: "ctx_record_submission t2 c1 sid g2 = (c2, 1)"
      "slots c2 h ([?rec t1 g1] @ ?rec t2 g2 # replicate m empty_slot)" by blast
  have "students c2 ! ?k = ?rec t1 g1" "students c2 ! Suc ?k = ?rec t2 g2"
    using c2(2) by (simp_all add: slots_def nth_append)
  then show ?thesis
    unfolding c1(1) c2(1) Let_def prod.case by (simp only: id(1))
qed

theorem unterminated_id_never_found_witness:
  "\<exists>ctx. tracks ctx [] \<and>
     (let (c1, n1) = ctx_record_submission 1 ctx ''0123456789abcdef'' GRADE_WA;
          (c2, n2) = ctx_record_submission 2 c1 ''0123456789abcdef'' GRADE_WA
      in n1 = 1 \<and> n2 = 1 \<and> sr_id (students c2 ! 1) = ''0123456789abcde'')"
proof -
  obtain e :: env and w :: os where True by blast
  show ?thesis
    using unterminated_id_never_found [OF ctx_init_fresh [of e w], of "''0123456789abcdef''" 1 GRADE_WA 2 GRADE_WA]
    by (intro exI [of _ "fst (ctx_init e w)"])
      (auto simp: ctx_init_fresh cstr_def Let_def case_prod_beta)
qed

end
