(* ===== verification/Crc.thy ===== *)
theory Crc
  imports Prelude
begin

text \<open>
  The CRC-32 the packets carry. The program computes it in four places: \<open>crc32_buf\<close> of
  \<^verbatim>\<open>client/client.c\<close>, \<open>_pull_crc32\<close> of \<^verbatim>\<open>server/server.c\<close>, and incrementally, chunk by
  chunk, in \<open>send_one_file\<close> (server) and \<open>do_pull_mode\<close> (client). The theory shows that the
  branch-free bit step is the textbook one, that the chunked and the one-shot computations
  agree however a file is cut into chunks, and which transmission errors the checksum
  cannot miss.
\<close>

section \<open>The bit step and the buffer loop\<close>

definition CRC_POLY :: u32 where
  "CRC_POLY = 0xEDB88320"

definition crc_bit :: "u32 \<Rightarrow> u32" where
  "crc_bit crc = drop_bit 1 crc XOR (CRC_POLY AND - (crc AND 1))"

definition crc_byte :: "u32 \<Rightarrow> byte \<Rightarrow> u32" where
  "crc_byte crc b = (crc_bit ^^ 8) (crc XOR ucast b)"

definition crc_chunk :: "u32 \<Rightarrow> byte list \<Rightarrow> u32" where
  "crc_chunk crc buf = foldl crc_byte crc buf"

definition crc32_buf :: "byte list \<Rightarrow> u32" where
  "crc32_buf buf = NOT (foldl crc_byte 0xFFFFFFFF buf)"

definition pull_crc32 :: "byte list \<Rightarrow> u32" where
  "pull_crc32 buf = NOT (foldl crc_byte 0xFFFFFFFF buf)"

lemma crc_byte_eval:
  "crc_byte crc b =
     crc_bit (crc_bit (crc_bit (crc_bit (crc_bit (crc_bit (crc_bit (crc_bit (crc XOR ucast b))))))))"
  by (simp add: crc_byte_def numeral_eq_Suc)

section \<open>The bit step is the textbook one\<close>

lemma xor_cancel_right: "a XOR c = b XOR c \<longleftrightarrow> a = (b :: 'a::len word)"
proof
  assume "a XOR c = b XOR c"
  then have "(a XOR c) XOR c = (b XOR c) XOR c" by simp
  then show "a = b" by (simp add: xor.assoc)
qed simp

lemma xor_cancel_left: "c XOR a = c XOR b \<longleftrightarrow> a = (b :: 'a::len word)"
  using xor_cancel_right [of a c b] by (simp add: xor.commute)

lemma xor_zero_iff: "(a :: 'a::len word) XOR b = 0 \<longleftrightarrow> a = b"
  using xor_cancel_right [of a b b] by simp

lemma crc_bit_branch:
  "crc_bit c = (if odd c then drop_bit 1 c XOR CRC_POLY else drop_bit 1 c)"
proof (cases "odd c")
  case True
  then have "c AND 1 = 1" by (simp add: and_one_eq odd_iff_mod_2_eq_one)
  then have "CRC_POLY AND - (c AND 1) = CRC_POLY" by simp
  then show ?thesis using True by (simp add: crc_bit_def)
next
  case False
  then have "c AND 1 = 0" by (simp add: and_one_eq even_iff_mod_2_eq_zero)
  then show ?thesis using False by (simp add: crc_bit_def)
qed

lemma crc_bit_xor: "crc_bit (a XOR b) = crc_bit a XOR crc_bit b"
proof -
  have "odd (a XOR b) \<longleftrightarrow> odd a \<noteq> odd b" by (simp flip: bit_0 add: bit_xor_iff)
  then show ?thesis
    by (cases "odd a"; cases "odd b")
      (simp_all add: crc_bit_branch drop_bit_xor xor.assoc xor.left_commute xor.commute)
qed

lemma crc_poly_top: "bit CRC_POLY 31"
  by (simp add: CRC_POLY_def)

lemma crc_bit_zero: "crc_bit c = 0 \<longleftrightarrow> c = 0"
proof
  assume z: "crc_bit c = 0"
  have top: "\<not> bit (drop_bit 1 c) 31"
    using bit_imp_le_length [of c 32] by (auto simp: bit_drop_bit_eq)
  have ev: "even c"
  proof (rule ccontr)
    assume "odd c"
    with z have "drop_bit 1 c XOR CRC_POLY = 0" by (simp add: crc_bit_branch)
    then have "drop_bit 1 c = CRC_POLY" by (simp only: xor_zero_iff)
    with top crc_poly_top show False by simp
  qed
  with z have d: "drop_bit 1 c = 0" by (simp add: crc_bit_branch)
  show "c = 0"
  proof (rule bit_word_eqI)
    fix n
    show "bit c n \<longleftrightarrow> bit 0 n"
    proof (cases n)
      case 0
      with ev show ?thesis by (simp add: bit_0)
    next
      case (Suc m)
      from d have "\<not> bit (drop_bit 1 c) m" by simp
      with Suc show ?thesis by (simp add: bit_drop_bit_eq)
    qed
  qed
qed (simp add: crc_bit_branch)

lemma crc_bits_xor: "(crc_bit ^^ n) (a XOR b) = (crc_bit ^^ n) a XOR (crc_bit ^^ n) b"
  by (induction n) (simp_all add: crc_bit_xor)

lemma crc_bits_zero: "(crc_bit ^^ n) c = 0 \<longleftrightarrow> c = 0"
  by (induction n) (simp_all add: crc_bit_zero)

lemma crc_bits_inj: "(crc_bit ^^ n) a = (crc_bit ^^ n) b \<longleftrightarrow> a = b"
  by (metis crc_bits_xor crc_bits_zero xor_zero_iff)

section \<open>The interface of a streaming checksum\<close>

locale stream_checksum =
  fixes upd :: "'s \<Rightarrow> byte \<Rightarrow> 's"
    and start :: 's
    and finish :: "'s \<Rightarrow> 'd"
    and digest :: "byte list \<Rightarrow> 'd"
  assumes digest_fold: "digest xs = finish (foldl upd start xs)"
    and upd_state: "upd s b = upd t b \<longleftrightarrow> s = t"
    and upd_byte: "upd s a = upd s b \<longleftrightarrow> a = b"
    and finish_inj: "finish s = finish t \<longleftrightarrow> s = t"
begin

lemma fold_state: "foldl upd s xs = foldl upd t xs \<longleftrightarrow> s = t"
  by (induction xs arbitrary: s t) (simp_all add: upd_state)

text \<open>Cutting the input into chunks never changes the digest.\<close>

lemma digest_chunks: "finish (foldl (foldl upd) start chunks) = digest (concat chunks)"
proof -
  have "foldl (foldl upd) s chunks = foldl upd s (concat chunks)" for s
    by (induction chunks arbitrary: s) simp_all
  then show ?thesis by (simp add: digest_fold)
qed

text \<open>A single changed byte always changes the digest.\<close>

lemma detects_byte: "digest (p @ a # q) = digest (p @ b # q) \<longleftrightarrow> a = b"
  by (simp add: digest_fold finish_inj fold_state upd_byte)

lemma suffix_cancel: "digest (p @ r) = digest (q @ r) \<longleftrightarrow> digest p = digest q"
  by (simp add: digest_fold finish_inj fold_state)

end

lemma ucast_byte_inject: "(ucast a :: u32) = ucast b \<longleftrightarrow> a = (b :: byte)"
proof
  assume "(ucast a :: u32) = ucast b"
  then have "unat (ucast a :: u32) = unat (ucast b :: u32)" by simp
  moreover have "unat a < 2 ^ 32" "unat b < 2 ^ 32"
    using unsigned_less [of a, where ?'a = nat] unsigned_less [of b, where ?'a = nat] by simp_all
  ultimately have "unat a = unat b" by (simp add: unsigned_ucast_eq take_bit_nat_eq_self)
  then show "a = b" by (rule unsigned_word_eqI)
qed simp

lemma crc_byte_state: "crc_byte s b = crc_byte t b \<longleftrightarrow> s = t"
  by (simp only: crc_byte_def crc_bits_inj xor_cancel_right)

lemma crc_byte_byte: "crc_byte s a = crc_byte s b \<longleftrightarrow> a = b"
  by (simp only: crc_byte_def crc_bits_inj xor_cancel_left ucast_byte_inject)

lemma not_word_inject: "NOT a = NOT b \<longleftrightarrow> a = (b :: 'a::len word)"
  by (metis bit.double_compl)

interpretation client_crc: stream_checksum crc_byte "0xFFFFFFFF" "\<lambda>c. NOT c" crc32_buf
  by unfold_locales (auto simp: crc32_buf_def crc_byte_state crc_byte_byte not_word_inject)

interpretation server_crc: stream_checksum crc_byte "0xFFFFFFFF" "\<lambda>c. NOT c" pull_crc32
  by unfold_locales (auto simp: pull_crc32_def crc_byte_state crc_byte_byte not_word_inject)

lemma crc_chunk_append: "crc_chunk (crc_chunk c xs) ys = crc_chunk c (xs @ ys)"
  by (simp add: crc_chunk_def)

lemma crc_chunk_digest: "NOT (crc_chunk 0xFFFFFFFF xs) = crc32_buf xs"
  by (simp add: crc_chunk_def crc32_buf_def)

lemma crc_chunk_digest_server: "NOT (crc_chunk 0xFFFFFFFF xs) = pull_crc32 xs"
  by (simp add: crc_chunk_def pull_crc32_def)

section \<open>Bursts of errors\<close>

text \<open>
  The register is linear in state and input, and shifting it eight times undoes a shift by
  a byte. So the effect of up to four consecutive changed bytes on the register is the
  register's transform of those bytes packed into one word, which is zero only if nothing
  changed.
\<close>

lemma crc_bit_push:
  assumes "\<forall>n \<ge> 31 - k. \<not> bit x n"
  shows "crc_bit (push_bit (Suc k) x) = push_bit k (x :: u32)"
proof -
  have "even (push_bit (Suc k) x)" by simp
  moreover have "drop_bit 1 (push_bit (Suc k) x) = push_bit k x"
  proof (rule bit_word_eqI)
    fix n
    assume "n < LENGTH(32)"
    show "bit (drop_bit 1 (push_bit (Suc k) x)) n \<longleftrightarrow> bit (push_bit k x) n"
    proof (cases "n = 31")
      case True
      with assms have "\<not> bit x (n - k)" by auto
      with True show ?thesis by (simp add: bit_simps del: push_bit_Suc)
    next
      case False
      with \<open>n < LENGTH(32)\<close> show ?thesis by (auto simp: bit_simps simp del: push_bit_Suc)
    qed
  qed
  ultimately show ?thesis by (simp add: crc_bit_branch)
qed

lemma crc_bits_push:
  "\<forall>n \<ge> 32 - k. \<not> bit x n \<Longrightarrow> (crc_bit ^^ k) (push_bit k (x :: u32)) = x"
proof (induction k)
  case (Suc k)
  have "crc_bit (push_bit (Suc k) x) = push_bit k x"
    by (rule crc_bit_push) (use Suc.prems in auto)
  then show ?case using Suc by (simp add: funpow_Suc_right del: funpow.simps)
qed simp

fun pack_bytes :: "byte list \<Rightarrow> u32" where
  "pack_bytes [] = 0"
| "pack_bytes (d # ds) = ucast d XOR push_bit 8 (pack_bytes ds)"

lemma pack_bytes_bound: "8 * length ds \<le> n \<Longrightarrow> \<not> bit (pack_bytes ds) n"
  by (induction ds arbitrary: n) (auto simp: bit_simps dest: bit_imp_le_length)

lemma pack_bytes_zero:
  "length ds \<le> 4 \<Longrightarrow> pack_bytes ds = 0 \<longleftrightarrow> (\<forall>d \<in> set ds. d = 0)"
proof (induction ds)
  case (Cons d ds)
  have hi: "\<not> bit (pack_bytes ds) n" if "24 \<le> n" for n
    by (rule pack_bytes_bound) (use Cons.prems that in auto)
  show ?case
  proof
    assume z: "pack_bytes (d # ds) = 0"
    have bits: "bit (ucast d :: u32) n \<noteq> bit (push_bit 8 (pack_bytes ds)) n \<longleftrightarrow> False" for n
      using z by (metis bit_0_eq bit_xor_iff bot_apply bot_bool_def pack_bytes.simps(2))
    have d: "d = 0"
    proof (rule bit_word_eqI)
      fix n
      assume "n < LENGTH(8)"
      with bits [of n] show "bit d n \<longleftrightarrow> bit 0 n" by (simp add: bit_simps)
    qed
    moreover have "pack_bytes ds = 0"
    proof (rule bit_word_eqI)
      fix n
      assume "n < LENGTH(32)"
      show "bit (pack_bytes ds) n \<longleftrightarrow> bit 0 n"
        using bits [of "n + 8"] hi [of n] d \<open>n < LENGTH(32)\<close> by (cases "n < 24") (auto simp: bit_simps)
    qed
    ultimately show "\<forall>x \<in> set (d # ds). x = 0" using Cons by simp
  next
    assume "\<forall>x \<in> set (d # ds). x = 0"
    with Cons show "pack_bytes (d # ds) = 0" by simp
  qed
qed simp

lemma crc_chunk_pack:
  "length ds \<le> 4 \<Longrightarrow> foldl crc_byte s ds = (crc_bit ^^ (8 * length ds)) (s XOR pack_bytes ds)"
proof (induction ds arbitrary: s)
  case (Cons d ds)
  let ?k = "8 * length ds"
  have hi: "\<forall>n \<ge> 32 - 8. \<not> bit (pack_bytes ds) n"
    using Cons.prems by (auto intro!: pack_bytes_bound)
  have "foldl crc_byte s (d # ds) = (crc_bit ^^ ?k) (crc_byte s d XOR pack_bytes ds)"
    using Cons by simp
  also have "crc_byte s d XOR pack_bytes ds
      = (crc_bit ^^ 8) ((s XOR ucast d) XOR push_bit 8 (pack_bytes ds))"
    using crc_bits_push [OF hi] by (simp only: crc_byte_def crc_bits_xor)
  also have "(s XOR ucast d) XOR push_bit 8 (pack_bytes ds) = s XOR pack_bytes (d # ds)"
    by (simp add: xor.assoc)
  finally have "foldl crc_byte s (d # ds)
      = (crc_bit ^^ ?k) ((crc_bit ^^ 8) (s XOR pack_bytes (d # ds)))" .
  moreover have "crc_bit ^^ (8 * length (d # ds)) = crc_bit ^^ (?k + 8)"
    by (simp add: add.commute)
  ultimately show ?case by (simp only: funpow_add comp_apply)
qed simp

fun xor_bytes :: "byte list \<Rightarrow> byte list \<Rightarrow> byte list" where
  "xor_bytes (x # xs) (y # ys) = (x XOR y) # xor_bytes xs ys"
| "xor_bytes _ _ = []"

lemma pack_xor:
  "length xs = length ys \<Longrightarrow> pack_bytes xs XOR pack_bytes ys = pack_bytes (xor_bytes xs ys)"
proof (induction xs ys rule: list_induct2)
  case (Cons x xs y ys)
  have "(ucast (x XOR y) :: u32) = ucast x XOR ucast y"
    by (rule bit_word_eqI) (auto simp: bit_simps)
  moreover have "pack_bytes (x # xs) XOR pack_bytes (y # ys)
      = (ucast x XOR ucast y) XOR push_bit 8 (pack_bytes xs XOR pack_bytes ys)"
    by (rule bit_word_eqI) (auto simp: bit_simps)
  ultimately show ?case using Cons.IH by simp
qed simp

lemma xor_bytes_zero:
  "length xs = length ys \<Longrightarrow> (\<forall>d \<in> set (xor_bytes xs ys). d = 0) \<longleftrightarrow> xs = ys"
  by (induction xs ys rule: list_induct2) (auto simp: xor_zero_iff)

lemma length_xor_bytes: "length xs = length ys \<Longrightarrow> length (xor_bytes xs ys) = length ys"
  by (induction xs ys rule: list_induct2) auto

lemma crc_chunk_window:
  assumes "length xs = length ys" and "length ys \<le> 4"
  shows "foldl crc_byte s xs = foldl crc_byte s ys \<longleftrightarrow> xs = ys"
proof -
  have "foldl crc_byte s xs = foldl crc_byte s ys \<longleftrightarrow> pack_bytes xs = pack_bytes ys"
    using assms by (simp add: crc_chunk_pack crc_bits_inj xor_cancel_left)
  also have "\<dots> \<longleftrightarrow> pack_bytes (xor_bytes xs ys) = 0"
    using pack_xor [OF assms(1)] xor_zero_iff [of "pack_bytes xs" "pack_bytes ys"] by simp
  also have "\<dots> \<longleftrightarrow> xs = ys"
    using assms by (simp add: pack_bytes_zero length_xor_bytes xor_bytes_zero)
  finally show ?thesis .
qed

section \<open>Properties\<close>

text \<open>C35: the checksum never misses a burst of errors: changing any window of up to four
  consecutive bytes of a file, and nothing else, always changes its CRC-32.\<close>

theorem crc32_detects_bursts:
  assumes "length xs = length ys" and "length ys \<le> 4"
  shows "crc32_buf (p @ xs @ q) = crc32_buf (p @ ys @ q) \<longleftrightarrow> xs = ys"
  using crc_chunk_window [OF assms]
  by (simp add: crc32_buf_def not_word_inject client_crc.fold_state)

theorem crc32_detects_bursts_witness:
  "crc32_buf ([1] @ [2, 3, 4, 5] @ [6]) \<noteq> crc32_buf ([1] @ [5, 4, 3, 2] @ [6])"
  using crc32_detects_bursts [of "[2, 3, 4, 5]" "[5, 4, 3, 2]" "[1]" "[6]"] by simp

text \<open>The checksum the server accumulates chunk by chunk while it reads a file is the
  one the client's one-shot routine computes of the whole file, whatever the chunks, and
  both are the CRC-32 of IEEE 802.3 (its published check value).\<close>

theorem crc32_streaming:
  "NOT (foldl crc_chunk 0xFFFFFFFF chunks) = crc32_buf (concat chunks) \<and>
   pull_crc32 buf = crc32_buf buf \<and>
   crc32_buf (bytes ''123456789'') = 0xCBF43926"
proof (intro conjI)
  show "NOT (foldl crc_chunk 0xFFFFFFFF chunks) = crc32_buf (concat chunks)"
    using client_crc.digest_chunks [of chunks] by (simp add: crc_chunk_def [abs_def])
  show "pull_crc32 buf = crc32_buf buf"
    by (simp add: pull_crc32_def crc32_buf_def)
  show "crc32_buf (bytes ''123456789'') = 0xCBF43926"
    by (simp add: crc32_buf_def bytes_def byte_of_def crc_byte_eval crc_bit_def CRC_POLY_def)
qed

end
