(* ===== verification/Job_Queue.thy ===== *)
theory Job_Queue
  imports Prelude
begin

text \<open>
  The job queue between the acceptor and the workers of \<^verbatim>\<open>server/server.c\<close>
  (\<open>enqueue_job\<close>, \<open>dequeue_job\<close>): a ring of 100 sockets with a head, a tail and a count.
  \<open>dequeue_job\<close> waits on the condition variable while the count is 0, so a call that would
  wait is \<open>None\<close>. The mutex makes each operation one step.

  The locale \<open>bounded_fifo\<close> is what the server's loops rely on; the ring provides it as long
  as it never holds more than 100 jobs, which nothing in the code enforces.
\<close>

section \<open>The ring\<close>

definition MAX_QUEUE :: nat where
  "MAX_QUEUE = 100"

record ring =
  job_queue :: "int list"
  q_head :: nat
  q_tail :: nat
  q_count :: nat

definition queue_init :: ring where
  "queue_init = \<lparr>job_queue = replicate MAX_QUEUE 0, q_head = 0, q_tail = 0, q_count = 0\<rparr>"

definition enqueue_job :: "int \<Rightarrow> ring \<Rightarrow> ring" where
  "enqueue_job sock q =
     q\<lparr>job_queue := (job_queue q)[q_tail q := sock],
       q_tail := (q_tail q + 1) mod MAX_QUEUE,
       q_count := q_count q + 1\<rparr>"

definition dequeue_job :: "ring \<Rightarrow> (int \<times> ring) option" where
  "dequeue_job q =
     (if q_count q = 0 then None
      else Some (job_queue q ! q_head q,
                 q\<lparr>q_head := (q_head q + 1) mod MAX_QUEUE, q_count := q_count q - 1\<rparr>))"

section \<open>The interface of a bounded queue\<close>

datatype 'a queue_op = Enq 'a | Deq

text \<open>An interleaving of acceptor and workers: what the workers took, and the queue left. A worker
  that finds the queue empty waits, which leaves the queue as it is.\<close>

fun run_ops :: "('a \<Rightarrow> 'q \<Rightarrow> 'q) \<Rightarrow> ('q \<Rightarrow> ('a \<times> 'q) option) \<Rightarrow> 'q \<Rightarrow> 'a queue_op list \<Rightarrow> 'a list \<times> 'q" where
  "run_ops enq deq q [] = ([], q)"
| "run_ops enq deq q (Enq x # ops) = run_ops enq deq (enq x q) ops"
| "run_ops enq deq q (Deq # ops) =
     (case deq q of None \<Rightarrow> run_ops enq deq q ops
      | Some (x, q') \<Rightarrow> (let (out, q'') = run_ops enq deq q' ops in (x # out, q'')))"

text \<open>No more than \<open>cap\<close> jobs ever wait, starting with \<open>n\<close>.\<close>

fun fits :: "nat \<Rightarrow> nat \<Rightarrow> 'a queue_op list \<Rightarrow> bool" where
  "fits cap n [] = True"
| "fits cap n (Enq x # ops) = (n < cap \<and> fits cap (Suc n) ops)"
| "fits cap n (Deq # ops) = fits cap (n - 1) ops"

fun entered :: "'a queue_op list \<Rightarrow> 'a list" where
  "entered [] = []"
| "entered (Enq x # ops) = x # entered ops"
| "entered (Deq # ops) = entered ops"

locale bounded_fifo =
  fixes enq :: "'a \<Rightarrow> 'q \<Rightarrow> 'q"
    and deq :: "'q \<Rightarrow> ('a \<times> 'q) option"
    and content :: "'q \<Rightarrow> 'a list"
    and inv :: "'q \<Rightarrow> bool"
    and cap :: nat
  assumes enq_inv: "inv q \<Longrightarrow> length (content q) < cap \<Longrightarrow> inv (enq x q)"
    and enq_content: "inv q \<Longrightarrow> length (content q) < cap \<Longrightarrow> content (enq x q) = content q @ [x]"
    and deq_none: "inv q \<Longrightarrow> deq q = None \<longleftrightarrow> content q = []"
    and deq_some: "inv q \<Longrightarrow> deq q = Some (x, q') \<Longrightarrow> content q = x # content q' \<and> inv q'"
    and inv_cap: "inv q \<Longrightarrow> length (content q) \<le> cap"
begin

text \<open>First in, first out, with nothing lost or duplicated.\<close>

lemma run_fifo:
  "inv q \<Longrightarrow> fits cap (length (content q)) ops \<Longrightarrow>
   fst (run_ops enq deq q ops) @ content (snd (run_ops enq deq q ops)) = content q @ entered ops \<and>
   inv (snd (run_ops enq deq q ops))"
proof (induction ops arbitrary: q)
  case (Cons opn ops)
  show ?case
  proof (cases opn)
    case (Enq x)
    with Cons show ?thesis by (simp add: enq_inv enq_content)
  next
    case op: Deq
    show ?thesis
    proof (cases "deq q")
      case None
      with Cons.prems have "content q = []" by (simp add: deq_none)
      with None Cons op show ?thesis by simp
    next
      case (Some p)
      then obtain x q' where d: "deq q = Some (x, q')" by (cases p) simp
      with Cons.prems have c: "content q = x # content q'" "inv q'" using deq_some by blast+
      with Cons op d show ?thesis
        by (simp add: case_prod_beta Let_def)
    qed
  qed
qed simp

end

section \<open>The ring is a queue of at most 100 jobs\<close>

definition ring_content :: "ring \<Rightarrow> int list" where
  "ring_content q = map (\<lambda>i. job_queue q ! ((q_head q + i) mod MAX_QUEUE)) [0..<q_count q]"

definition ring_inv :: "ring \<Rightarrow> bool" where
  "ring_inv q \<longleftrightarrow> length (job_queue q) = MAX_QUEUE \<and> q_head q < MAX_QUEUE \<and>
     q_tail q = (q_head q + q_count q) mod MAX_QUEUE \<and> q_count q \<le> MAX_QUEUE"

lemma ring_content_length [simp]: "length (ring_content q) = q_count q"
  by (simp add: ring_content_def)

lemma ring_init: "ring_inv queue_init \<and> ring_content queue_init = []"
  by (simp add: ring_inv_def queue_init_def ring_content_def MAX_QUEUE_def)

lemma mod_slot_neq:
  assumes "i < n" and "n < (m :: nat)"
  shows "(h + i) mod m \<noteq> (h + n) mod m"
proof
  assume "(h + i) mod m = (h + n) mod m"
  then have "m dvd (h + n) - (h + i)"
    using assms by (intro mod_eq_dvd_iff_nat [THEN iffD1]) simp_all
  then have "m dvd n - i" by simp
  then show False using assms nat_dvd_not_less [of "n - i" m] by simp
qed

interpretation jobs: bounded_fifo enqueue_job dequeue_job ring_content ring_inv MAX_QUEUE
proof
  fix q q' :: ring and x :: int
  assume inv: "ring_inv q"
  {
    assume room: "length (ring_content q) < MAX_QUEUE"
    then show "ring_inv (enqueue_job x q)"
      using inv by (auto simp: ring_inv_def enqueue_job_def mod_Suc_eq)
    have keep: "(job_queue q)[q_tail q := x] ! ((q_head q + i) mod MAX_QUEUE)
        = job_queue q ! ((q_head q + i) mod MAX_QUEUE)" if "i < q_count q" for i
      using that inv room mod_slot_neq [of i "q_count q" MAX_QUEUE "q_head q"]
      by (simp add: ring_inv_def)
    have "q_tail q < length (job_queue q)" "q_tail q = (q_head q + q_count q) mod MAX_QUEUE"
      using inv by (simp_all add: ring_inv_def MAX_QUEUE_def)
    then show "ring_content (enqueue_job x q) = ring_content q @ [x]"
      using keep by (simp add: ring_content_def enqueue_job_def)
  next
    show "dequeue_job q = None \<longleftrightarrow> ring_content q = []"
      by (simp add: dequeue_job_def ring_content_def)
  next
    assume d: "dequeue_job q = Some (x, q')"
    then have pos: "0 < q_count q" and x: "x = job_queue q ! q_head q"
      and q': "q' = q\<lparr>q_head := (q_head q + 1) mod MAX_QUEUE, q_count := q_count q - 1\<rparr>"
      by (simp_all add: dequeue_job_def split: if_splits)
    obtain n where n: "q_count q = Suc n" using pos gr0_implies_Suc by blast
    have "ring_content q = x # ring_content q'"
      using inv by (simp add: ring_content_def n x q' upt_conv_Cons map_Suc_upt [symmetric]
          comp_def ring_inv_def mod_add_left_eq [of "Suc (q_head q)" MAX_QUEUE, simplified] del: upt_Suc)
    moreover have "ring_inv q'"
      using inv n by (simp add: ring_inv_def q' mod_simps)
    ultimately show "ring_content q = x # ring_content q' \<and> ring_inv q'" by simp
  next
    show "length (ring_content q) \<le> MAX_QUEUE"
      using inv by (simp add: ring_inv_def)
  }
qed

section \<open>Properties\<close>

text \<open>C15: as long as at most 100 jobs ever wait at once, the queue is a faithful FIFO across any
  interleaving of acceptor and workers: what the workers took, followed by what still waits,
  is exactly what was waiting, followed by what was accepted, in that order.\<close>

theorem queue_fifo:
  assumes "ring_inv q" and "fits MAX_QUEUE (q_count q) ops"
  shows "let (taken, q') = run_ops enqueue_job dequeue_job q ops
         in taken @ ring_content q' = ring_content q @ entered ops \<and> q_count q' \<le> MAX_QUEUE"
  using jobs.run_fifo [OF assms(1)] assms(2) jobs.inv_cap
  by (fastforce simp: case_prod_beta)

theorem queue_fifo_witness:
  "let (taken, q') = run_ops enqueue_job dequeue_job queue_init [Enq 7, Enq 8, Deq, Enq 9, Deq]
   in taken @ ring_content q' = [7, 8, 9] \<and> taken = [7, 8]"
proof -
  have "fits MAX_QUEUE 0 [Enq (7::int), Enq 8, Deq, Enq 9, Deq]" by (simp add: MAX_QUEUE_def)
  moreover have "q_count queue_init = 0" by (simp add: queue_init_def)
  moreover have "fst (run_ops enqueue_job dequeue_job queue_init [Enq 7, Enq 8, Deq, Enq 9, Deq]) = [7, 8]"
    by (simp add: queue_init_def enqueue_job_def dequeue_job_def MAX_QUEUE_def)
  ultimately show ?thesis
    using queue_fifo [of queue_init "[Enq 7, Enq 8, Deq, Enq 9, Deq]"] ring_init
    by (simp add: case_prod_beta)
qed

text \<open>\<open>enqueue_job\<close> has no test for a full ring. With 100 jobs waiting, one more overwrites the
  oldest: that socket is in the queue no more, the new one is served first, out of turn, and
  after the 99 jobs between them it is served a second time.\<close>

theorem queue_overflow:
  assumes "ring_inv q" and "q_count q = 100"
  shows "ring_content (enqueue_job sock q) = sock # tl (ring_content q) @ [sock] \<and>
         q_count (enqueue_job sock q) = 101 \<and>
         fst (the (dequeue_job (enqueue_job sock q))) = sock"
proof -
  have len: "length (job_queue q) = 100" and hd: "q_head q < 100" and tl: "q_tail q = q_head q"
    using assms by (simp_all add: ring_inv_def MAX_QUEUE_def)
  have other: "(job_queue q)[q_head q := sock] ! ((q_head q + i) mod 100)
      = job_queue q ! ((q_head q + i) mod 100)" if "0 < i" "i < 100" for i
  proof -
    have "(q_head q + 0) mod 100 \<noteq> (q_head q + i) mod 100"
      using mod_slot_neq [of 0 i 100 "q_head q"] that by blast
    then show ?thesis using hd by simp
  qed
  have split: "[0..<101] = 0 # [1..<100] @ [100::nat]"
    by (simp add: upt_conv_Cons del: upt_Suc)
  have tail: "tl (ring_content q) = map (\<lambda>i. job_queue q ! ((q_head q + i) mod 100)) [1..<100]"
    by (simp add: ring_content_def assms(2) MAX_QUEUE_def map_tl [symmetric])
  have "ring_content (enqueue_job sock q)
      = map (\<lambda>i. (job_queue q)[q_head q := sock] ! ((q_head q + i) mod 100)) [0..<101]"
    by (simp add: ring_content_def enqueue_job_def assms(2) tl MAX_QUEUE_def del: upt_Suc)
  also have "\<dots> = sock # map (\<lambda>i. (job_queue q)[q_head q := sock] ! ((q_head q + i) mod 100)) [1..<100] @ [sock]"
    using hd len by (simp only: split list.map map_append) simp
  also have "map (\<lambda>i. (job_queue q)[q_head q := sock] ! ((q_head q + i) mod 100)) [1..<100]
      = tl (ring_content q)"
    unfolding tail by (rule map_cong) (auto intro: other)
  finally have "ring_content (enqueue_job sock q) = sock # tl (ring_content q) @ [sock]" .
  then show ?thesis
    using hd len by (simp add: enqueue_job_def dequeue_job_def assms(2) tl)
qed

theorem queue_overflow_witness:
  "let q = \<lparr>job_queue = replicate 100 7, q_head = 0, q_tail = 0, q_count = 100\<rparr>
   in ring_content (enqueue_job 9 q) = 9 # replicate 99 7 @ [9]"
proof -
  let ?q = "\<lparr>job_queue = replicate 100 7, q_head = 0, q_tail = 0, q_count = 100\<rparr>"
  have c: "ring_content ?q = replicate 100 7"
    by (rule nth_equalityI) (simp_all add: ring_content_def MAX_QUEUE_def)
  have "ring_inv ?q" by (simp add: ring_inv_def MAX_QUEUE_def)
  then show ?thesis
    using queue_overflow [of ?q 9] by (simp add: c Let_def tl_replicate)
qed

end
