(* ===== verification/Compare.thy ===== *)
theory Compare
  imports Prelude
begin

text \<open>
  How the server decides whether the output of a submission is the expected one:
  \<open>compare_output\<close> of \<^verbatim>\<open>server/server.c\<close>. A file that can be opened is its content; a file
  that cannot is \<open>None\<close>. \<open>fgetc\<close> yields the next byte, \<open>None\<close> standing for \<open>EOF\<close>, which
  \<open>isspace\<close> rejects.
\<close>

section \<open>Reading\<close>

definition fgetc :: "string \<Rightarrow> char option \<times> string" where
  "fgetc f = (case f of [] \<Rightarrow> (None, []) | c # f' \<Rightarrow> (Some c, f'))"

text \<open>\<open>do { c = fgetc (f); } while (isspace (c));\<close>\<close>

function next_visible :: "string \<Rightarrow> char option \<times> string" where
  "next_visible f =
     (case fgetc f of
        (Some c, f') \<Rightarrow> if isspace c then next_visible f' else (Some c, f')
      | (None, f') \<Rightarrow> (None, f'))"
  by pat_completeness auto
termination
  by (relation "measure length") (auto simp: fgetc_def split: list.splits)

declare next_visible.simps [simp del]

lemma next_visible_Nil [simp]: "next_visible [] = (None, [])"
  by (simp add: next_visible.simps [of "[]"] fgetc_def)

lemma next_visible_Cons [simp]:
  "next_visible (c # f) = (if isspace c then next_visible f else (Some c, f))"
  by (simp add: next_visible.simps [of "c # f"] fgetc_def)

lemma next_visible_shorter: "next_visible f = (Some c, f') \<Longrightarrow> length f' < length f"
proof (induction f arbitrary: c f')
  case (Cons a f)
  then show ?case by (cases "isspace a") (auto intro: less_SucI)
qed simp

section \<open>The comparison\<close>

function compare_loop :: "string \<Rightarrow> string \<Rightarrow> int" where
  "compare_loop act exp =
     (let (c_act, act') = next_visible act; (c_exp, exp') = next_visible exp
      in if c_act = None \<and> c_exp = None then 1
         else if c_act \<noteq> c_exp then 0
         else compare_loop act' exp')"
  by pat_completeness auto
termination
  by (relation "measure (\<lambda>(act, exp). length act)")
    (auto dest: next_visible_shorter [OF sym])

declare compare_loop.simps [simp del]

definition compare_output :: "string option \<Rightarrow> string option \<Rightarrow> int" where
  "compare_output actual_file expected_file =
     (case (actual_file, expected_file) of
        (Some act, Some exp) \<Rightarrow> compare_loop act exp
      | _ \<Rightarrow> -1)"

definition visible :: "string \<Rightarrow> string" where
  "visible f = filter (\<lambda>c. \<not> isspace c) f"

lemma next_visible_spec:
  "next_visible f = (case visible f of
     [] \<Rightarrow> (None, []) | c # _ \<Rightarrow> (Some c, tl (dropWhile isspace f)))"
  by (induction f) (auto simp: visible_def split: list.splits)

lemma visible_rest: "visible (tl (dropWhile isspace f)) = tl (visible f)"
  by (induction f) (auto simp: visible_def)

lemma compare_loop_spec: "compare_loop act exp = (if visible act = visible exp then 1 else 0)"
proof (induction act exp rule: compare_loop.induct)
  case (1 act exp)
  show ?case
  proof (cases "visible act")
    case Nil
    then show ?thesis
      by (subst compare_loop.simps) (auto simp: next_visible_spec split: list.splits)
  next
    case act: (Cons a as)
    show ?thesis
    proof (cases "visible exp")
      case Nil
      with act show ?thesis by (subst compare_loop.simps) (simp add: next_visible_spec)
    next
      case exp: (Cons e es)
      have na: "next_visible act = (Some a, tl (dropWhile isspace act))"
        and ne: "next_visible exp = (Some e, tl (dropWhile isspace exp))"
        using act exp by (simp_all add: next_visible_spec)
      show ?thesis
      proof (cases "a = e")
        case False
        with na ne act exp show ?thesis by (subst compare_loop.simps) simp
      next
        case True
        have "compare_loop (tl (dropWhile isspace act)) (tl (dropWhile isspace exp)) = (if as = es then 1 else 0)"
          using 1 [OF na [symmetric] refl ne [symmetric] refl] True act exp by (simp add: visible_rest)
        with na ne act exp True show ?thesis by (subst compare_loop.simps) simp
      qed
    qed
  qed
qed

section \<open>Properties\<close>

text \<open>C38: the comparison always ends and answers by the visible text alone: -1 exactly when one of
  the two files cannot be opened, otherwise 1 if the files agree after every white-space
  character of both is dropped, and 0 if they do not. White space is thus not even a
  separator: \<open>1 2\<close> matches \<open>12\<close>.\<close>

theorem compare_output_by_visible_text:
  "compare_output actual expected =
     (case (actual, expected) of
        (Some a, Some e) \<Rightarrow>
          (if filter (\<lambda>c. \<not> isspace c) a = filter (\<lambda>c. \<not> isspace c) e then 1 else 0)
      | _ \<Rightarrow> -1) \<and>
   compare_output (Some ''1 2'') (Some ''12'') = 1"
  by (simp add: compare_output_def compare_loop_spec visible_def isspace_def split: option.splits)

end
