(* ===== verification/Monitor.thy ===== *)
theory Monitor
  imports Prelude
begin

text \<open>
  The kernel-side monitor, \<^verbatim>\<open>server/monitor.bpf.c\<close>, and what \<^verbatim>\<open>server/server.c\<close> does with
  it: filling its maps before a run and reading its events.

  The two hash maps are partial functions; whether an update succeeds (the maps are bounded
  and the kernel may refuse) and whether the ring buffer has room are decided by the
  environment \<open>kernel\<close>. A hook sees the current task, \<open>task\<close>: its cgroup id and the
  pid/tgid pair of \<open>bpf_get_current_pid_tgid\<close>.
\<close>

section \<open>State\<close>

definition EVENT_SYSCALL_BLOCKED :: u32 where "EVENT_SYSCALL_BLOCKED = 1"
definition EVENT_PROCESS_ENTER :: u32 where "EVENT_PROCESS_ENTER = 2"
definition EVENT_PROCESS_EXIT :: u32 where "EVENT_PROCESS_EXIT = 3"

record pid_key =
  pid :: u32
  cgroup_tag :: u32

record event =
  timestamp_ns :: u64
  ev_pid :: u32
  ev_tgid :: u32
  event_type :: u32
  syscall_nr :: u32
  comm :: string

record monitor =
  tracked_pids :: "pid_key \<Rightarrow> u32 option"
  blocked_syscalls :: "u64 \<Rightarrow> byte option"
  events :: "event list"
  signals :: "(u64 \<times> nat) list"

record task =
  cgroup_id :: u64
  pid_tgid :: u64
  task_comm :: string

record kernel =
  now_ns :: u64
  ring_room :: bool
  map_room :: bool

section \<open>The hooks\<close>

definition emit_event :: "kernel \<Rightarrow> task \<Rightarrow> u32 \<Rightarrow> u32 \<Rightarrow> u32 \<Rightarrow> u64 \<Rightarrow> monitor \<Rightarrow> monitor" where
  "emit_event k t ty p tg nr m =
     (if \<not> ring_room k then m
      else m\<lparr>events := events m @
             [\<lparr>timestamp_ns = now_ns k, ev_pid = p, ev_tgid = tg, event_type = ty,
               syscall_nr = ucast nr, comm = take 15 (task_comm t)\<rparr>]\<rparr>)"

definition cur_pid :: "task \<Rightarrow> u32" where
  "cur_pid t = ucast (pid_tgid t AND 0xFFFFFFFF)"

definition cur_tgid :: "task \<Rightarrow> u32" where
  "cur_tgid t = ucast (drop_bit 32 (pid_tgid t))"

definition cur_tag :: "task \<Rightarrow> u32" where
  "cur_tag t = ucast (cgroup_id t AND 0xFFFFFFFF)"

definition lookup_tracked :: "task \<Rightarrow> monitor \<Rightarrow> u32 option" where
  "lookup_tracked t m = tracked_pids m \<lparr>pid = cur_pid t, cgroup_tag = cur_tag t\<rparr>"

definition handle_sys_enter :: "kernel \<Rightarrow> task \<Rightarrow> u64 \<Rightarrow> monitor \<Rightarrow> monitor" where
  "handle_sys_enter k t nr m =
     (if lookup_tracked t m = None then m
      else if blocked_syscalls m nr = None then m
      else let m' = emit_event k t EVENT_SYSCALL_BLOCKED (cur_pid t) (cur_tgid t) nr m
           in m'\<lparr>signals := signals m' @ [(pid_tgid t, 9)]\<rparr>)"

definition handle_fork :: "kernel \<Rightarrow> task \<Rightarrow> u32 \<Rightarrow> u32 \<Rightarrow> u32 \<Rightarrow> monitor \<Rightarrow> monitor" where
  "handle_fork k t parent_tgid child_pid child_tgid m =
     (let parent_key = \<lparr>pid = parent_tgid, cgroup_tag = cur_tag t\<rparr>;
          child_key = \<lparr>pid = child_pid, cgroup_tag = cur_tag t\<rparr>
      in if tracked_pids m parent_key = None then m
         else let m' = (if map_room k
                        then m\<lparr>tracked_pids := (tracked_pids m)(child_key \<mapsto> parent_tgid)\<rparr>
                        else m)
              in emit_event k t EVENT_PROCESS_ENTER child_pid child_tgid 0 m')"

definition handle_exit :: "kernel \<Rightarrow> task \<Rightarrow> monitor \<Rightarrow> monitor" where
  "handle_exit k t m =
     (let key = \<lparr>pid = cur_pid t, cgroup_tag = cur_tag t\<rparr>
      in if tracked_pids m key = None then m
         else let m' = emit_event k t EVENT_PROCESS_EXIT (cur_pid t) (cur_tgid t) 0 m
              in m'\<lparr>tracked_pids := (tracked_pids m')(key := None)\<rparr>)"

datatype kernel_event =
    SysEnter kernel task u64
  | Fork kernel task u32 u32 u32
  | Exit kernel task

fun monitor_step :: "monitor \<Rightarrow> kernel_event \<Rightarrow> monitor" where
  "monitor_step m (SysEnter k t nr) = handle_sys_enter k t nr m"
| "monitor_step m (Fork k t pt cp ct) = handle_fork k t pt cp ct m"
| "monitor_step m (Exit k t) = handle_exit k t m"

section \<open>What the server puts into the maps\<close>

definition blocked_list :: "u64 list" where
  "blocked_list =
     [57, 58, 56, 435, 322, 41, 42, 43, 44, 45, 46, 47, 48,
      49, 50, 54, 55, 2, 85, 82, 257, 316, 263, 87, 88, 266, 265,
      86, 83, 258, 84, 76, 77, 90, 91, 92, 62, 234, 200, 160, 161,
      125, 158, 101, 175, 176, 313, 304, 237, 238, 279, 272, 308,
      298, 321, 250, 251, 252, 155, 161, 167, 168, 165, 166,
      425, 426, 427]"

definition monitor_loaded :: monitor where
  "monitor_loaded = \<lparr>tracked_pids = \<lambda>_. None, blocked_syscalls = \<lambda>_. None, events = [], signals = []\<rparr>"

fun block_all :: "kernel \<Rightarrow> u64 list \<Rightarrow> monitor \<Rightarrow> monitor" where
  "block_all k [] m = m"
| "block_all k (nr # nrs) m =
     block_all k nrs
       (if map_room k then m\<lparr>blocked_syscalls := (blocked_syscalls m)(nr \<mapsto> 1)\<rparr> else m)"

text \<open>The registration of the process that will run the submission, from the pid the wrapper
  wrote into the report pipe: \<open>Some p\<close> if the read returned a whole, positive pid.\<close>

definition register_inner :: "kernel \<Rightarrow> u32 option \<Rightarrow> monitor \<Rightarrow> monitor" where
  "register_inner k inner_pid m =
     (case inner_pid of
        Some p \<Rightarrow>
          if map_room k
          then m\<lparr>tracked_pids := (tracked_pids m)(\<lparr>pid = p, cgroup_tag = 0\<rparr> \<mapsto> 0)\<rparr>
          else m
      | None \<Rightarrow> m)"

section \<open>What the server prints for an event\<close>

definition sys_name :: "u32 \<Rightarrow> string" where
  "sys_name nr =
     (if nr = 59 then ''execve'' else if nr = 257 then ''openat''
      else if nr = 41 then ''socket'' else if nr = 42 then ''connect'' else ''UNKNOWN'')"

datatype event_log = ThreatDetected int u32 u32 string | Spawned int u32 | Exited int u32

definition sizeof_event :: nat where
  "sizeof_event = 40"

text \<open>A sample of the ring buffer is its size and the event in it.\<close>

definition handle_event :: "int \<Rightarrow> nat \<Rightarrow> event \<Rightarrow> event_log list" where
  "handle_event thread_id data_sz e =
     (if data_sz < sizeof_event then []
      else if event_type e = EVENT_SYSCALL_BLOCKED
        then [ThreatDetected thread_id (ev_pid e) (syscall_nr e) (sys_name (syscall_nr e))]
      else if event_type e = EVENT_PROCESS_ENTER then [Spawned thread_id (ev_pid e)]
      else if event_type e = EVENT_PROCESS_EXIT then [Exited thread_id (ev_pid e)]
      else [])"

text \<open>After the submission has ended the ring buffer is polled until a poll delivers nothing or fails, at most twenty
  times. A poll is what \<open>ring_buffer__poll\<close> returns and the samples it hands to the callback.\<close>

definition poll_log :: "int \<Rightarrow> int \<times> (nat \<times> event) list \<Rightarrow> event_log list" where
  "poll_log thread_id p = concat (map (\<lambda>(data_sz, e). handle_event thread_id data_sz e) (snd p))"

fun drain :: "int \<Rightarrow> (nat \<Rightarrow> int \<times> (nat \<times> event) list) \<Rightarrow> nat \<Rightarrow> nat \<Rightarrow> event_log list" where
  "drain thread_id poll 0 i = []"
| "drain thread_id poll (Suc retries) i =
     poll_log thread_id (poll i)
       @ (if 0 < fst (poll i) \<and> 0 < retries then drain thread_id poll retries (Suc i) else [])"

definition drain_events :: "int \<Rightarrow> (nat \<Rightarrow> int \<times> (nat \<times> event) list) \<Rightarrow> event_log list" where
  "drain_events thread_id poll = drain thread_id poll 20 0"

text \<open>Nothing is lost if one of the first twenty polls is the last one with an event.\<close>

lemma drain_complete:
  "\<forall>j < k. 0 < fst (poll (i + j)) \<Longrightarrow> fst (poll (i + k)) \<le> 0 \<Longrightarrow> k < n \<Longrightarrow>
   drain th poll n i = concat (map (\<lambda>j. poll_log th (poll j)) [i..<Suc (i + k)])"
proof (induction n arbitrary: i k)
  case (Suc n)
  show ?case
  proof (cases k)
    case 0
    then show ?thesis using Suc.prems by simp
  next
    case (Suc m)
    have "\<forall>j < m. 0 < fst (poll (Suc i + j))" using Suc.prems(1) Suc by auto
    then have "drain th poll n (Suc i) = concat (map (\<lambda>j. poll_log th (poll j)) [Suc i..<Suc (i + k)])"
      using Suc.IH [of m "Suc i"] Suc.prems Suc by simp
    moreover have "0 < fst (poll i)" "0 < n" using Suc.prems Suc by force+
    moreover have "[i..<Suc (i + k)] = i # [Suc i..<Suc (i + k)]" by (simp add: upt_rec)
    ultimately show ?thesis by simp
  qed
qed simp

lemmas hook_defs = handle_sys_enter_def handle_fork_def handle_exit_def emit_event_def
  lookup_tracked_def Let_def

section \<open>The processes of a submission\<close>

text \<open>
  The tree of processes a registered one starts, told from the trace alone: the root is in
  it, a process forked by a member is in it, and a member leaves it when it exits. The
  trace concerns one cgroup and processes of one thread (a task whose pid is its tgid).
\<close>

inductive descendant :: "u32 \<Rightarrow> kernel_event list \<Rightarrow> u32 \<Rightarrow> bool" for root where
  desc_root: "descendant root [] root"
| desc_fork: "descendant root es p \<Longrightarrow> descendant root (es @ [Fork k t p c ct]) c"
| desc_sys: "descendant root es p \<Longrightarrow> descendant root (es @ [SysEnter k t nr]) p"
| desc_keep: "descendant root es p \<Longrightarrow> descendant root (es @ [Fork k t q c ct]) p"
| desc_exit: "descendant root es p \<Longrightarrow> cur_pid t \<noteq> p \<Longrightarrow> descendant root (es @ [Exit k t]) p"

inductive_cases desc_nilE: "descendant root [] p"

inductive_simps descendant_nil: "descendant root [] p"

lemma descendant_fork:
  "descendant root (es @ [Fork k t q c ct]) p \<longleftrightarrow>
   descendant root es p \<or> c = p \<and> descendant root es q"
  by (subst descendant.simps) (auto intro: descendant.intros)

lemma descendant_sys: "descendant root (es @ [SysEnter k t nr]) p \<longleftrightarrow> descendant root es p"
  by (subst descendant.simps) auto

lemma descendant_exit:
  "descendant root (es @ [Exit k t]) p \<longleftrightarrow> descendant root es p \<and> cur_pid t \<noteq> p"
  by (subst descendant.simps) auto

lemmas descendant_steps = descendant_nil descendant_fork descendant_sys descendant_exit

fun in_cgroup :: "u32 \<Rightarrow> kernel_event \<Rightarrow> bool" where
  "in_cgroup g (SysEnter k t nr) \<longleftrightarrow> cur_tag t = g"
| "in_cgroup g (Fork k t pt cp ct) \<longleftrightarrow> cur_tag t = g \<and> map_room k"
| "in_cgroup g (Exit k t) \<longleftrightarrow> cur_tag t = g"

definition tracked_in :: "u32 \<Rightarrow> monitor \<Rightarrow> u32 \<Rightarrow> bool" where
  "tracked_in g m p \<longleftrightarrow> tracked_pids m \<lparr>pid = p, cgroup_tag = g\<rparr> \<noteq> None"

lemma tracked_step:
  assumes "in_cgroup g e"
  shows "tracked_in g (monitor_step m e) p \<longleftrightarrow>
    (case e of
       SysEnter k t nr \<Rightarrow> tracked_in g m p
     | Fork k t q c ct \<Rightarrow> tracked_in g m p \<or> c = p \<and> tracked_in g m q
     | Exit k t \<Rightarrow> tracked_in g m p \<and> cur_pid t \<noteq> p)"
  using assms by (cases e) (auto simp: hook_defs tracked_in_def)

lemma blocked_step [simp]: "blocked_syscalls (monitor_step m e) = blocked_syscalls m"
  by (cases e) (auto simp: hook_defs)

lemma blocked_run [simp]: "blocked_syscalls (foldl monitor_step m es) = blocked_syscalls m"
  by (induction es arbitrary: m) simp_all

lemma tracked_run:
  assumes "\<forall>e \<in> set es. in_cgroup g e" and "\<And>p. tracked_in g m p \<longleftrightarrow> p = root"
  shows "tracked_in g (foldl monitor_step m es) p \<longleftrightarrow> descendant root es p"
  using assms(1)
proof (induction es arbitrary: p rule: rev_induct)
  case Nil
  then show ?case using assms(2) by (auto simp: descendant_steps)
next
  case (snoc e es)
  then show ?case
    by (cases e) (auto simp: tracked_step descendant_steps simp del: monitor_step.simps)
qed

text \<open>What the monitor should have signalled after a trace.\<close>

definition offender :: "u32 \<Rightarrow> (u64 \<Rightarrow> bool) \<Rightarrow> kernel_event list \<Rightarrow> kernel_event \<Rightarrow> (u64 \<times> nat) list" where
  "offender root banned before e =
     (case e of
        SysEnter k t nr \<Rightarrow> if banned nr \<and> descendant root before (cur_pid t) then [(pid_tgid t, 9)] else []
      | _ \<Rightarrow> [])"

definition offences :: "u32 \<Rightarrow> (u64 \<Rightarrow> bool) \<Rightarrow> kernel_event list \<Rightarrow> (u64 \<times> nat) list" where
  "offences root banned es = concat (map (\<lambda>i. offender root banned (take i es) (es ! i)) [0..<length es])"

lemma signals_step:
  "signals (monitor_step m e) = signals m @
     (case e of SysEnter k t nr \<Rightarrow>
        if tracked_in (cur_tag t) m (cur_pid t) \<and> blocked_syscalls m nr \<noteq> None then [(pid_tgid t, 9)] else []
      | _ \<Rightarrow> [])"
  by (cases e) (auto simp: hook_defs tracked_in_def)

lemma offences_nil: "offences root banned [] = []"
  by (simp add: offences_def)

lemma offences_snoc:
  "offences root banned (es @ [e]) = offences root banned es @ offender root banned es e"
proof -
  have "concat (map (\<lambda>i. offender root banned (take i (es @ [e])) ((es @ [e]) ! i)) [0..<length es])
      = concat (map (\<lambda>i. offender root banned (take i es) (es ! i)) [0..<length es])"
    by (rule arg_cong [of _ _ concat], rule map_cong) (simp_all add: nth_append)
  moreover have "take (length es) (es @ [e]) = es" by simp
  ultimately show ?thesis by (simp add: offences_def del: take_append)
qed

section \<open>Properties\<close>

text \<open>C7: with the process of a submission registered under the tag of the cgroup it runs in, the
  monitor kills exactly what it should: over any trace of its cgroup (in which the map takes
  every new child), a \<open>SIGKILL\<close> is sent at a system call if and only if the call is on the
  blocked list and the caller is, at that moment, a live descendant of the registered process.\<close>

theorem monitor_kills_descendants:
  assumes "\<forall>e \<in> set es. in_cgroup g e"
    and "tracked_pids m = [\<lparr>pid = root, cgroup_tag = g\<rparr> \<mapsto> 0]" and "signals m = []"
  shows "signals (foldl monitor_step m es) = offences root (\<lambda>nr. blocked_syscalls m nr \<noteq> None) es"
  using assms(1)
proof (induction es rule: rev_induct)
  case Nil
  show ?case using assms(3) by (simp add: offences_def)
next
  case (snoc e es)
  have tr: "tracked_in g m p \<longleftrightarrow> p = root" for p
    using assms(2) by (simp add: tracked_in_def)
  have "tracked_in g (foldl monitor_step m es) p \<longleftrightarrow> descendant root es p" for p
    using snoc.prems by (intro tracked_run tr) simp
  with snoc show ?case
    by (cases e) (auto simp: signals_step offences_snoc offender_def simp del: monitor_step.simps)
qed

theorem monitor_kills_descendants_witness:
  "let k = \<lparr>now_ns = 0, ring_room = True, map_room = True\<rparr>;
       t = (\<lambda>p. \<lparr>cgroup_id = 77, pid_tgid = p, task_comm = ''test.out''\<rparr>);
       m = monitor_loaded\<lparr>tracked_pids := [\<lparr>pid = 5, cgroup_tag = 77\<rparr> \<mapsto> 0],
                          blocked_syscalls := [41 \<mapsto> 1]\<rparr>
   in signals (foldl monitor_step m
        [SysEnter k (t 5) 1, Fork k (t 5) 5 6 6, Exit k (t 5), SysEnter k (t 6) 41, SysEnter k (t 5) 41])
      = [(6, 9)]"
proof -
  define k where "k = \<lparr>now_ns = 0, ring_room = True, map_room = True\<rparr>"
  define t where "t = (\<lambda>p. \<lparr>cgroup_id = 77, pid_tgid = p, task_comm = ''test.out''\<rparr>)"
  define m where "m = monitor_loaded\<lparr>tracked_pids := [\<lparr>pid = 5, cgroup_tag = 77\<rparr> \<mapsto> 0],
                          blocked_syscalls := [41 \<mapsto> 1]\<rparr>"
  let ?b = "\<lambda>nr. blocked_syscalls m nr \<noteq> None"
  let ?es = "[SysEnter k (t 5) 1, Fork k (t 5) 5 6 6, Exit k (t 5), SysEnter k (t 6) 41, SysEnter k (t 5) 41]"
  have tag: "cur_tag (t p) = 77" for p by (simp add: t_def cur_tag_def)
  have pid: "cur_pid (t 5) = 5" "cur_pid (t 6) = 6" by (simp_all add: t_def cur_pid_def)
  have d: "descendant 5 [] p \<longleftrightarrow> p = 5" for p by (auto simp: descendant_nil)
  have id: "pid_tgid (t 6) = 6" by (simp add: t_def)
  have b: "blocked_syscalls m nr \<noteq> None \<longleftrightarrow> nr = 41" for nr by (simp add: m_def)
  have steps: "descendant 5 [SysEnter k (t 5) 1] p \<longleftrightarrow> p = 5"
    "descendant 5 [SysEnter k (t 5) 1, Fork k (t 5) 5 6 6] p \<longleftrightarrow> p = 5 \<or> p = 6"
    "descendant 5 [SysEnter k (t 5) 1, Fork k (t 5) 5 6 6, Exit k (t 5)] p \<longleftrightarrow> p = 6"
    "descendant 5 [SysEnter k (t 5) 1, Fork k (t 5) 5 6 6, Exit k (t 5), SysEnter k (t 6) 41] p \<longleftrightarrow> p = 6" for p
    using descendant_sys [of 5 "[]"] descendant_fork [of 5 "[SysEnter k (t 5) 1]"]
      descendant_exit [of 5 "[SysEnter k (t 5) 1, Fork k (t 5) 5 6 6]"]
      descendant_sys [of 5 "[SysEnter k (t 5) 1, Fork k (t 5) 5 6 6, Exit k (t 5)]"]
    by (auto simp: d pid)
  have "signals (foldl monitor_step m ?es) = offences 5 (\<lambda>nr. blocked_syscalls m nr \<noteq> None) ?es"
    by (rule monitor_kills_descendants [where g = 77]) (simp_all add: tag k_def m_def monitor_loaded_def)
  also have "\<dots> = [(6, 9)]"
    using offences_snoc [of 5 ?b "[]" "SysEnter k (t 5) 1"]
      offences_snoc [of 5 ?b "[SysEnter k (t 5) 1]" "Fork k (t 5) 5 6 6"]
      offences_snoc [of 5 ?b "[SysEnter k (t 5) 1, Fork k (t 5) 5 6 6]" "Exit k (t 5)"]
      offences_snoc [of 5 ?b "[SysEnter k (t 5) 1, Fork k (t 5) 5 6 6, Exit k (t 5)]" "SysEnter k (t 6) 41"]
      offences_snoc [of 5 ?b "[SysEnter k (t 5) 1, Fork k (t 5) 5 6 6, Exit k (t 5), SysEnter k (t 6) 41]"
        "SysEnter k (t 5) 41"]
    unfolding b by (simp add: offences_nil offender_def steps d pid id)
  finally show ?thesis unfolding Let_def k_def t_def m_def .
qed

text \<open>What no event of a foreign cgroup changes: the server registers under tag 0 only.\<close>

definition only_tag_0 :: "monitor \<Rightarrow> bool" where
  "only_tag_0 m \<longleftrightarrow>
     (\<forall>key. tracked_pids m key \<noteq> None \<longrightarrow> cgroup_tag key = 0) \<and> events m = [] \<and> signals m = []"

fun task_of :: "kernel_event \<Rightarrow> task" where
  "task_of (SysEnter k t nr) = t"
| "task_of (Fork k t pt cp ct) = t"
| "task_of (Exit k t) = t"

interpretation zero_tag: invariant_machine monitor_step only_tag_0 "\<lambda>e. cur_tag (task_of e) \<noteq> 0"
proof
  fix m e
  assume "only_tag_0 m" and "cur_tag (task_of e) \<noteq> 0"
  then have "tracked_pids m \<lparr>pid = p, cgroup_tag = cur_tag (task_of e)\<rparr> = None" for p
    by (auto simp: only_tag_0_def)
  with \<open>only_tag_0 m\<close> show "only_tag_0 (monitor_step m e)"
    by (cases e) (simp_all add: hook_defs)
qed

lemma block_all_frame [simp]:
  "tracked_pids (block_all k nrs m) = tracked_pids m"
  "events (block_all k nrs m) = events m" "signals (block_all k nrs m) = signals m"
  by (induction nrs arbitrary: m) simp_all

lemma block_all_blocks:
  "map_room k \<Longrightarrow> blocked_syscalls (block_all k nrs m) nr = (if nr \<in> set nrs then Some 1 else blocked_syscalls m nr)"
  by (induction nrs arbitrary: m) simp_all

lemma registered_only_tag_0: "only_tag_0 (register_inner k p (block_all k' nrs monitor_loaded))"
  by (auto simp: only_tag_0_def register_inner_def monitor_loaded_def split: option.splits)

text \<open>The server registers the submission's process with cgroup tag 0, while the hooks look
  it up with the low half of its real cgroup id. On every trace whose tasks have a cgroup id
  with a non-zero low half (the ids the kernel gives cgroups start at 1), the monitor therefore
  never kills, never emits an event and never tracks a child, whatever the processes do.\<close>

theorem registration_under_tag_0_is_inert:
  assumes "\<forall>e \<in> set es. cur_tag (task_of e) \<noteq> 0"
  shows "let m = foldl monitor_step (register_inner k inner_pid (block_all k' blocked_list monitor_loaded)) es
         in signals m = [] \<and> events m = [] \<and> (\<forall>key. tracked_pids m key \<noteq> None \<longrightarrow> cgroup_tag key = 0)"
  using zero_tag.run_keeps [OF registered_only_tag_0 assms]
  by (simp add: only_tag_0_def Let_def)

theorem registration_under_tag_0_is_inert_witness:
  "let k = \<lparr>now_ns = 0, ring_room = True, map_room = True\<rparr>;
       t = \<lparr>cgroup_id = 1, pid_tgid = 4242, task_comm = ''test.out''\<rparr>;
       m = register_inner k (Some 4242) (block_all k blocked_list monitor_loaded)
   in blocked_syscalls m 41 \<noteq> None \<and> tracked_pids m \<lparr>pid = 4242, cgroup_tag = 0\<rparr> \<noteq> None \<and>
      signals (foldl monitor_step m [SysEnter k t 41]) = []"
  using registration_under_tag_0_is_inert
    [of "[SysEnter \<lparr>now_ns = 0, ring_room = True, map_room = True\<rparr>
            \<lparr>cgroup_id = 1, pid_tgid = 4242, task_comm = ''test.out''\<rparr> 41]"
        "\<lparr>now_ns = 0, ring_room = True, map_room = True\<rparr>" "Some 4242"
        "\<lparr>now_ns = 0, ring_room = True, map_room = True\<rparr>"]
  by (simp add: Let_def cur_tag_def register_inner_def block_all_blocks) (simp add: blocked_list_def)

end
