(* ===== verification/Sandbox.thy ===== *)
theory Sandbox
  imports Monitor Protocol
begin

text \<open>
  The sandbox a submission runs in, as \<open>handle_client\<close> of \<^verbatim>\<open>server/server.c\<close> sets it up:
  resource limits, the seccomp list, and the wrapper process that passes on how the program
  ended. What the kernel does at a CPU limit and whether a process dies of a signal it sends
  itself are parameters. System calls carry their x86-64 numbers, the ones the monitor uses.
\<close>

section \<open>Resource limits\<close>

datatype resource = RLIMIT_CPU | RLIMIT_AS | RLIMIT_FSIZE | RLIMIT_NPROC

text \<open>Each limit with its soft and hard value, in the order of the calls.\<close>

definition sandbox_limits :: "nat \<Rightarrow> (resource \<times> nat \<times> nat) list" where
  "sandbox_limits timeout_seconds =
     [(RLIMIT_CPU, timeout_seconds, timeout_seconds),
      (RLIMIT_AS, 64 * 1024 * 1024, 64 * 1024 * 1024),
      (RLIMIT_FSIZE, 1 * 1024 * 1024, 1 * 1024 * 1024),
      (RLIMIT_NPROC, 1, 1)]"

text \<open>\<open>timeout_seconds\<close> starts at 2 and becomes 3 on \<open>SIGUSR1\<close>.\<close>

definition timeout_initial :: nat where
  "timeout_initial = 2"

definition sigusr1_handler :: "nat \<Rightarrow> nat" where
  "sigusr1_handler timeout_seconds = 3"

section \<open>The seccomp list\<close>

datatype syscall =
    Sys_read | Sys_write | Sys_close | Sys_readv | Sys_writev | Sys_fstat | Sys_newfstatat
  | Sys_brk | Sys_mmap | Sys_munmap | Sys_mremap | Sys_mprotect | Sys_clock_gettime
  | Sys_gettimeofday | Sys_time | Sys_arch_prctl | Sys_set_tid_address | Sys_set_robust_list
  | Sys_getpid | Sys_gettid | Sys_futex | Sys_prlimit64 | Sys_uname | Sys_getrandom
  | Sys_rt_sigaction | Sys_rt_sigprocmask | Sys_rt_sigreturn | Sys_exit | Sys_exit_group
  | Sys_execve | Sys_pread64 | Sys_access | Sys_rseq | Sys_sysinfo | Sys_lseek | Sys_readlink
  | Sys_readlinkat | Sys_ioctl | Sys_stat | Sys_lstat

fun SCMP_SYS :: "syscall \<Rightarrow> u64" where
  "SCMP_SYS Sys_read = 0" | "SCMP_SYS Sys_write = 1" | "SCMP_SYS Sys_close = 3"
| "SCMP_SYS Sys_readv = 19" | "SCMP_SYS Sys_writev = 20" | "SCMP_SYS Sys_fstat = 5"
| "SCMP_SYS Sys_newfstatat = 262" | "SCMP_SYS Sys_brk = 12" | "SCMP_SYS Sys_mmap = 9"
| "SCMP_SYS Sys_munmap = 11" | "SCMP_SYS Sys_mremap = 25" | "SCMP_SYS Sys_mprotect = 10"
| "SCMP_SYS Sys_clock_gettime = 228" | "SCMP_SYS Sys_gettimeofday = 96" | "SCMP_SYS Sys_time = 201"
| "SCMP_SYS Sys_arch_prctl = 158" | "SCMP_SYS Sys_set_tid_address = 218"
| "SCMP_SYS Sys_set_robust_list = 273" | "SCMP_SYS Sys_getpid = 39" | "SCMP_SYS Sys_gettid = 186"
| "SCMP_SYS Sys_futex = 202" | "SCMP_SYS Sys_prlimit64 = 302" | "SCMP_SYS Sys_uname = 63"
| "SCMP_SYS Sys_getrandom = 318" | "SCMP_SYS Sys_rt_sigaction = 13"
| "SCMP_SYS Sys_rt_sigprocmask = 14" | "SCMP_SYS Sys_rt_sigreturn = 15" | "SCMP_SYS Sys_exit = 60"
| "SCMP_SYS Sys_exit_group = 231" | "SCMP_SYS Sys_execve = 59" | "SCMP_SYS Sys_pread64 = 17"
| "SCMP_SYS Sys_access = 21" | "SCMP_SYS Sys_rseq = 334" | "SCMP_SYS Sys_sysinfo = 99"
| "SCMP_SYS Sys_lseek = 8" | "SCMP_SYS Sys_readlink = 89" | "SCMP_SYS Sys_readlinkat = 267"
| "SCMP_SYS Sys_ioctl = 16" | "SCMP_SYS Sys_stat = 4" | "SCMP_SYS Sys_lstat = 6"

definition seccomp_allowed :: "syscall list" where
  "seccomp_allowed =
     [Sys_read, Sys_write, Sys_close, Sys_readv, Sys_writev, Sys_fstat, Sys_newfstatat,
      Sys_brk, Sys_mmap, Sys_munmap, Sys_mremap, Sys_mprotect, Sys_clock_gettime,
      Sys_gettimeofday, Sys_time, Sys_arch_prctl, Sys_set_tid_address, Sys_set_robust_list,
      Sys_getpid, Sys_gettid, Sys_futex, Sys_prlimit64, Sys_uname, Sys_getrandom,
      Sys_rt_sigaction, Sys_rt_sigprocmask, Sys_rt_sigreturn, Sys_exit, Sys_exit_group,
      Sys_execve, Sys_pread64, Sys_access, Sys_rseq, Sys_sysinfo, Sys_lseek, Sys_readlink,
      Sys_readlinkat, Sys_ioctl, Sys_stat, Sys_lstat]"

datatype seccomp_action = SCMP_ACT_ALLOW | SCMP_ACT_ERRNO nat

definition seccomp_verdict :: "u64 \<Rightarrow> seccomp_action" where
  "seccomp_verdict nr =
     (if nr \<in> set (map SCMP_SYS seccomp_allowed) then SCMP_ACT_ALLOW else SCMP_ACT_ERRNO 1)"

section \<open>How a program ends, and how the wrapper reports it\<close>

datatype wait_status = WExited nat | WSignaled nat

definition SIGKILL :: nat where "SIGKILL = 9"
definition SIGALRM :: nat where "SIGALRM = 14"
definition SIGXCPU :: nat where "SIGXCPU = 24"
definition SIGSYS :: nat where "SIGSYS = 31"

lemmas signal_numbers = SIGKILL_def SIGALRM_def SIGXCPU_def SIGSYS_def

text \<open>\<open>self_kill s\<close>: a process that sends itself signal \<open>s\<close> dies of it within the second.\<close>

definition wrapper_exit :: "(nat \<Rightarrow> bool) \<Rightarrow> wait_status \<Rightarrow> wait_status" where
  "wrapper_exit self_kill st =
     (case st of
        WSignaled s \<Rightarrow> if self_kill s then WSignaled s else WExited ((128 + s) mod 256)
      | WExited c \<Rightarrow> WExited (c mod 256))"

section \<open>Properties\<close>

lemma seccomp_numbers:
  "set (map SCMP_SYS seccomp_allowed) =
     {0, 1, 3, 19, 20, 5, 262, 12, 9, 11, 25, 10, 228, 96, 201, 158, 218, 273, 39, 186, 202, 302, 63,
      318, 13, 14, 15, 60, 231, 59, 17, 21, 334, 99, 8, 89, 267, 16, 4, 6}"
  by (simp add: seccomp_allowed_def)

text \<open>The two filters contradict each other in exactly one call: \<open>arch_prctl\<close> (158), which
  the C library of a statically linked program issues when it starts. seccomp lets it
  through, and the monitor kills a tracked process for it, so a monitor that did track the
  submission would kill every program before \<open>main\<close>; nothing else that seccomp allows is on
  the monitor's list.\<close>

theorem filters_disagree_on_arch_prctl:
  "set blocked_list \<inter> {nr. seccomp_verdict nr = SCMP_ACT_ALLOW} = {158} \<and>
   (map_room kn \<longrightarrow>
    signals (handle_sys_enter k \<lparr>cgroup_id = ucast g, pid_tgid = ucast (p :: u32), task_comm = c\<rparr> 158
       ((block_all kn blocked_list monitor_loaded)\<lparr>tracked_pids := [\<lparr>pid = p, cgroup_tag = (g :: u32)\<rparr> \<mapsto> 0]\<rparr>))
     = [(ucast p, 9)])"
proof
  have "seccomp_verdict nr = SCMP_ACT_ALLOW \<longleftrightarrow> nr \<in> set (map SCMP_SYS seccomp_allowed)" for nr
    by (simp add: seccomp_verdict_def)
  then show "set blocked_list \<inter> {nr. seccomp_verdict nr = SCMP_ACT_ALLOW} = {158}"
    unfolding seccomp_numbers blocked_list_def by auto
next
  have low: "ucast (ucast w AND 0xFFFFFFFF :: u64) = w" for w :: u32
  proof -
    have "(0xFFFFFFFF :: u64) = mask 32" by (simp add: mask_eq_exp_minus_1)
    moreover have "ucast (ucast w AND mask 32 :: u64) = w"
      by (rule bit_word_eqI) (auto simp: bit_simps)
    ultimately show ?thesis by (simp only:)
  qed
  have "158 \<in> set blocked_list" by (simp add: blocked_list_def)
  then show "map_room kn \<longrightarrow>
    signals (handle_sys_enter k \<lparr>cgroup_id = ucast g, pid_tgid = ucast p, task_comm = c\<rparr> 158
       ((block_all kn blocked_list monitor_loaded)\<lparr>tracked_pids := [\<lparr>pid = p, cgroup_tag = g\<rparr> \<mapsto> 0]\<rparr>))
     = [(ucast p, 9)]"
    by (simp add: hook_defs cur_pid_def cur_tag_def low block_all_blocks monitor_loaded_def)
qed

theorem filters_disagree_on_arch_prctl_witness:
  "let k = \<lparr>now_ns = 0, ring_room = True, map_room = True\<rparr> in
   signals (handle_sys_enter k \<lparr>cgroup_id = 7, pid_tgid = 5, task_comm = ''test.out''\<rparr> 158
       ((block_all k blocked_list monitor_loaded)\<lparr>tracked_pids := [\<lparr>pid = 5, cgroup_tag = 7\<rparr> \<mapsto> 0]\<rparr>))
     = [(5, 9)]"
  using filters_disagree_on_arch_prctl [of "\<lparr>now_ns = 0, ring_room = True, map_room = True\<rparr>"
      "\<lparr>now_ns = 0, ring_room = True, map_room = True\<rparr>" 7 5 "''test.out''"]
  by (simp add: Let_def)

end
