(* ===== verification/Launch.thy ===== *)
theory Launch
  imports Sandbox
begin

text \<open>
  The processes behind one submission (\<open>handle_client\<close> of \<^verbatim>\<open>server/server.c\<close>), as step relations: the
  worker and the compiler with the pipe between them, and the launch of the compiled program with
  the wrapper process, the program's process and two pipes. Which process holds an end of a pipe
  follows from where it is. A pipe blocks its reader while it is empty and has a writer, and its
  writer while it is full; a write without a reader is \<open>SIGPIPE\<close>, which the server does not catch.
  Copies of the ends that children of the other workers inherit are left out.
  The locale \<open>finite_runs\<close> of \<open>Prelude\<close> is the argument that runs end.
\<close>

section \<open>The compiler and its pipe\<close>

text \<open>What gcc has still to write to its output and error stream, what is in the pipe, and how far the
  two processes are. The worker waits for the end of gcc before it reads.\<close>

record compile =
  gcc_left :: nat
  gcc_exited :: bool
  pipe_fill :: nat
  worker_reaped :: bool

definition compile_init :: "nat \<Rightarrow> compile" where
  "compile_init output = \<lparr>gcc_left = output, gcc_exited = False, pipe_fill = 0, worker_reaped = False\<rparr>"

inductive compile_step :: "nat \<Rightarrow> compile \<Rightarrow> compile \<Rightarrow> bool" for capacity where
  gcc_write: "\<not> gcc_exited s \<Longrightarrow> 0 < n \<Longrightarrow> n \<le> gcc_left s \<Longrightarrow> pipe_fill s + n \<le> capacity \<Longrightarrow>
     compile_step capacity s (s\<lparr>gcc_left := gcc_left s - n, pipe_fill := pipe_fill s + n\<rparr>)"
| gcc_exit: "\<not> gcc_exited s \<Longrightarrow> gcc_left s = 0 \<Longrightarrow> compile_step capacity s (s\<lparr>gcc_exited := True\<rparr>)"
| gcc_reap: "gcc_exited s \<Longrightarrow> \<not> worker_reaped s \<Longrightarrow> compile_step capacity s (s\<lparr>worker_reaped := True\<rparr>)"

inductive_cases compile_stepE: "compile_step capacity s t"

definition compile_inv :: "nat \<Rightarrow> nat \<Rightarrow> compile \<Rightarrow> bool" where
  "compile_inv output capacity s \<longleftrightarrow>
     pipe_fill s + gcc_left s = output \<and> pipe_fill s \<le> capacity \<and> (gcc_exited s \<longrightarrow> gcc_left s = 0) \<and>
     (worker_reaped s \<longrightarrow> gcc_exited s)"

definition compile_weight :: "compile \<Rightarrow> nat" where
  "compile_weight s = gcc_left s + (if gcc_exited s then 0 else 1) + (if worker_reaped s then 0 else 1)"

interpretation compiling: finite_runs "compile_step capacity" "compile_inv output capacity" compile_weight
proof
  fix s t
  assume "compile_inv output capacity s" "compile_step capacity s t"
  then show "compile_inv output capacity t" by (auto simp: compile_inv_def elim!: compile_stepE)
next
  fix s t
  assume "compile_inv output capacity s" "compile_step capacity s t"
  then show "compile_weight t < compile_weight s"
    by (auto simp: compile_inv_def compile_weight_def elim!: compile_stepE)
qed

lemma compile_stuck:
  assumes "compile_inv output capacity s" and "\<nexists>t. compile_step capacity s t"
  shows "worker_reaped s \<longleftrightarrow> output \<le> capacity"
proof -
  have w: "gcc_exited s \<or> gcc_left s = 0 \<or> capacity < pipe_fill s + 1"
    using assms(2) compile_step.gcc_write [of s 1 capacity] by fastforce
  have e: "gcc_left s = 0 \<Longrightarrow> gcc_exited s" using assms(2) compile_step.gcc_exit [of s capacity] by auto
  have r: "gcc_exited s \<Longrightarrow> worker_reaped s" using assms(2) compile_step.gcc_reap [of s capacity] by auto
  show ?thesis
  proof (cases "gcc_exited s")
    case True
    with r assms(1) show ?thesis by (simp add: compile_inv_def)
  next
    case False
    then have "gcc_left s \<noteq> 0" using e by blast
    with False w assms(1) show ?thesis by (simp add: compile_inv_def)
  qed
qed

section \<open>The launch of the program\<close>

text \<open>The worker, from the fork on: it closes its copies of the ends it does not use, reads the process id
  from the report pipe (unless there is no monitor), writes the go-ahead, and waits. \<open>ServerKilled\<close> is
  the end of the whole server.\<close>

datatype parent_pc = Forked | AwaitPid | GivesGo | AwaitExit | Reaped wait_status | ServerKilled

datatype wrapper_pc = NoWrapper | WrapStart | Unshared | Reporting | AwaitInner | WrapExit wait_status

datatype inner_pc = NoInner | InnerStart | AwaitGo | Confined | Running | InnerExit wait_status

record launch =
  parent :: parent_pc
  wrapper :: wrapper_pc
  inner :: inner_pc
  report :: "int option"
  go_ahead :: bool
  registered :: bool

text \<open>
  Which calls succeed, and how the program ends (\<open>None\<close>: it does not). The monitor is opened
  (\<^verbatim>\<open>monitor_bpf__open\<close>), then loaded, and the process id is entered in its map
  (\<^verbatim>\<open>bpf_map_update_elem\<close>): the server goes on without a word if the second or the third fails, since
  it only looks at the first. \<open>registered\<close> says whether the id is in the map of a loaded monitor.
\<close>

record launch_env =
  le_monitor :: bool
  le_load :: bool
  le_update :: bool
  le_spawn :: bool
  le_unshare :: bool
  le_fork :: bool
  le_pid :: int
  le_exec :: bool
  le_run :: "wait_status option"
  le_self_kill :: "nat \<Rightarrow> bool"

definition launch_init :: "launch_env \<Rightarrow> launch" where
  "launch_init le =
     \<lparr>parent = Forked, wrapper = (if le_spawn le then WrapStart else NoWrapper), inner = NoInner,
      report = None, go_ahead = False, registered = False\<rparr>"

definition report_written :: "launch \<Rightarrow> bool" where
  "report_written s \<longleftrightarrow> parent s = Forked \<or> wrapper s \<in> {WrapStart, Unshared, Reporting} \<or> inner s = InnerStart"

definition report_read :: "launch \<Rightarrow> bool" where
  "report_read s \<longleftrightarrow> parent s \<in> {Forked, AwaitPid} \<or> wrapper s = WrapStart"

definition go_written :: "launch \<Rightarrow> bool" where
  "go_written s \<longleftrightarrow> parent s \<in> {Forked, AwaitPid, GivesGo} \<or> wrapper s = WrapStart"

definition go_read :: "launch \<Rightarrow> bool" where
  "go_read s \<longleftrightarrow> parent s = Forked \<or> wrapper s \<in> {WrapStart, Unshared, Reporting} \<or> inner s \<in> {InnerStart, AwaitGo}"

definition SIGPIPE :: nat where
  "SIGPIPE = 13"

inductive launch_step :: "launch_env \<Rightarrow> launch \<Rightarrow> launch \<Rightarrow> bool" for le where
  parent_closes: "parent s = Forked \<Longrightarrow> launch_step le s (s\<lparr>parent := AwaitPid\<rparr>)"
| no_monitor: "parent s = AwaitPid \<Longrightarrow> \<not> le_monitor le \<Longrightarrow> launch_step le s (s\<lparr>parent := GivesGo\<rparr>)"
| parent_registers: "parent s = AwaitPid \<Longrightarrow> le_monitor le \<Longrightarrow> report s = Some p \<Longrightarrow>
     launch_step le s (s\<lparr>parent := GivesGo, report := None,
                         registered := 0 < p \<and> le_load le \<and> le_update le\<rparr>)"
| parent_no_pid: "parent s = AwaitPid \<Longrightarrow> le_monitor le \<Longrightarrow> report s = None \<Longrightarrow> \<not> report_written s \<Longrightarrow>
     launch_step le s (s\<lparr>parent := GivesGo\<rparr>)"
| parent_go: "parent s = GivesGo \<Longrightarrow>
     launch_step le s (if go_read s then s\<lparr>parent := AwaitExit, go_ahead := True\<rparr> else s\<lparr>parent := ServerKilled\<rparr>)"
| parent_reaps: "parent s = AwaitExit \<Longrightarrow> wrapper s = WrapExit st \<Longrightarrow>
     launch_step le s (s\<lparr>parent := Reaped st\<rparr>)"
| wrapper_unshare: "wrapper s = WrapStart \<Longrightarrow>
     launch_step le s (s\<lparr>wrapper := (if le_unshare le then Unshared else WrapExit (WExited 1))\<rparr>)"
| wrapper_fork: "wrapper s = Unshared \<Longrightarrow>
     launch_step le s (if le_fork le then s\<lparr>wrapper := Reporting, inner := InnerStart\<rparr>
                       else s\<lparr>wrapper := WrapExit (WExited 1)\<rparr>)"
| wrapper_reports: "wrapper s = Reporting \<Longrightarrow>
     launch_step le s (if report_read s then s\<lparr>wrapper := AwaitInner, report := Some (le_pid le)\<rparr>
                       else s\<lparr>wrapper := WrapExit (WSignaled SIGPIPE)\<rparr>)"
| wrapper_ends: "wrapper s = AwaitInner \<Longrightarrow> inner s = InnerExit st \<Longrightarrow>
     launch_step le s (s\<lparr>wrapper := WrapExit (wrapper_exit (le_self_kill le) st)\<rparr>)"
| inner_closes: "inner s = InnerStart \<Longrightarrow> launch_step le s (s\<lparr>inner := AwaitGo\<rparr>)"
| inner_go: "inner s = AwaitGo \<Longrightarrow> go_ahead s \<or> \<not> go_written s \<Longrightarrow>
     launch_step le s (s\<lparr>inner := Confined, go_ahead := False\<rparr>)"
| inner_exec: "inner s = Confined \<Longrightarrow>
     launch_step le s (s\<lparr>inner := (if le_exec le then Running else InnerExit (WExited 1))\<rparr>)"
| inner_ends: "inner s = Running \<Longrightarrow> le_run le = Some st \<Longrightarrow> launch_step le s (s\<lparr>inner := InnerExit st\<rparr>)"

inductive_cases launch_stepE: "launch_step le s t"

text \<open>Whether the program's process can come to be, and how the wrapper then reports its end.\<close>

definition spawns :: "launch_env \<Rightarrow> bool" where
  "spawns le \<longleftrightarrow> le_spawn le \<and> le_unshare le \<and> le_fork le"

definition program_end :: "launch_env \<Rightarrow> wait_status \<Rightarrow> bool" where
  "program_end le st \<longleftrightarrow> (if le_exec le then le_run le = Some st else st = WExited 1)"

text \<open>Whether the registration takes effect.\<close>

definition registers :: "launch_env \<Rightarrow> bool" where
  "registers le \<longleftrightarrow> le_monitor le \<and> le_load le \<and> le_update le"

text \<open>Where the processes can be relative to one another when there is a monitor.\<close>

definition before_program :: "launch \<Rightarrow> bool" where
  "before_program s \<longleftrightarrow> report s = None \<and> \<not> go_ahead s \<and> \<not> registered s"

definition launch_inv :: "launch_env \<Rightarrow> launch \<Rightarrow> bool" where
  "launch_inv le s \<longleftrightarrow>
     (case wrapper s of
        NoWrapper \<Rightarrow> \<not> spawns le \<and> inner s = NoInner \<and> before_program s \<and>
          parent s \<in> {Forked, AwaitPid, GivesGo, ServerKilled}
      | WrapStart \<Rightarrow> le_spawn le \<and> inner s = NoInner \<and> before_program s \<and> parent s \<in> {Forked, AwaitPid}
      | Unshared \<Rightarrow> le_spawn le \<and> le_unshare le \<and> inner s = NoInner \<and> before_program s \<and> parent s \<in> {Forked, AwaitPid}
      | Reporting \<Rightarrow> spawns le \<and> inner s \<in> {InnerStart, AwaitGo} \<and> before_program s \<and> parent s \<in> {Forked, AwaitPid}
      | AwaitInner \<Rightarrow> spawns le \<and>
          (case parent s of
             Forked \<Rightarrow> report s \<noteq> None \<and> report s = Some (le_pid le) \<and> \<not> go_ahead s \<and> inner s \<in> {InnerStart, AwaitGo}
           | AwaitPid \<Rightarrow> report s = Some (le_pid le) \<and> \<not> go_ahead s \<and> inner s \<in> {InnerStart, AwaitGo}
           | GivesGo \<Rightarrow> (registered s \<longleftrightarrow> registers le) \<and> \<not> go_ahead s \<and> inner s \<in> {InnerStart, AwaitGo}
           | AwaitExit \<Rightarrow> (registered s \<longleftrightarrow> registers le) \<and> inner s \<noteq> NoInner \<and> (go_ahead s \<longleftrightarrow> inner s \<in> {InnerStart, AwaitGo}) \<and>
               (inner s = Running \<longrightarrow> le_exec le) \<and> (\<forall>st. inner s = InnerExit st \<longrightarrow> program_end le st)
           | _ \<Rightarrow> False)
      | WrapExit st \<Rightarrow>
          if inner s = NoInner
          then \<not> spawns le \<and> before_program s \<and> parent s \<in> {Forked, AwaitPid, GivesGo, ServerKilled}
          else spawns le \<and> (registered s \<longleftrightarrow> registers le) \<and> parent s \<in> {AwaitExit, Reaped st} \<and>
            (\<exists>pst. inner s = InnerExit pst \<and> program_end le pst \<and> st = wrapper_exit (le_self_kill le) pst))"

lemmas pipe_ends = report_written_def report_read_def go_written_def go_read_def before_program_def
  spawns_def program_end_def registers_def

lemma launch_inv_init: "launch_inv le (launch_init le)"
  by (simp add: launch_inv_def launch_init_def before_program_def spawns_def)

lemma launch_inv_step:
  assumes "le_monitor le" and "0 < le_pid le" and "launch_inv le s" and "launch_step le s t"
  shows "launch_inv le t"
  using assms(4,1-3)
  by cases (auto simp: launch_inv_def pipe_ends split: wrapper_pc.splits parent_pc.splits if_splits)

text \<open>Without a monitor the report is not waited for; what still holds is the order of the go-ahead.\<close>

definition unmonitored_inv :: "launch \<Rightarrow> bool" where
  "unmonitored_inv s \<longleftrightarrow> \<not> registered s \<and>
     (go_ahead s \<or> inner s \<notin> {NoInner, InnerStart, AwaitGo} \<longrightarrow> parent s \<notin> {Forked, AwaitPid, GivesGo, ServerKilled}) \<and>
     (inner s \<noteq> NoInner \<or> wrapper s \<in> {WrapStart, Unshared, Reporting} \<longrightarrow> parent s \<noteq> ServerKilled) \<and>
     (wrapper s \<in> {WrapStart, Unshared} \<longrightarrow> inner s = NoInner)"

lemma unmonitored_init: "unmonitored_inv (launch_init le)"
  by (simp add: unmonitored_inv_def launch_init_def)

lemma unmonitored_step:
  assumes "\<not> le_monitor le" and "unmonitored_inv s" and "launch_step le s t"
  shows "unmonitored_inv t"
  using assms(3,1,2) by cases (auto simp: unmonitored_inv_def pipe_ends split: if_splits)

lemma unmonitored_run:
  "(launch_step le)\<^sup>*\<^sup>* s t \<Longrightarrow> \<not> le_monitor le \<Longrightarrow> unmonitored_inv s \<Longrightarrow> unmonitored_inv t"
  by (induction rule: rtranclp_induct) (auto intro: unmonitored_step)

text \<open>How far the three processes still have to go.\<close>

fun parent_weight :: "parent_pc \<Rightarrow> nat" where
  "parent_weight Forked = 4"
| "parent_weight AwaitPid = 3"
| "parent_weight GivesGo = 2"
| "parent_weight AwaitExit = 1"
| "parent_weight _ = 0"

fun wrapper_weight :: "wrapper_pc \<Rightarrow> nat" where
  "wrapper_weight WrapStart = 10"
| "wrapper_weight Unshared = 9"
| "wrapper_weight Reporting = 2"
| "wrapper_weight AwaitInner = 1"
| "wrapper_weight _ = 0"

fun inner_weight :: "inner_pc \<Rightarrow> nat" where
  "inner_weight InnerStart = 4"
| "inner_weight AwaitGo = 3"
| "inner_weight Confined = 2"
| "inner_weight Running = 1"
| "inner_weight _ = 0"

definition launch_weight :: "launch \<Rightarrow> nat" where
  "launch_weight s = parent_weight (parent s) + wrapper_weight (wrapper s) + inner_weight (inner s)"

lemma launch_weight_init: "launch_weight (launch_init le) \<le> 14"
  by (simp add: launch_weight_def launch_init_def)

lemma launch_weight_step:
  assumes "launch_inv le s" and "launch_step le s t"
  shows "launch_weight t < launch_weight s"
  using assms(2,1)
  by cases (auto simp: launch_weight_def launch_inv_def split: wrapper_pc.splits if_splits)

interpretation launching: finite_runs "launch_step le" "\<lambda>s. le_monitor le \<and> 0 < le_pid le \<and> launch_inv le s" launch_weight
  by unfold_locales (blast intro: launch_inv_step launch_weight_step)+

lemma launch_stuck:
  assumes "launch_inv le s" and "le_run le = Some st" and "\<nexists>t. launch_step le s t"
  shows "if spawns le then (registered s \<longleftrightarrow> registers le) \<and>
           parent s = Reaped (wrapper_exit (le_self_kill le) (if le_exec le then st else WExited 1))
         else parent s = ServerKilled"
proof -
  note stuck = assms(3)
  have p: "parent s \<noteq> Forked" "parent s \<noteq> GivesGo" "parent s = AwaitExit \<Longrightarrow> wrapper s \<noteq> WrapExit x" for x
    using stuck launch_step.parent_closes [of s le] launch_step.parent_go [of s le] launch_step.parent_reaps [of s x le]
    by auto
  have pid: "parent s = AwaitPid \<Longrightarrow> report s = None \<and> report_written s"
    using stuck launch_step.no_monitor [of s le] launch_step.parent_no_pid [of s le]
      launch_step.parent_registers [of s le "the (report s)"]
    by (cases "report s") auto
  have w: "wrapper s \<noteq> WrapStart" "wrapper s \<noteq> Unshared" "wrapper s \<noteq> Reporting"
    "wrapper s = AwaitInner \<Longrightarrow> inner s \<noteq> InnerExit x" for x
    using stuck launch_step.wrapper_unshare [of s le] launch_step.wrapper_fork [of s le]
      launch_step.wrapper_reports [of s le] launch_step.wrapper_ends [of s x le]
    by auto
  have i: "inner s \<noteq> InnerStart" "inner s = AwaitGo \<Longrightarrow> \<not> go_ahead s" "inner s \<noteq> Confined" "inner s \<noteq> Running"
    using stuck assms(2) launch_step.inner_closes [of s le] launch_step.inner_go [of s le]
      launch_step.inner_exec [of s le] launch_step.inner_ends [of s le st]
    by auto
  show ?thesis
    using assms(1,2) p w i pid
    by (cases "inner s") (auto simp: launch_inv_def pipe_ends split: wrapper_pc.splits parent_pc.splits if_splits)
qed

section \<open>Properties\<close>

text \<open>C11: the worker waits for the compiler before it reads the compiler's output. Every run ends after
  at most two steps more than there are bytes; it ends with the worker past its wait exactly if the
  output fits into the pipe, and no run gets it past the wait otherwise: a submission with more
  diagnostics than that holds its worker for good.\<close>

theorem compiler_output_must_fit_pipe:
  assumes "(compile_step capacity ^^ n) (compile_init output) s"
  shows "n \<le> output + 2 \<and> (worker_reaped s \<longrightarrow> output \<le> capacity) \<and>
         ((\<nexists>t. compile_step capacity s t) \<longrightarrow> (worker_reaped s \<longleftrightarrow> output \<le> capacity))"
proof -
  have init: "compile_inv output capacity (compile_init output)" "compile_weight (compile_init output) = output + 2"
    by (simp_all add: compile_inv_def compile_init_def compile_weight_def)
  have inv: "compile_inv output capacity s" using compiling.run_inv [OF assms init(1)] .
  have "n \<le> output + 2" using compiling.run_bounded [OF assms init(1)] init(2) by simp
  moreover have "worker_reaped s \<longrightarrow> output \<le> capacity" using inv by (auto simp: compile_inv_def)
  ultimately show ?thesis using compile_stuck [OF inv] by blast
qed

theorem compiler_output_must_fit_pipe_witness:
  "\<exists>n s. (compile_step 65536 ^^ n) (compile_init 65537) s \<and> n \<le> 65539 \<and> (\<nexists>t. compile_step 65536 s t) \<and> \<not> worker_reaped s"
proof -
  have "compile_inv 65537 65536 (compile_init 65537)" by (simp add: compile_inv_def compile_init_def)
  then obtain n s where r: "(compile_step 65536 ^^ n) (compile_init 65537) s" "\<nexists>t. compile_step 65536 s t"
    using compiling.run_ends by blast
  then show ?thesis using compiler_output_must_fit_pipe [OF r(1)] by auto
qed

text \<open>C8: order of the launch, with or without a monitor. Whatever the scheduling, the submitted program
  is not confined, executed or ended before the server has done what it does to register the
  process and has given its go-ahead. From then on the process is registered exactly if the
  monitor could be opened and loaded and the entry in its map be made: if any of them fails the
  program runs all the same, unregistered. With a monitor that could be opened the worker waits for
  the program while it runs.\<close>

theorem program_runs_registered:
  assumes "0 < le_pid le" and "(launch_step le)\<^sup>*\<^sup>* (launch_init le) s"
  shows "(inner s = Confined \<or> inner s = Running \<or> (\<exists>st. inner s = InnerExit st) \<longrightarrow>
            (parent s = AwaitExit \<or> (\<exists>st. parent s = Reaped st)) \<and>
            (registered s \<longleftrightarrow> le_monitor le \<and> le_load le \<and> le_update le)) \<and>
         (inner s = Running \<and> le_monitor le \<longrightarrow> parent s = AwaitExit)"
proof (cases "le_monitor le")
  case True
  obtain n where "(launch_step le ^^ n) (launch_init le) s" using assms(2) rtranclp_imp_relpowp by metis
  then have "launch_inv le s" using launching.run_inv launch_inv_init assms(1) True by blast
  then show ?thesis
    by (auto simp: launch_inv_def pipe_ends split: wrapper_pc.splits parent_pc.splits if_splits)
next
  case False
  then have "unmonitored_inv s" using unmonitored_run [OF assms(2)] unmonitored_init by blast
  then show ?thesis using False by (cases "parent s") (auto simp: unmonitored_inv_def)
qed

definition demo_launch :: launch_env where
  "demo_launch =
     \<lparr>le_monitor = True, le_load = True, le_update = True, le_spawn = True, le_unshare = True, le_fork = True, le_pid = 4711, le_exec = True,
      le_run = Some (WSignaled 11), le_self_kill = (\<lambda>_. True)\<rparr>"

lemma demo_launch_runs:
  "\<exists>n s. (launch_step (demo_launch\<lparr>le_unshare := u\<rparr>) ^^ n) (launch_init (demo_launch\<lparr>le_unshare := u\<rparr>)) s \<and>
     (\<nexists>t. launch_step (demo_launch\<lparr>le_unshare := u\<rparr>) s t)"
  by (rule launching.run_ends) (simp add: launch_inv_init demo_launch_def)

text \<open>C9: outcome of the launch, for a program that ends and a monitor that could be opened. Every run
  ends within 14 steps. If the processes could be created, the worker has reaped the program's exit
  status as the wrapper passes it on, and the program was registered exactly if the monitor could
  be loaded and the entry be made. If the name spaces or one of the processes could not be created, every run
  ends with the server killed: its go-ahead is written to a pipe that nobody reads.\<close>

theorem launch_outcome:
  assumes "le_monitor le" and "0 < le_pid le" and "le_run le = Some st"
    and "(launch_step le ^^ n) (launch_init le) s"
  shows "n \<le> 14 \<and> ((\<nexists>t. launch_step le s t) \<longrightarrow>
     (if le_spawn le \<and> le_unshare le \<and> le_fork le
      then (registered s \<longleftrightarrow> le_load le \<and> le_update le) \<and>
           parent s = Reaped (wrapper_exit (le_self_kill le) (if le_exec le then st else WExited 1))
      else parent s = ServerKilled))"
proof -
  have ok: "le_monitor le \<and> 0 < le_pid le \<and> launch_inv le (launch_init le)"
    using assms(1,2) launch_inv_init by blast
  have "launch_inv le s" using launching.run_inv [OF assms(4) ok] by blast
  from launch_stuck [OF this assms(3)] launching.run_bounded [OF assms(4) ok] launch_weight_init [of le]
  show ?thesis using assms(1) by (auto simp: spawns_def registers_def)
qed

theorem launch_outcome_witness:
  "(\<exists>n s. (launch_step demo_launch ^^ n) (launch_init demo_launch) s \<and> n \<le> 14 \<and> registered s \<and>
      parent s = Reaped (WSignaled 11)) \<and>
   (\<exists>n s. (launch_step (demo_launch\<lparr>le_unshare := False\<rparr>) ^^ n) (launch_init (demo_launch\<lparr>le_unshare := False\<rparr>)) s \<and>
      n \<le> 14 \<and> parent s = ServerKilled)"
proof -
  have same: "demo_launch\<lparr>le_unshare := True\<rparr> = demo_launch" by (simp add: demo_launch_def)
  obtain n s where r: "(launch_step demo_launch ^^ n) (launch_init demo_launch) s" "\<nexists>t. launch_step demo_launch s t"
    using demo_launch_runs [of True] unfolding same by blast
  let ?le = "demo_launch\<lparr>le_unshare := False\<rparr>"
  obtain n' s' where r': "(launch_step ?le ^^ n') (launch_init ?le) s'" "\<nexists>t. launch_step ?le s' t"
    using demo_launch_runs [of False] by blast
  show ?thesis
    using launch_outcome [OF _ _ _ r(1), of "WSignaled 11"] r launch_outcome [OF _ _ _ r'(1), of "WSignaled 11"] r'
    by (auto simp: demo_launch_def wrapper_exit_def registers_def)
qed

text \<open>A run to the program's end, whether or not the entry in the map can be made.\<close>

lemma demo_launch_reaches:
  "\<exists>s. (launch_step (demo_launch\<lparr>le_update := u\<rparr>))\<^sup>*\<^sup>* (launch_init (demo_launch\<lparr>le_update := u\<rparr>)) s \<and>
     inner s = InnerExit (WSignaled 11)"
proof -
  let ?le = "demo_launch\<lparr>le_update := u\<rparr>"
  define s0 where "s0 = launch_init ?le"
  define s1 where "s1 = s0\<lparr>parent := AwaitPid\<rparr>"
  define s2 where "s2 = s1\<lparr>wrapper := Unshared\<rparr>"
  define s3 where "s3 = s2\<lparr>wrapper := Reporting, inner := InnerStart\<rparr>"
  define s4 where "s4 = s3\<lparr>wrapper := AwaitInner, report := Some 4711\<rparr>"
  define s5 where "s5 = s4\<lparr>inner := AwaitGo\<rparr>"
  define s6 where "s6 = s5\<lparr>parent := GivesGo, report := None, registered := u\<rparr>"
  define s7 where "s7 = s6\<lparr>parent := AwaitExit, go_ahead := True\<rparr>"
  define s8 where "s8 = s7\<lparr>inner := Confined, go_ahead := False\<rparr>"
  define s9 where "s9 = s8\<lparr>inner := Running\<rparr>"
  define s10 where "s10 = s9\<lparr>inner := InnerExit (WSignaled 11)\<rparr>"
  note defs = s0_def s1_def s2_def s3_def s4_def s5_def s6_def s7_def s8_def s9_def s10_def
    demo_launch_def launch_init_def report_read_def go_read_def
  have "launch_step ?le s0 s1" "launch_step ?le s1 s2" "launch_step ?le s2 s3" "launch_step ?le s3 s4"
    "launch_step ?le s4 s5" "launch_step ?le s5 s6" "launch_step ?le s6 s7" "launch_step ?le s7 s8"
    "launch_step ?le s8 s9" "launch_step ?le s9 s10"
    using launch_step.parent_closes [of s0 ?le] launch_step.wrapper_unshare [of s1 ?le] launch_step.wrapper_fork [of s2 ?le]
      launch_step.wrapper_reports [of s3 ?le] launch_step.inner_closes [of s4 ?le] launch_step.parent_registers [of s5 ?le 4711]
      launch_step.parent_go [of s6 ?le] launch_step.inner_go [of s7 ?le] launch_step.inner_exec [of s8 ?le]
      launch_step.inner_ends [of s9 ?le "WSignaled 11"]
    by (simp_all add: defs)
  then have "(launch_step ?le)\<^sup>*\<^sup>* (launch_init ?le) s10" unfolding s0_def [symmetric] by auto
  moreover have "inner s10 = InnerExit (WSignaled 11)" by (simp add: s10_def)
  ultimately show ?thesis by blast
qed

theorem program_runs_registered_witness:
  "(\<exists>s. (launch_step demo_launch)\<^sup>*\<^sup>* (launch_init demo_launch) s \<and> inner s = InnerExit (WSignaled 11) \<and> registered s) \<and>
   (\<exists>s. (launch_step (demo_launch\<lparr>le_update := False\<rparr>))\<^sup>*\<^sup>* (launch_init (demo_launch\<lparr>le_update := False\<rparr>)) s \<and>
      inner s = InnerExit (WSignaled 11) \<and> \<not> registered s)"
proof -
  have same: "demo_launch\<lparr>le_update := True\<rparr> = demo_launch" by (simp add: demo_launch_def)
  obtain s where s: "(launch_step demo_launch)\<^sup>*\<^sup>* (launch_init demo_launch) s" "inner s = InnerExit (WSignaled 11)"
    using demo_launch_reaches [of True] unfolding same by blast
  obtain t where t: "(launch_step (demo_launch\<lparr>le_update := False\<rparr>))\<^sup>*\<^sup>* (launch_init (demo_launch\<lparr>le_update := False\<rparr>)) t"
    "inner t = InnerExit (WSignaled 11)"
    using demo_launch_reaches [of False] by blast
  show ?thesis
    using program_runs_registered [OF _ s(1)] s program_runs_registered [OF _ t(1)] t
    by (auto simp: demo_launch_def)
qed

end
