(* ===== verification/Socket.thy ===== *)
theory Socket
  imports Prelude
begin

text \<open>
  What the programs see of a connected socket. The receiving side is the bursts of bytes that
  will arrive, in order, and what \<open>recv\<close> returns after the last one (0 when the peer closed,
  -1 on an error). The sending side is an environment that decides how many bytes each \<open>send\<close>
  accepts. The locale \<open>byte_stream\<close> is what the readers rely on: whatever the bursts, the bytes
  come in order, none lost and none repeated.
\<close>

section \<open>Receiving\<close>

record sock =
  rx :: "byte list list"
  rx_reset :: bool

definition pending :: "sock \<Rightarrow> byte list" where
  "pending s = concat (rx s)"

definition rx_end :: "sock \<Rightarrow> int" where
  "rx_end s = (if rx_reset s then -1 else 0)"

text \<open>\<open>recv (fd, buf, n, 0)\<close>: at most \<open>n\<close> bytes of the burst at hand.\<close>

fun recv_burst :: "nat \<Rightarrow> byte list list \<Rightarrow> (byte list \<times> byte list list) option" where
  "recv_burst n [] = None"
| "recv_burst n (b # bs) = (if b = [] then recv_burst n bs else Some (take n b, drop n b # bs))"

definition recv :: "nat \<Rightarrow> sock \<Rightarrow> int \<times> byte list \<times> sock" where
  "recv n s =
     (case recv_burst n (rx s) of
        None \<Rightarrow> (rx_end s, [], s)
      | Some (got, rest) \<Rightarrow> (int (length got), got, s\<lparr>rx := rest\<rparr>))"

text \<open>\<open>recv (fd, buf, n, MSG_WAITALL)\<close>: \<open>n\<close> bytes, fewer only if no more will come.\<close>

fun read_segs :: "nat \<Rightarrow> byte list list \<Rightarrow> byte list \<times> byte list list" where
  "read_segs n [] = ([], [])"
| "read_segs n (b # bs) =
     (if n \<le> length b then (take n b, drop n b # bs)
      else (let (got, rest) = read_segs (n - length b) bs in (b @ got, rest)))"

definition recv_waitall :: "nat \<Rightarrow> sock \<Rightarrow> int \<times> byte list \<times> sock" where
  "recv_waitall n s =
     (let (got, rest) = read_segs n (rx s)
      in (if got = [] then rx_end s else int (length got), got, s\<lparr>rx := rest\<rparr>))"

lemma recv_burst_some:
  "recv_burst n bs = Some (got, rest) \<Longrightarrow>
   concat bs = got @ concat rest \<and> length got \<le> n \<and> (0 < n \<longrightarrow> got \<noteq> [])"
  by (induction bs) (auto split: if_splits)

lemma recv_burst_none: "recv_burst n bs = None \<longleftrightarrow> concat bs = []"
  by (induction bs) auto

lemma read_segs_spec:
  "fst (read_segs n bs) = take n (concat bs) \<and> concat (snd (read_segs n bs)) = drop n (concat bs)"
  by (induction n bs rule: read_segs.induct) (auto simp: case_prod_beta)

lemma recv_waitall_got:
  "fst (snd (recv_waitall n s)) = take n (pending s)"
  "pending (snd (snd (recv_waitall n s))) = drop n (pending s)"
  "rx_reset (snd (snd (recv_waitall n s))) = rx_reset s"
  and recv_waitall_result:
  "fst (recv_waitall n s) = (if take n (pending s) = [] then rx_end s else int (length (take n (pending s))))"
proof -
  obtain g rest where e: "read_segs n (rx s) = (g, rest)" by (cases "read_segs n (rx s)")
  have s: "take n (pending s) = g" "drop n (pending s) = concat rest"
    using read_segs_spec [of n "rx s"] unfolding e pending_def by simp_all
  show "fst (snd (recv_waitall n s)) = take n (pending s)"
    "rx_reset (snd (snd (recv_waitall n s))) = rx_reset s"
    "fst (recv_waitall n s) = (if take n (pending s) = [] then rx_end s else int (length (take n (pending s))))"
    unfolding s(1) recv_waitall_def e by simp_all
  show "pending (snd (snd (recv_waitall n s))) = drop n (pending s)"
    unfolding s(2) recv_waitall_def e by (simp add: pending_def)
qed

section \<open>The interface of a byte stream\<close>

locale byte_stream =
  fixes read_op :: "nat \<Rightarrow> 's \<Rightarrow> int \<times> byte list \<times> 's"
    and left :: "'s \<Rightarrow> byte list"
  assumes read_got: "read_op n s = (r, got, s') \<Longrightarrow> 0 < n \<Longrightarrow>
      left s = got @ left s' \<and> length got \<le> n \<and>
      (if left s = [] then r \<le> 0 \<and> got = [] else r = int (length got) \<and> got \<noteq> [])"
begin

lemma read_progress:
  assumes "read_op n s = (r, got, s')" and "0 < n" and "0 < r"
  shows "left s = got @ left s'" and "r = int (length got)" and "got \<noteq> []" and "length got \<le> n"
    and "length (left s') < length (left s)"
proof -
  have got: "left s = got @ left s'" "length got \<le> n"
    and res: "if left s = [] then r \<le> 0 \<and> got = [] else r = int (length got) \<and> got \<noteq> []"
    using read_got [OF assms(1,2)] by blast+
  show r: "r = int (length got)" "got \<noteq> []"
    using res assms(3) by (cases "left s = []"; simp)+
  show "left s = got @ left s'" "length got \<le> n" by (fact got)+
  show "length (left s') < length (left s)" by (subst got(1)) (use r in simp)
qed

lemma read_some:
  assumes "read_op n s = (r, got, s')" and "0 < n" and "left s \<noteq> []"
  shows "0 < r"
proof -
  have "r = int (length got) \<and> got \<noteq> []"
    using read_got [OF assms(1,2)] assms(3) by presburger
  then show ?thesis by simp
qed

lemma read_stop:
  assumes "read_op n s = (r, got, s')" and "0 < n" and "r \<le> 0"
  shows "left s = []" and "left s' = []" and "got = []"
proof -
  have got: "left s = got @ left s'"
    and res: "if left s = [] then r \<le> 0 \<and> got = [] else r = int (length got) \<and> got \<noteq> []"
    using read_got [OF assms(1,2)] by blast+
  show l: "left s = []" using res assms(3) by (cases "left s = []") simp_all
  with got show "left s' = []" "got = []" by (metis append_is_Nil_conv)+
qed

end

interpretation plain: byte_stream recv pending
proof
  fix s s' :: sock and n r got
  assume r: "recv n s = (r, got, s')" and n: "0 < n"
  show "pending s = got @ pending s' \<and> length got \<le> n \<and>
      (if pending s = [] then r \<le> 0 \<and> got = [] else r = int (length got) \<and> got \<noteq> [])"
  proof (cases "recv_burst n (rx s)")
    case None
    with r show ?thesis by (auto simp: recv_def recv_burst_none pending_def rx_end_def)
  next
    case (Some p)
    then obtain g rest where "recv_burst n (rx s) = Some (g, rest)" by (cases p) simp
    with r n recv_burst_some [OF this] show ?thesis
      by (auto simp: recv_def pending_def)
  qed
qed

interpretation waiting: byte_stream recv_waitall pending
proof
  fix s s' :: sock and n r got
  assume r: "recv_waitall n s = (r, got, s')" and n: "0 < n"
  have got: "got = take n (pending s)" and s': "pending s' = drop n (pending s)"
    and res: "r = (if got = [] then rx_end s else int (length got))"
    using recv_waitall_got [of n s] recv_waitall_result [of n s] r by simp_all
  have "got = [] \<longleftrightarrow> pending s = []" using got n by simp
  then show "pending s = got @ pending s' \<and> length got \<le> n \<and>
      (if pending s = [] then r \<le> 0 \<and> got = [] else r = int (length got) \<and> got \<noteq> [])"
    using s' res got n by (auto simp: rx_end_def)
qed

section \<open>Sending\<close>

text \<open>
  The sending side: what the peer has been sent, and what the next calls of \<open>send\<close> will
  return; a call that is offered \<open>n\<close> bytes accepts at most \<open>n\<close>. When the list of future
  results is used up, a call accepts all it is offered.
\<close>

record link =
  sent :: "byte list"
  tx :: "int list"

definition send :: "byte list \<Rightarrow> link \<Rightarrow> int \<times> link" where
  "send bs l =
     (case tx l of
        [] \<Rightarrow> (int (length bs), l\<lparr>sent := sent l @ bs\<rparr>)
      | r # rs \<Rightarrow>
          if r < 0 then (r, l\<lparr>tx := rs\<rparr>)
          else (min r (int (length bs)), l\<lparr>sent := sent l @ take (nat r) bs, tx := rs\<rparr>))"

text \<open>A \<open>send\<close> without \<open>MSG_NOSIGNAL\<close> to a peer that has closed does not return its \<open>EPIPE\<close>: the process is
  ended by \<open>SIGPIPE\<close> (no program here sets a handler).\<close>

definition EPIPE :: int where
  "EPIPE = 32"

definition sigpipe :: "link \<Rightarrow> link \<Rightarrow> bool" where
  "sigpipe l l' \<longleftrightarrow> tx l' \<noteq> tx l \<and> hd (tx l) = - EPIPE"

lemma send_prefix:
  "send bs l = (r, l') \<Longrightarrow> sent l' = sent l @ take (nat r) bs \<and> r \<le> int (length bs)"
  by (cases "tx l") (auto simp: send_def min_def split: if_splits)

lemma send_tx: "send bs l = (r, l') \<Longrightarrow> tx l' = tl (tx l)"
  by (cases "tx l") (auto simp: send_def split: if_splits)

end
