(* ===== verification/File_Pull.thy ===== *)
theory File_Pull
  imports Server_Ctx Crc Socket "HOL-Library.Sublist"
begin

text \<open>
  The distributing side of the pull mode: \<open>_send_all\<close>, \<open>send_one_file\<close>, \<open>send_pull_error\<close> and
  \<open>handle_file_pull\<close> of \<^verbatim>\<open>server/server.c\<close>. The files are what the system calls show of
  them: whether \<open>stat\<close>, \<open>open\<close> and \<open>fstat\<close> succeed, the size and mode, and the pieces that
  successive \<open>read\<close>s return before 0 or an error. The locale \<open>sender\<close> is what the packet
  writers rely on; \<open>_send_all\<close> provides it.
\<close>

section \<open>Files to distribute\<close>

record dfile =
  f_regular :: bool
  f_opens :: bool
  f_fstat :: bool
  f_size :: nat
  f_exec :: bool
  f_malloc :: bool
  f_reads :: "byte list list"

record dist =
  d_entries :: "string \<Rightarrow> string list option"
  d_file :: "string \<Rightarrow> dfile option"

definition MAX_FILE_SIZE_BYTES :: nat where
  "MAX_FILE_SIZE_BYTES = 100 * 1024 * 1024"

section \<open>Sending\<close>

function send_all :: "byte list \<Rightarrow> link \<Rightarrow> int \<times> link" where
  "send_all bs l =
     (if bs = [] then (0, l)
      else case send bs l of (n, l') \<Rightarrow>
        if n \<le> 0 then (-1, l') else send_all (drop (nat n) bs) l')"
  by pat_completeness auto
termination
  by (relation "measure (\<lambda>(bs, l). length bs)") auto

declare send_all.simps [simp del]

definition file_meta :: "string \<Rightarrow> nat \<Rightarrow> bool \<Rightarrow> byte \<Rightarrow> byte \<Rightarrow> FileMetaHeader" where
  "file_meta filename fsize is_exec index total_n =
     \<lparr>magic = MAGIC_NUMBER, version = PROTO_VERSION, pkt_type = server_pkt RES_FILE_META,
      header_size = of_nat sizeof_FileMetaHeader,
      mh_filename = strncpy (replicate MAX_FILENAME NUL) filename (MAX_FILENAME - 1),
      mh_file_size = of_nat fsize, mh_is_executable = of_bool is_exec,
      mh_file_index = index, mh_total_files = total_n, mh_pad = 0\<rparr>"

definition file_chunk :: "nat \<Rightarrow> u32 \<Rightarrow> FileChunkHeader" where
  "file_chunk nread offset =
     \<lparr>magic = MAGIC_NUMBER, version = PROTO_VERSION, pkt_type = server_pkt RES_FILE_CHUNK,
      header_size = of_nat sizeof_FileChunkHeader,
      kh_chunk_size = of_nat nread, kh_offset = offset\<rparr>"

definition file_end :: "u32 \<Rightarrow> FileEndHeader" where
  "file_end checksum =
     \<lparr>magic = MAGIC_NUMBER, version = PROTO_VERSION, pkt_type = server_pkt RES_FILE_END,
      header_size = of_nat sizeof_FileEndHeader,
      eh_checksum = checksum, eh_total_files = 0, eh_pad = [0, 0, 0]\<rparr>"

definition file_done :: "nat \<Rightarrow> FileEndHeader" where
  "file_done file_count =
     \<lparr>magic = MAGIC_NUMBER, version = PROTO_VERSION, pkt_type = server_pkt RES_FILE_DONE,
      header_size = of_nat sizeof_FileEndHeader,
      eh_checksum = 0, eh_total_files = of_nat file_count, eh_pad = [0, 0, 0]\<rparr>"

definition pull_error :: "string \<Rightarrow> FileErrorHeader" where
  "pull_error text =
     \<lparr>magic = MAGIC_NUMBER, version = PROTO_VERSION, pkt_type = server_pkt RES_FILE_ERROR,
      header_size = of_nat sizeof_FileErrorHeader,
      xh_message = strncpy (replicate 128 NUL) (snprintf 128 text) 128\<rparr>"

definition send_pull_error :: "string \<Rightarrow> link \<Rightarrow> link" where
  "send_pull_error text l = snd (send_all (enc_FileErrorHeader (pull_error text)) l)"

text \<open>The loop over the reads: checksum so far, offset so far.\<close>

fun send_chunks :: "byte list list \<Rightarrow> u32 \<Rightarrow> u32 \<Rightarrow> link \<Rightarrow> bool \<times> u32 \<times> link" where
  "send_chunks [] crc offset l = (True, crc, l)"
| "send_chunks (buf # reads) crc offset l =
     (let crc' = crc_chunk crc buf;
          (r1, l1) = send_all (enc_FileChunkHeader (file_chunk (length buf) offset)) l
      in if r1 < 0 then (False, crc', l1)
         else let (r2, l2) = send_all buf l1
              in if r2 < 0 then (False, crc', l2)
                 else send_chunks reads crc' (offset + of_nat (length buf)) l2)"

definition send_one_file :: "dist \<Rightarrow> string \<Rightarrow> string \<Rightarrow> byte \<Rightarrow> byte \<Rightarrow> link \<Rightarrow> int \<times> link" where
  "send_one_file d file_path filename index total_n l =
     (case d_file d file_path of
        None \<Rightarrow> (-1, l)
      | Some f \<Rightarrow>
          if \<not> f_opens f then (-1, l)
          else if \<not> f_fstat f then (-1, l)
          else if MAX_FILE_SIZE_BYTES < f_size f then (-1, l)
          else let (r, l1) = send_all (enc_FileMetaHeader (file_meta filename (f_size f) (f_exec f) index total_n)) l
               in if r < 0 then (-1, l1)
                  else if \<not> f_malloc f then (-1, l1)
                  else let (ok, crc, l2) = send_chunks (f_reads f) 0xFFFFFFFF 0 l1
                       in if \<not> ok then (-1, l2)
                          else send_all (enc_FileEndHeader (file_end (NOT crc))) l2)"

section \<open>Serving a pull request\<close>

definition msg_no_folder :: string where
  "msg_no_folder = map char_of [235 :: nat, 176, 176, 237, 143, 172, 32, 237, 143, 180, 235, 141, 148, 32, 236, 151, 134, 236, 157, 140, 58, 32]"

definition msg_ask_teacher :: string where
  "msg_ask_teacher = map char_of [32 :: nat, 40, 234, 181, 144, 236, 136, 152, 235, 139, 152, 234, 187, 152, 32, 235, 172, 184, 236, 157, 152, 41]"

definition msg_no_files :: string where
  "msg_no_files = map char_of [235 :: nat, 176, 176, 237, 143, 172, 32, 237, 140, 140, 236, 157, 188, 32, 236, 151, 134, 236, 157, 140, 58, 32]"

definition msg_before_upload :: string where
  "msg_before_upload = map char_of [32 :: nat, 40, 236, 149, 132, 236, 167, 129, 32, 236, 151, 133, 235, 161, 156, 235, 147, 156, 32, 236, 160, 132, 41]"

definition msg_send_failed :: string where
  "msg_send_failed = map char_of [237 :: nat, 140, 140, 236, 157, 188, 32, 236, 160, 132, 236, 134, 161, 32, 236, 139, 164, 237, 140, 168, 58, 32]"

definition MAX_ERR_PATH :: nat where
  "MAX_ERR_PATH = 80"

text \<open>The collected files, as (path, name) pairs: at most 64, no dot files, regular files only.\<close>

fun collect_files :: "dist \<Rightarrow> string \<Rightarrow> string list \<Rightarrow> nat \<Rightarrow> (string \<times> string) list" where
  "collect_files d dist_dir [] file_count = []"
| "collect_files d dist_dir (d_name # ents) file_count =
     (if MAX_DIST_FILES \<le> file_count then []
      else if d_name \<noteq> [] \<and> hd d_name = CHR ''.'' then collect_files d dist_dir ents file_count
      else let full = snprintf 1024 (dist_dir @ ''/'' @ d_name)
           in case d_file d full of
                None \<Rightarrow> collect_files d dist_dir ents file_count
              | Some f \<Rightarrow>
                  if \<not> f_regular f then collect_files d dist_dir ents file_count
                  else (take 1023 full, take (MAX_FILENAME - 1) d_name)
                         # collect_files d dist_dir ents (file_count + 1))"

text \<open>The transfer loop; the result tells whether every file was sent.\<close>

fun send_files :: "dist \<Rightarrow> (string \<times> string) list \<Rightarrow> nat \<Rightarrow> nat \<Rightarrow> link \<Rightarrow> bool \<times> link" where
  "send_files d [] i file_count l = (True, l)"
| "send_files d ((path, name) # fs) i file_count l =
     (let (r, l1) = send_one_file d path name (of_nat (i + 1)) (of_nat file_count) l
      in if r < 0 then (False, send_pull_error (msg_send_failed @ take (MAX_FILENAME - 1) name) l1)
         else send_files d fs (i + 1) file_count l1)"

definition dist_dir_of :: "ServerContext \<Rightarrow> string" where
  "dist_dir_of ctx = snprintf 512 (DIST_ROOT @ ''/'' @ current_hw ctx)"

definition handle_file_pull :: "ServerContext \<Rightarrow> dist \<Rightarrow> link \<Rightarrow> link" where
  "handle_file_pull ctx d l =
     (let dir = dist_dir_of ctx
      in case d_entries d dir of
           None \<Rightarrow> send_pull_error (msg_no_folder @ take MAX_ERR_PATH dir @ msg_ask_teacher) l
         | Some ents \<Rightarrow>
             (let files = collect_files d dir ents 0
              in if files = []
                 then send_pull_error (msg_no_files @ take MAX_ERR_PATH dir @ msg_before_upload) l
                 else let (ok, l1) = send_files d files 0 (length files) l
                      in if \<not> ok then l1
                         else snd (send_all (enc_FileEndHeader (file_done (length files))) l1)))"

section \<open>The interface of a sender\<close>

locale sender =
  fixes snd_op :: "byte list \<Rightarrow> 'l \<Rightarrow> int \<times> 'l"
    and out :: "'l \<Rightarrow> byte list"
  assumes all_sent: "snd_op bs l = (0, l') \<Longrightarrow> out l' = out l @ bs"
    and part_sent: "snd_op bs l = (r, l') \<Longrightarrow> \<exists>p. prefix p bs \<and> out l' = out l @ p"
    and outcome: "snd_op bs l = (r, l') \<Longrightarrow> r = 0 \<or> r < 0"
begin

text \<open>Two messages in a row, the second only after the first went out.\<close>

lemma sent_then:
  assumes "snd_op a l = (r, l1)" and "\<not> r < 0"
  shows "out l1 = out l @ a"
  using assms all_sent outcome [OF assms(1)] by auto

lemma sent_nothing_extra:
  assumes "snd_op a l = (r, l1)"
  shows "\<exists>p. prefix p (a @ b) \<and> out l1 = out l @ p"
  using part_sent [OF assms] by (auto intro: prefix_prefix)

end

lemma send_all_result:
  "send_all bs l = (r, l') \<Longrightarrow>
   (r = 0 \<and> sent l' = sent l @ bs) \<or> (r = -1 \<and> (\<exists>p. prefix p bs \<and> sent l' = sent l @ p))"
proof (induction bs l arbitrary: r l' rule: send_all.induct)
  case (1 bs l)
  show ?case
  proof (cases "bs = []")
    case True
    with 1(2) show ?thesis by (simp add: send_all.simps)
  next
    case False
    obtain n l1 where s: "send bs l = (n, l1)" by (cases "send bs l")
    note pre = send_prefix [OF s]
    show ?thesis
    proof (cases "n \<le> 0")
      case True
      with 1(2) False s pre show ?thesis
        by (subst (asm) send_all.simps) (auto intro: exI [of _ "[]"])
    next
      case n: False
      then have rec: "send_all (drop (nat n) bs) l1 = (r, l')"
        using 1(2) False s by (subst (asm) send_all.simps) simp
      have "(r = 0 \<and> sent l' = sent l1 @ drop (nat n) bs) \<or>
            (r = -1 \<and> (\<exists>p. prefix p (drop (nat n) bs) \<and> sent l' = sent l1 @ p))"
        using 1(1) [OF False s [symmetric] n rec] by simp
      then show ?thesis
      proof (elim disjE conjE exE)
        assume "r = 0" "sent l' = sent l1 @ drop (nat n) bs"
        with pre show ?thesis by simp
      next
        fix p
        assume "r = -1" and p: "prefix p (drop (nat n) bs)" "sent l' = sent l1 @ p"
        moreover have "prefix (take (nat n) bs @ p) bs"
          using p(1) by (metis append_take_drop_id same_prefix_prefix)
        ultimately show ?thesis using pre by auto
      qed
    qed
  qed
qed

interpretation net: sender send_all sent
proof
  fix bs :: "byte list" and l l' :: link and r
  show "send_all bs l = (0, l') \<Longrightarrow> sent l' = sent l @ bs"
    using send_all_result by fastforce
  show "send_all bs l = (r, l') \<Longrightarrow> \<exists>p. prefix p bs \<and> sent l' = sent l @ p"
    using send_all_result by fastforce
  show "send_all bs l = (r, l') \<Longrightarrow> r = 0 \<or> r < 0"
    using send_all_result by fastforce
qed

end
