(* ===== verification/Grading.thy ===== *)
theory Grading
  imports Tracker Compare Launch File_Pull
begin

text \<open>
  A worker's handling of one connection: \<open>handle_client\<close> and \<open>build_and_send_result\<close> of
  \<^verbatim>\<open>server/server.c\<close>. What lies outside the program is the record \<open>judge\<close>: the workspace
  calls, the compiler's exit status for a source text, the run of a binary under given limits
  and on a given input (its exit status and output), and the resource usage. The workspace
  directory is private to the worker, so its files are values here: the source received and
  the output written.

  Other threads may change the shared context while a worker compiles and runs a program. The
  handler therefore takes the world three times: as it is when the week is noted, when the
  output is compared, and when the result is recorded.
\<close>

section \<open>The environment of a submission\<close>

record usage =
  utime_sec :: int
  utime_usec :: int
  maxrss :: int

record judge =
  jg_mkdtemp :: bool
  jg_open_src :: bool
  jg_write_src :: "byte list \<Rightarrow> int"
  jg_gcc :: "byte list option \<Rightarrow> wait_status"
  jg_unshare :: bool
  jg_fork :: bool
  jg_inner :: "(resource \<times> nat \<times> nat) list \<Rightarrow> byte list option \<Rightarrow> string option \<Rightarrow> wait_status \<times> string"
  jg_self_kill :: "nat \<Rightarrow> bool"
  jg_output_opens :: bool
  jg_usage :: usage

record world =
  wd_ctx :: ServerContext
  wd_os :: os

section \<open>Receiving the submission\<close>

text \<open>The upload loop: pieces of at most 4096 bytes; a failed or short \<open>write\<close> goes unnoticed.\<close>

function receive_loop :: "(byte list \<Rightarrow> int) \<Rightarrow> nat \<Rightarrow> sock \<Rightarrow> byte list \<Rightarrow> byte list" where
  "receive_loop wr remain s acc =
     (if remain = 0 then acc
      else case recv (min 4096 remain) s of (n, got, s') \<Rightarrow>
        if n \<le> 0 then acc
        else receive_loop wr (remain - nat n) s' (acc @ take (nat (wr got)) got))"
  by pat_completeness auto
termination
  by (relation "measure (\<lambda>(wr, remain, s, acc). remain)") auto

declare receive_loop.simps [simp del]

text \<open>The content of \<open>source.c\<close>; \<open>None\<close> if it could not be created.\<close>

definition receive_source :: "judge \<Rightarrow> nat \<Rightarrow> sock \<Rightarrow> byte list option" where
  "receive_source jg file_size s =
     (if jg_open_src jg then Some (receive_loop (jg_write_src jg) file_size s []) else None)"

text \<open>A struct of \<open>zeros\<close> filled from an offset by what \<open>recv\<close> returned.\<close>

definition fill :: "nat \<Rightarrow> byte list \<Rightarrow> byte list \<Rightarrow> byte list" where
  "fill k got mem = take k mem @ got @ drop (k + length got) mem"

section \<open>Running and grading\<close>

definition select_input :: "os \<Rightarrow> string option" where
  "select_input w =
     (if os_files w ''server/test_cases/case1_in.txt'' \<noteq> None
      then os_files w ''server/test_cases/case1_in.txt''
      else os_files w ''server/input.txt'')"

text \<open>How \<open>wait4\<close> says the wrapper ended, and what is in the output file. (If the wrapper could not create the
  program's process, the server may have been ended before, see \<open>Launch\<close>.)\<close>

definition run_wrapper :: "judge \<Rightarrow> nat \<Rightarrow> os \<Rightarrow> byte list option \<Rightarrow> wait_status \<times> string option" where
  "run_wrapper jg timeout_seconds w source =
     (if \<not> jg_unshare jg \<or> \<not> jg_fork jg then (WExited 1, if jg_output_opens jg then Some [] else None)
      else let (st, out) = jg_inner jg (sandbox_limits timeout_seconds) source (select_input w)
           in (wrapper_exit (jg_self_kill jg) st, if jg_output_opens jg then Some out else None))"

text \<open>The launch of \<open>Launch\<close> delivers the status \<open>run_wrapper\<close> takes for granted, whatever the scheduling.\<close>

lemma launch_delivers_status:
  assumes "le_monitor le" and "0 < le_pid le" and "le_spawn le" and "le_exec le"
    and "le_unshare le" and "le_fork le" and "jg_unshare jg" and "jg_fork jg"
    and "le_run le = Some (fst (jg_inner jg (sandbox_limits T) source (select_input w)))"
    and "le_self_kill le = jg_self_kill jg"
    and "(launch_step le ^^ n) (launch_init le) s" and "\<nexists>t. launch_step le s t"
  shows "parent s = Reaped (fst (run_wrapper jg T w source))"
proof -
  have ok: "le_monitor le \<and> 0 < le_pid le \<and> launch_inv le (launch_init le)"
    using assms(1,2) launch_inv_init by blast
  have "launch_inv le s" using launching.run_inv [OF assms(11) ok] by blast
  from launch_stuck [OF this assms(9,12)] show ?thesis
    using assms by (simp add: spawns_def run_wrapper_def case_prod_beta)
qed

definition grade_status :: "wait_status \<Rightarrow> int \<Rightarrow> GradeResult" where
  "grade_status st diff_res =
     (case st of
        WSignaled s \<Rightarrow>
          if s = SIGALRM \<or> s = SIGXCPU then GRADE_TLE
          else if s = SIGSYS then GRADE_RE
          else if s = SIGKILL then GRADE_RE
          else GRADE_RE
      | WExited c \<Rightarrow>
          if c \<noteq> 0 then GRADE_RE
          else if diff_res = 1 then GRADE_AC
          else if diff_res = 0 then GRADE_WA
          else GRADE_AC)"

definition user_ms :: "usage \<Rightarrow> int" where
  "user_ms u = utime_sec u * 1000 + utime_usec u div 1000"

text \<open>Compilation, run and comparison: grade, execution time and memory.\<close>

definition grade_source :: "judge \<Rightarrow> nat \<Rightarrow> world \<Rightarrow> byte list option \<Rightarrow> GradeResult \<times> u32 \<times> u32" where
  "grade_source jg timeout_seconds wd source =
     (if jg_gcc jg source \<noteq> WExited 0 then (GRADE_CE, 0, 0)
      else let (st, out) = run_wrapper jg timeout_seconds (wd_os wd) source;
               expected = os_files (wd_os wd) (ans_path (wd_ctx wd))
           in (grade_status st (compare_output out expected),
               word_of_int (user_ms (jg_usage jg)), word_of_int (maxrss (jg_usage jg))))"

section \<open>Recording and replying\<close>

text \<open>What a pointer to the id in the header can read: the id array and, behind it, the name.\<close>

definition sid_of :: "SubmitHeader \<Rightarrow> string" where
  "sid_of h = sh_student_id h @ sh_filename h"

definition result_header ::
  "SubmitHeader \<Rightarrow> GradeResult \<Rightarrow> u32 \<Rightarrow> u32 \<Rightarrow> string \<Rightarrow> u16 \<Rightarrow> u16 \<Rightarrow> u16 \<Rightarrow> ResultHeader" where
  "result_header h grade exec_ms mem_kb task_hw n_submitted n_total my_count =
     \<lparr>magic = MAGIC_NUMBER, version = PROTO_VERSION, pkt_type = server_pkt RES_RESULT,
      header_size = of_nat sizeof_ResultHeader,
      rh_student_id = strncpy (replicate MAX_STUDENT_ID NUL) (sid_of h) MAX_STUDENT_ID,
      rh_filename = strncpy (replicate MAX_FILENAME NUL) (sh_filename h) MAX_FILENAME,
      rh_result = grade_code grade, rh_exec_time_ms = exec_ms, rh_memory_kb = mem_kb,
      rh_submitted_count = n_submitted, rh_total_students = n_total,
      rh_student_submit_count = my_count, rh_pad = 0,
      rh_week_name = strncpy (replicate MAX_WEEK_NAME NUL) task_hw MAX_WEEK_NAME,
      rh_message = replicate 128 NUL\<rparr>"

definition build_and_send_result ::
  "int \<Rightarrow> env \<Rightarrow> SubmitHeader \<Rightarrow> GradeResult \<Rightarrow> u32 \<Rightarrow> u32 \<Rightarrow> string \<Rightarrow> world \<Rightarrow> link \<Rightarrow> world \<times> link" where
  "build_and_send_result now e h grade exec_ms mem_kb task_hw wd l =
     (let (wd', my_count) =
            (if strncmp_eq (current_hw (wd_ctx wd)) task_hw MAX_WEEK_NAME
             then let (c1, n) = ctx_record_submission now (wd_ctx wd) (sid_of h) grade;
                      (c2, w2) = ctx_write_csv e c1 (sid_of h) grade exec_ms mem_kb task_hw (wd_os wd)
                  in (\<lparr>wd_ctx = c2, wd_os = w2\<rparr>, n)
             else (wd, 0));
          resp = result_header h grade exec_ms mem_kb task_hw (submitted_count (wd_ctx wd'))
                   (total_students (wd_ctx wd')) my_count
      in (wd', snd (send (enc_ResultHeader resp) l)))"

section \<open>The handler\<close>

text \<open>The grading path, from the whole header on.\<close>

definition handle_submit ::
  "judge \<Rightarrow> int \<Rightarrow> env \<Rightarrow> nat \<Rightarrow> string \<Rightarrow> SubmitHeader \<Rightarrow> world \<Rightarrow> world \<Rightarrow> sock \<Rightarrow> link \<Rightarrow> world \<times> link" where
  "handle_submit jg now e timeout_seconds task_hw h wd_cmp wd_rec s l =
     (if \<not> jg_mkdtemp jg then (wd_rec, l)
      else let source = receive_source jg (unat (sh_file_size h)) s;
               (grade, exec_ms, mem_kb) = grade_source jg timeout_seconds wd_cmp source
           in build_and_send_result now e h grade exec_ms mem_kb task_hw wd_rec l)"

definition handle_client ::
  "judge \<Rightarrow> int \<Rightarrow> env \<Rightarrow> nat \<Rightarrow> dist \<Rightarrow> world \<Rightarrow> world \<Rightarrow> world \<Rightarrow> sock \<Rightarrow> link \<Rightarrow> world \<times> link" where
  "handle_client jg now e timeout_seconds d wd_start wd_cmp wd_rec s l =
     (let task_hw = strncpy (replicate MAX_WEEK_NAME NUL) (current_hw (wd_ctx wd_start)) MAX_WEEK_NAME;
          (r1, got1, s1) = recv_waitall sizeof_CommonHeader s;
          mem1 = fill 0 got1 (replicate sizeof_SubmitHeader 0)
      in if r1 \<le> 0 then (wd_rec, l)
         else if pkt_type (dec_common mem1) = client_pkt PKT_GET_FILES
         then (let (r2, got2, s2) = recv_waitall (sizeof_GetFilesHeader - 8) s1
               in if r2 \<le> 0 then (wd_rec, l)
                  else (wd_rec, handle_file_pull (wd_ctx wd_cmp) d l))
         else (let (r2, got2, s2) = recv_waitall (sizeof_SubmitHeader - 8) s1
               in if r2 \<le> 0 then (wd_rec, l)
                  else handle_submit jg now e timeout_seconds task_hw
                         (dec_SubmitHeader (fill 8 got2 mem1)) wd_cmp wd_rec s2 l))"

section \<open>What the upload loop receives\<close>

definition writes_all :: "judge \<Rightarrow> bool" where
  "writes_all jg \<longleftrightarrow> jg_mkdtemp jg \<and> jg_open_src jg \<and> (\<forall>bs. jg_write_src jg bs = int (length bs))"

lemma receive_loop_got:
  "\<forall>bs. wr bs = int (length bs) \<Longrightarrow> receive_loop wr remain s acc = acc @ take remain (pending s)"
proof (induction wr remain s acc rule: receive_loop.induct)
  case (1 wr remain s acc)
  show ?case
  proof (cases "remain = 0")
    case True
    then show ?thesis by (simp add: receive_loop.simps)
  next
    case False
    obtain n got s' where r: "recv (min 4096 remain) s = (n, got, s')"
      by (cases "recv (min 4096 remain) s") auto
    show ?thesis
    proof (cases "n \<le> 0")
      case True
      then have "pending s = []" using False by (intro plain.read_stop(1) [OF r]) simp_all
      with r True False show ?thesis by (subst receive_loop.simps) simp
    next
      case n: False
      have p: "pending s = got @ pending s'" "n = int (length got)" "length got \<le> min 4096 remain"
        using n False by (intro plain.read_progress [OF r]; simp)+
      have "receive_loop wr remain s acc = receive_loop wr (remain - nat n) s' (acc @ take (nat (wr got)) got)"
        using r n False by (subst receive_loop.simps) simp
      also have "\<dots> = (acc @ take (nat (wr got)) got) @ take (remain - nat n) (pending s')"
        using 1(1) [OF False r [symmetric] refl n] 1(2) by blast
      finally have all: "receive_loop wr remain s acc =
          (acc @ take (nat (wr got)) got) @ take (remain - nat n) (pending s')" .
      have "wr got = int (length got)" using 1(2) by blast
      with all p show ?thesis by simp
    qed
  qed
qed

lemma receive_source_got: "writes_all jg \<Longrightarrow> receive_source jg n s = Some (take n (pending s))"
  by (simp add: receive_source_def writes_all_def receive_loop_got)

section \<open>What the handler makes of a submission\<close>

lemma read_header:
  assumes "pending s = enc_SubmitHeader h @ rest" and "wf_SubmitHeader h"
  obtains s1 s2 where
    "recv_waitall 8 s = (8, enc_common h, s1)"
    "recv_waitall 152 s1 = (152, drop 8 (enc_SubmitHeader h), s2)" "pending s2 = rest"
proof -
  have len: "length (enc_SubmitHeader h) = 160" using submit.enc_length [OF assms(2)] by simp
  obtain body where body: "enc_SubmitHeader h = enc_common h @ body" by (simp add: enc_SubmitHeader_def)
  have lb: "length body = 152" using len body by simp
  obtain r1 g1 s1 where r1: "recv_waitall 8 s = (r1, g1, s1)" by (cases "recv_waitall 8 s") auto
  have p: "pending s = enc_common h @ body @ rest" using assms(1) body by simp
  have "take 8 (pending s) = enc_common h" by (simp add: p)
  moreover have "enc_common h \<noteq> []" using length_enc_common [of h] by fastforce
  ultimately have 1: "r1 = 8" "g1 = enc_common h"
    using recv_waitall_result [of 8 s] recv_waitall_got(1) [of 8 s] r1 by simp_all
  have p1: "pending s1 = body @ rest" using recv_waitall_got(2) [of 8 s] r1 p by simp
  obtain r2 g2 s2 where r2: "recv_waitall 152 s1 = (r2, g2, s2)" by (cases "recv_waitall 152 s1") auto
  have "take 152 (pending s1) = body" by (simp add: p1 lb)
  moreover have "body \<noteq> []" using lb by auto
  ultimately have 2: "r2 = 152" "g2 = body"
    using recv_waitall_result [of 152 s1] recv_waitall_got(1) [of 152 s1] r2 lb by simp_all
  have p2: "pending s2 = rest" using recv_waitall_got(2) [of 152 s1] r2 p1 lb by simp
  show ?thesis using that [of s1 s2] r1 r2 1 2 p2 body by simp
qed

lemma handle_client_submit:
  assumes "pending s = enc_SubmitHeader h @ rest" and "wf_SubmitHeader h"
    and "pkt_type h \<noteq> client_pkt PKT_GET_FILES"
  obtains s2 where "pending s2 = rest" and
    "handle_client jg now e T d wd_start wd_cmp wd_rec s l =
     handle_submit jg now e T
       (strncpy (replicate MAX_WEEK_NAME NUL) (current_hw (wd_ctx wd_start)) MAX_WEEK_NAME) h wd_cmp wd_rec s2 l"
proof -
  obtain s1 s2 where rd: "recv_waitall 8 s = (8, enc_common h, s1)"
      "recv_waitall 152 s1 = (152, drop 8 (enc_SubmitHeader h), s2)" "pending s2 = rest"
    using read_header [OF assms(1,2)] .
  obtain body where body: "enc_SubmitHeader h = enc_common h @ body" by (simp add: enc_SubmitHeader_def)
  have lb: "length body = 152" using submit.enc_length [OF assms(2)] body by simp
  have m1: "fill 0 (enc_common h) (replicate 160 0) = enc_common h @ replicate 152 0"
    by (simp add: fill_def)
  have m2: "fill 8 body (enc_common h @ replicate 152 0) = enc_SubmitHeader h"
    by (simp add: fill_def body lb)
  have ty: "pkt_type (dec_common (enc_common h @ replicate 152 0)) = pkt_type h"
    by (simp add: dec_common_enc CommonHeader.truncate_def)
  have "handle_client jg now e T d wd_start wd_cmp wd_rec s l =
     handle_submit jg now e T
       (strncpy (replicate MAX_WEEK_NAME NUL) (current_hw (wd_ctx wd_start)) MAX_WEEK_NAME) h wd_cmp wd_rec s2 l"
    using rd(1,2) assms(3) submit.dec_enc [OF assms(2)] body
    by (simp add: handle_client_def m1 ty m2 Let_def)
  with rd(3) show ?thesis using that by blast
qed

lemma week_copy: "strncmp_eq a (strncpy (replicate 32 NUL) b 32) 32 \<longleftrightarrow> take 32 (cstr a) = take 32 (cstr b)"
proof -
  have "cstr (strncpy (replicate 32 NUL) b 32) = take 32 (cstr b)"
    using cstr_no_nul [of b] by (simp add: strncpy_def) (metis cstr_pad in_set_takeD)
  then show ?thesis by (simp add: strncmp_eq_def)
qed

text \<open>All that the grading path takes from a header and the stream behind it.\<close>

lemma same_submission:
  assumes "pending s = enc_SubmitHeader h @ rest" and "wf_SubmitHeader h" and "pkt_type h \<noteq> client_pkt PKT_GET_FILES"
    and "pending s' = enc_SubmitHeader h' @ rest'" and "wf_SubmitHeader h'" and "pkt_type h' \<noteq> client_pkt PKT_GET_FILES"
    and "sh_student_id h' = sh_student_id h" and "sh_filename h' = sh_filename h" and "writes_all jg"
    and "take (unat (sh_file_size h')) rest' = take (unat (sh_file_size h)) rest"
  shows "handle_client jg now e T d wd_start wd_cmp wd_rec s' l = handle_client jg now e T d wd_start wd_cmp wd_rec s l"
proof -
  let ?week = "strncpy (replicate MAX_WEEK_NAME NUL) (current_hw (wd_ctx wd_start)) MAX_WEEK_NAME"
  obtain s2 where s2: "pending s2 = rest"
    "handle_client jg now e T d wd_start wd_cmp wd_rec s l = handle_submit jg now e T ?week h wd_cmp wd_rec s2 l"
    using handle_client_submit [OF assms(1-3)] .
  obtain s3 where s3: "pending s3 = rest'"
    "handle_client jg now e T d wd_start wd_cmp wd_rec s' l = handle_submit jg now e T ?week h' wd_cmp wd_rec s3 l"
    using handle_client_submit [OF assms(4-6)] .
  have "receive_source jg (unat (sh_file_size h')) s3 = receive_source jg (unat (sh_file_size h)) s2"
    using receive_source_got [OF assms(9)] s2(1) s3(1) assms(10) by simp
  moreover have "build_and_send_result now e h' g ms kb ?week wd_rec l = build_and_send_result now e h g ms kb ?week wd_rec l" for g ms kb
    using assms(7,8) by (simp add: build_and_send_result_def result_header_def sid_of_def)
  ultimately show ?thesis unfolding s2(2) s3(2) handle_submit_def by (simp add: case_prod_beta Let_def)
qed

section \<open>Properties\<close>

text \<open>C5: the verdict. A source that does not compile is CE; a program killed by the CPU-time or
  alarm signal is TLE, by any other signal or with a non-zero exit code RE; a program that
  ends well is AC exactly if its visible output is that of the answer file or there is no
  answer file for the week, and WA otherwise. Execution time and memory are those of the run,
  0 after a compile error.\<close>

theorem verdict:
  assumes "jg_unshare jg" and "jg_fork jg" and "jg_output_opens jg"
    and "jg_inner jg (sandbox_limits T) source (select_input (wd_os wd)) = (st, out)"
    and "\<forall>s. st = WSignaled s \<longrightarrow> 0 < s \<and> s < 128"
  shows "snd (grade_source jg T wd source) =
     (if jg_gcc jg source \<noteq> WExited 0 then (0, 0)
      else (word_of_int (utime_sec (jg_usage jg) * 1000 + utime_usec (jg_usage jg) div 1000),
            word_of_int (maxrss (jg_usage jg)))) \<and>
   fst (grade_source jg T wd source) =
     (if jg_gcc jg source \<noteq> WExited 0 then GRADE_CE
      else case st of
        WSignaled s \<Rightarrow> if jg_self_kill jg s \<and> s \<in> {14, 24} then GRADE_TLE else GRADE_RE
      | WExited c \<Rightarrow>
          if c mod 256 \<noteq> 0 then GRADE_RE
          else case os_files (wd_os wd) (ans_path (wd_ctx wd)) of
            None \<Rightarrow> GRADE_AC
          | Some answer \<Rightarrow> if visible out = visible answer then GRADE_AC else GRADE_WA)"
  using assms
  by (auto simp: grade_source_def run_wrapper_def wrapper_exit_def grade_status_def signal_numbers
      compare_output_def compare_loop_spec user_ms_def split: wait_status.splits option.splits)

definition demo_judge :: judge where
  "demo_judge =
     \<lparr>jg_mkdtemp = True, jg_open_src = True, jg_write_src = (\<lambda>bs. int (length bs)),
      jg_gcc = (\<lambda>src. if src = Some [] then WExited 1 else WExited 0),
      jg_unshare = True, jg_fork = True, jg_inner = (\<lambda>limits src inp. (WExited 0, ''4 2'')),
      jg_self_kill = (\<lambda>s. True), jg_output_opens = True,
      jg_usage = \<lparr>utime_sec = 1, utime_usec = 5000, maxrss = 900\<rparr>\<rparr>"

definition demo_world :: "string \<Rightarrow> string \<Rightarrow> world" where
  "demo_world week answer =
     \<lparr>wd_ctx = \<lparr>current_hw = week, ans_path = week @ ''_ans.txt'', submit_dir = [],
                students = [empty_slot, empty_slot], total_students = 30, submitted_count = 0,
                csv = \<lparr>total_records = 0, last_write_ts = 0, csv_fd = -1, csv_path = []\<rparr>,
                paused = 0, dist_paused = 0, timeout_ms = 5000\<rparr>,
      wd_os = \<lparr>os_files = [week @ ''_ans.txt'' \<mapsto> answer], os_dirs = [], os_fds = \<lambda>_. None\<rparr>\<rparr>"

theorem verdict_witness:
  "fst (grade_source demo_judge 2 (demo_world ''w1'' ''42'') (Some [1])) = GRADE_AC \<and>
   fst (grade_source demo_judge 2 (demo_world ''w1'' ''43'') (Some [1])) = GRADE_WA"
  using verdict [of demo_judge 2 "Some [1]" "demo_world ''w1'' ''42''" "WExited 0" "''4 2''"]
    verdict [of demo_judge 2 "Some [1]" "demo_world ''w1'' ''43''" "WExited 0" "''4 2''"]
  by (simp add: demo_judge_def demo_world_def visible_def isspace_def)

text \<open>C1: a submission from end to end. However the network cuts it up, a well-formed header with
  its source is graded on exactly the announced bytes; if the week noted at the start is still
  the current one when the result is recorded, the attempt goes into the tracker and the results
  file and the client is sent one result packet with the verdict and the new counts; if the week
  has changed, nothing is recorded and the attempt count sent is 0. The verdict itself is
  formed against the answer file of whatever week is current at comparison time.\<close>

theorem submission_graded_and_recorded:
  assumes "pending s = enc_SubmitHeader h @ source @ rest" and "wf_SubmitHeader h"
    and "pkt_type h \<noteq> client_pkt PKT_GET_FILES" and "length source = unat (sh_file_size h)"
    and "writes_all jg" and "tx l = []" and "sent l = []"
    and "length (cstr (current_hw (wd_ctx wd_start))) < MAX_WEEK_NAME"
    and "length (cstr (current_hw (wd_ctx wd_rec))) < MAX_WEEK_NAME"
    and "grade_source jg T wd_cmp (Some source) = (grade, ms, kb)"
  shows "let (wd', l') = handle_client jg now e T d wd_start wd_cmp wd_rec s l;
             week = strncpy (replicate MAX_WEEK_NAME NUL) (current_hw (wd_ctx wd_start)) MAX_WEEK_NAME;
             reply = result_header h grade ms kb week (submitted_count (wd_ctx wd')) (total_students (wd_ctx wd'))
         in if cstr (current_hw (wd_ctx wd_rec)) = cstr (current_hw (wd_ctx wd_start))
            then (let (c1, n) = ctx_record_submission now (wd_ctx wd_rec) (sid_of h) grade;
                      (c2, w2) = ctx_write_csv e c1 (sid_of h) grade ms kb week (wd_os wd_rec)
                  in wd' = \<lparr>wd_ctx = c2, wd_os = w2\<rparr> \<and> sent l' = enc_ResultHeader (reply n))
            else wd' = wd_rec \<and> sent l' = enc_ResultHeader (reply 0)"
proof -
  let ?week = "strncpy (replicate MAX_WEEK_NAME NUL) (current_hw (wd_ctx wd_start)) MAX_WEEK_NAME"
  obtain s2 where s2: "pending s2 = source @ rest"
    "handle_client jg now e T d wd_start wd_cmp wd_rec s l = handle_submit jg now e T ?week h wd_cmp wd_rec s2 l"
    using handle_client_submit [OF assms(1-3)] .
  have src: "receive_source jg (unat (sh_file_size h)) s2 = Some source"
    using receive_source_got [OF assms(5)] s2(1) assms(4) by simp
  have "handle_submit jg now e T ?week h wd_cmp wd_rec s2 l =
      build_and_send_result now e h grade ms kb ?week wd_rec l"
    using assms(5,10) src by (simp add: handle_submit_def writes_all_def)
  moreover have "strncmp_eq (current_hw (wd_ctx wd_rec)) ?week MAX_WEEK_NAME \<longleftrightarrow>
      cstr (current_hw (wd_ctx wd_rec)) = cstr (current_hw (wd_ctx wd_start))"
    using assms(8,9) by (simp add: week_copy)
  ultimately show ?thesis
    using s2(2) assms(6,7)
    by (simp add: build_and_send_result_def send_def Let_def case_prod_beta)
qed

definition demo_header :: SubmitHeader where
  "demo_header =
     \<lparr>magic = MAGIC_NUMBER, version = PROTO_VERSION, pkt_type = client_pkt PKT_SUBMIT, header_size = 160,
      sh_student_id = ''20240001'' @ replicate 8 NUL, sh_filename = ''hw.c'' @ replicate 124 NUL,
      sh_file_size = 1, sh_checksum = 0\<rparr>"

definition demo_dist0 :: dist where
  "demo_dist0 = \<lparr>d_entries = \<lambda>_. None, d_file = \<lambda>_. None\<rparr>"

definition demo_os_env :: env where
  "demo_os_env = \<lparr>env_open = \<lambda>_. 5, env_mkdir = \<lambda>_. True, env_write = \<lambda>t. int (length t),
                  env_now = 7, env_localtime = \<lambda>_. ''t''\<rparr>"

text \<open>The week is switched away and back while the program runs: the answer of the other week decides.\<close>

theorem submission_graded_and_recorded_witness:
  "let wd = demo_world ''w1'' ''42'';
       (wd', l') = handle_client demo_judge 7 demo_os_env 2 demo_dist0 wd (demo_world ''w2'' ''17'') wd
          \<lparr>rx = [enc_SubmitHeader demo_header, [1]], rx_reset = False\<rparr> \<lparr>sent = [], tx = []\<rparr>
   in fst (grade_source demo_judge 2 wd (Some [1])) = GRADE_AC \<and>
      best_result (hd (students (wd_ctx wd'))) = grade_code GRADE_WA \<and>
      submit_count (hd (students (wd_ctx wd'))) = 1"
proof -
  let ?wd = "demo_world ''w1'' ''42''"
  let ?s = "\<lparr>rx = [enc_SubmitHeader demo_header, [1]], rx_reset = False\<rparr>"
  have p: "pending ?s = enc_SubmitHeader demo_header @ [1] @ []" by (simp add: pending_def)
  have wf: "wf_SubmitHeader demo_header" by (simp add: wf_SubmitHeader_def demo_header_def)
  have hd: "pkt_type demo_header \<noteq> client_pkt PKT_GET_FILES" "length [1::byte] = unat (sh_file_size demo_header)"
    by (simp_all add: demo_header_def)
  have wa: "writes_all demo_judge" by (simp add: writes_all_def demo_judge_def)
  have wk: "current_hw (wd_ctx ?wd) = ''w1''" "cstr ''w1'' = ''w1''" by (simp_all add: demo_world_def cstr_def)
  have g: "grade_source demo_judge 2 (demo_world ''w2'' ''17'') (Some [1]) = (GRADE_WA, 1005, 900)"
    by (simp add: grade_source_def demo_judge_def run_wrapper_def wrapper_exit_def grade_status_def
        compare_output_def compare_loop_spec demo_world_def visible_def isspace_def user_ms_def)
  have ac: "fst (grade_source demo_judge 2 ?wd (Some [1])) = GRADE_AC"
    by (simp add: grade_source_def demo_judge_def run_wrapper_def wrapper_exit_def grade_status_def
        compare_output_def compare_loop_spec demo_world_def visible_def isspace_def)
  have id: "cstr (sid_of demo_header) = ''20240001''"
    by (simp add: sid_of_def demo_header_def cstr_def)
  have len: "length (cstr (current_hw (wd_ctx ?wd))) < MAX_WEEK_NAME" by (simp add: wk)
  obtain c n where rec: "ctx_record_submission 7 (wd_ctx ?wd) (sid_of demo_header) GRADE_WA = (c, n)"
    by (cases "ctx_record_submission 7 (wd_ctx ?wd) (sid_of demo_header) GRADE_WA")
  have c: "best_result (hd (students c)) = grade_code GRADE_WA" "submit_count (hd (students c)) = 1"
    "csv_fd (csv c) < 0"
    using rec by (auto simp: demo_world_def ctx_record_submission_def empty_slot_def record_at_def
        count_attempt_def note_grade_def new_record_def)
  show ?thesis
    using submission_graded_and_recorded [OF p wf hd wa _ _ len len g, of "\<lparr>sent = [], tx = []\<rparr>" 7 demo_os_env demo_dist0]
      ac c by (auto simp: Let_def case_prod_beta rec ctx_write_csv_def)
qed

text \<open>An upload that breaks off is not noticed. If the connection ends before the announced
  number of bytes has come, the server does exactly what it does for a complete submission of
  the part that arrived: it is compiled, graded and recorded as an attempt.\<close>

theorem truncated_upload_is_graded:
  assumes "pending s = enc_SubmitHeader h @ part" and "wf_SubmitHeader h" and "pkt_type h \<noteq> client_pkt PKT_GET_FILES"
    and "length part < unat (sh_file_size h)" and "writes_all jg"
    and "pending s' = enc_SubmitHeader (h\<lparr>sh_file_size := of_nat (length part)\<rparr>) @ part"
  shows "handle_client jg now e T d wd_start wd_cmp wd_rec s l = handle_client jg now e T d wd_start wd_cmp wd_rec s' l"
proof (rule same_submission [OF assms(6) _ _ assms(1-3) _ _ assms(5)])
  have "length part < 2 ^ 32" using assms(4) unsigned_less [of "sh_file_size h", where ?'a = nat] by simp
  then have "unat (of_nat (length part) :: u32) = length part"
    by (simp add: unat_of_nat take_bit_nat_eq_self)
  then show "take (unat (sh_file_size h)) part = take (unat (sh_file_size (h\<lparr>sh_file_size := of_nat (length part)\<rparr>))) part"
    using assms(4) by simp
qed (use assms(2,3) in \<open>simp_all add: wf_SubmitHeader_def\<close>)

theorem truncated_upload_is_graded_witness:
  "let h = demo_header\<lparr>sh_file_size := 100\<rparr>; wd = demo_world ''w1'' ''42'' in
   handle_client demo_judge 7 demo_os_env 2 demo_dist0 wd wd wd
     \<lparr>rx = [enc_SubmitHeader h @ [1]], rx_reset = False\<rparr> \<lparr>sent = [], tx = []\<rparr> =
   handle_client demo_judge 7 demo_os_env 2 demo_dist0 wd wd wd
     \<lparr>rx = [enc_SubmitHeader demo_header @ [1]], rx_reset = False\<rparr> \<lparr>sent = [], tx = []\<rparr>"
proof -
  have "demo_header = demo_header\<lparr>sh_file_size := 100\<rparr>\<lparr>sh_file_size := of_nat (length [1::byte])\<rparr>"
    by (simp add: demo_header_def)
  then show ?thesis
    unfolding Let_def
    by (intro truncated_upload_is_graded [where h = "demo_header\<lparr>sh_file_size := 100\<rparr>" and part = "[1]"])
      (simp_all add: pending_def wf_SubmitHeader_def demo_header_def writes_all_def demo_judge_def)
qed

text \<open>The fields that identify and protect a submission are never looked at. Whatever magic
  number, version, header size and checksum a header carries, and whatever its packet type as
  long as it is not a pull request, the server does the same.\<close>

theorem header_not_validated:
  assumes "pending s = enc_SubmitHeader h @ source" and "wf_SubmitHeader h" and "pkt_type h \<noteq> client_pkt PKT_GET_FILES"
    and "t \<noteq> client_pkt PKT_GET_FILES" and "writes_all jg"
    and "pending s' = enc_SubmitHeader
           (h\<lparr>magic := m, version := v, pkt_type := t, header_size := z, sh_checksum := c\<rparr>) @ source"
  shows "handle_client jg now e T d wd_start wd_cmp wd_rec s' l = handle_client jg now e T d wd_start wd_cmp wd_rec s l"
  by (rule same_submission [OF assms(1-3) assms(6) _ _ _ _ assms(5)])
    (use assms(2,4) in \<open>simp_all add: wf_SubmitHeader_def\<close>)

theorem header_not_validated_witness:
  "let wd = demo_world ''w1'' ''42'' in
   handle_client demo_judge 7 demo_os_env 2 demo_dist0 wd wd wd
     \<lparr>rx = [enc_SubmitHeader (demo_header\<lparr>magic := 0, version := 1, pkt_type := client_pkt PKT_HEARTBEAT,
        header_size := 0, sh_checksum := 99\<rparr>) @ [1]], rx_reset = False\<rparr> \<lparr>sent = [], tx = []\<rparr> =
   handle_client demo_judge 7 demo_os_env 2 demo_dist0 wd wd wd
     \<lparr>rx = [enc_SubmitHeader demo_header @ [1]], rx_reset = False\<rparr> \<lparr>sent = [], tx = []\<rparr>"
  unfolding Let_def
  by (rule header_not_validated [where h = demo_header and source = "[1]"])
    (simp_all add: pending_def wf_SubmitHeader_def demo_header_def writes_all_def demo_judge_def)

text \<open>The CPU limit never yields a TLE. The sandbox sets the soft and the hard limit to the same
  number of seconds; a program that uses up that time therefore reaches its hard limit, where the
  kernel sends \<open>SIGKILL\<close> (the hypothesis on the run), and is graded RE.\<close>

theorem cpu_limit_grades_RE:
  assumes "jg_gcc jg source = WExited 0" and "jg_unshare jg" and "jg_fork jg" and "jg_self_kill jg SIGKILL"
    and kernel: "\<forall>limits inp soft hard. (RLIMIT_CPU, soft, hard) \<in> set limits \<and> hard \<le> cpu_seconds \<longrightarrow>
       fst (jg_inner jg limits source inp) = WSignaled SIGKILL"
    and "T \<le> cpu_seconds"
  shows "(\<forall>(r, soft, hard) \<in> set (sandbox_limits T). soft = hard) \<and> fst (grade_source jg T wd source) = GRADE_RE"
proof -
  have "(RLIMIT_CPU, T, T) \<in> set (sandbox_limits T)" by (simp add: sandbox_limits_def)
  with kernel assms(6) have "fst (jg_inner jg (sandbox_limits T) source (select_input (wd_os wd))) = WSignaled SIGKILL"
    by blast
  then show ?thesis
    using assms(1-4)
    by (simp add: sandbox_limits_def grade_source_def run_wrapper_def wrapper_exit_def grade_status_def
        signal_numbers case_prod_beta)
qed

theorem cpu_limit_grades_RE_witness:
  "fst (grade_source (demo_judge\<lparr>jg_inner := \<lambda>limits src inp.
      if \<exists>(r, soft, hard) \<in> set limits. r = RLIMIT_CPU \<and> hard \<le> 60 then (WSignaled 9, []) else (WExited 0, ''4 2'')\<rparr>)
      timeout_initial (demo_world ''w1'' ''42'') (Some [1])) = GRADE_RE"
  by (rule cpu_limit_grades_RE [where cpu_seconds = 60, THEN conjunct2])
    (auto simp: demo_judge_def SIGKILL_def timeout_initial_def)

end
