(* ===== verification/Pull_Client.thy ===== *)
theory Pull_Client
  imports Crc Socket Protocol
begin

text \<open>
  The receiving side of the pull mode: \<open>_recv_all\<close>, \<open>recv_common_header\<close>,
  \<open>is_safe_filename\<close> and \<open>do_pull_mode\<close> of \<^verbatim>\<open>client/client.c\<close>. Each packet is one step of a state
  machine (\<open>pull_step\<close>); the loop runs it until it stops with the exit code. A call that
  \<open>EINTR\<close> interrupts is retried: on the socket it is an empty burst, on a file \<open>None\<close> in the
  list of the results of the next \<open>write\<close>s.

  The locale \<open>exact_reader\<close> is what the steps rely on; \<open>_recv_all\<close> provides it.
\<close>

section \<open>Reading exactly\<close>

function recv_all :: "nat \<Rightarrow> sock \<Rightarrow> int \<times> byte list \<times> sock" where
  "recv_all n s =
     (if n = 0 then (0, [], s)
      else case recv n s of (r, got, s') \<Rightarrow>
        if r \<le> 0 then (-1, [], s')
        else case recv_all (n - nat r) s' of (r', got', s'') \<Rightarrow> (r', got @ got', s''))"
  by pat_completeness auto
termination
  by (relation "measure fst") auto

declare recv_all.simps [simp del]

locale exact_reader =
  fixes rd :: "nat \<Rightarrow> 's \<Rightarrow> int \<times> byte list \<times> 's"
    and left :: "'s \<Rightarrow> byte list"
  assumes rd_enough: "n \<le> length (left s) \<Longrightarrow>
      \<exists>s'. rd n s = (0, take n (left s), s') \<and> left s' = drop n (left s)"
    and rd_short: "length (left s) < n \<Longrightarrow> fst (rd n s) = -1"
begin

text \<open>A packet at the front of what is left is read off whole.\<close>

lemma rd_packet:
  assumes "left s = bs @ rest" and "n = length bs"
  obtains s' where "rd n s = (0, bs, s')" and "left s' = rest"
  using rd_enough [of n s] assms by auto

lemma rd_ok:
  assumes "rd n s = (r, bs, s')" and "\<not> r < 0"
  shows "left s = bs @ left s'" and "length bs = n" and "r = 0"
proof -
  have n: "n \<le> length (left s)" using rd_short [of s n] assms by force
  then obtain s1 where "rd n s = (0, take n (left s), s1)" "left s1 = drop n (left s)"
    using rd_enough by blast
  with assms(1) n show "left s = bs @ left s'" "length bs = n" "r = 0"
    by auto
qed

end

lemma recv_all_enough:
  "n \<le> length (pending s) \<Longrightarrow>
   \<exists>s'. recv_all n s = (0, take n (pending s), s') \<and> pending s' = drop n (pending s)"
proof (induction n s rule: recv_all.induct)
  case (1 n s)
  show ?case
  proof (cases "n = 0")
    case True
    then show ?thesis by (simp add: recv_all.simps)
  next
    case False
    obtain r got s1 where r: "recv n s = (r, got, s1)" by (cases "recv n s") auto
    have "pending s \<noteq> []" using 1(2) False by auto
    then have pos: "0 < r" using False by (intro plain.read_some [OF r]) simp_all
    note prog = plain.read_progress [OF r _ pos]
    have got: "pending s = got @ pending s1" "r = int (length got)" "length got \<le> n"
      using False by (intro prog; simp)+
    then have "n - nat r \<le> length (pending s1)" using 1(2) by simp
    moreover have "\<not> r \<le> 0" using pos by simp
    ultimately obtain s2 where s2: "recv_all (n - nat r) s1 = (0, take (n - nat r) (pending s1), s2)"
        "pending s2 = drop (n - nat r) (pending s1)"
      using 1(1) [OF False r [symmetric] refl] by blast
    have "recv_all n s = (0, got @ take (n - nat r) (pending s1), s2)"
      using False r pos s2(1) by (subst recv_all.simps) simp
    moreover have "got @ take (n - nat r) (pending s1) = take n (pending s)"
      "pending s2 = drop n (pending s)"
      using got s2(2) by simp_all
    ultimately show ?thesis by metis
  qed
qed

lemma recv_all_short:
  "length (pending s) < n \<Longrightarrow> fst (recv_all n s) = -1"
proof (induction n s rule: recv_all.induct)
  case (1 n s)
  obtain r got s1 where r: "recv n s = (r, got, s1)" by (cases "recv n s") auto
  have n: "n \<noteq> 0" using 1(2) by auto
  show ?case
  proof (cases "r \<le> 0")
    case True
    with r n show ?thesis by (subst recv_all.simps) simp
  next
    case False
    note prog = plain.read_progress [OF r]
    have got: "pending s = got @ pending s1" "r = int (length got)" "length got \<le> n"
      using False n by (intro prog; simp)+
    then have "length (pending s1) < n - nat r" using 1(2) by simp
    then have "fst (recv_all (n - nat r) s1) = -1"
      using 1(1) [OF n r [symmetric] refl False] by blast
    with r n False show ?thesis by (subst recv_all.simps) (simp add: case_prod_beta)
  qed
qed

interpretation exact: exact_reader recv_all pending
  by unfold_locales (simp_all add: recv_all_enough recv_all_short)

section \<open>Safe file names\<close>

definition is_safe_filename :: "string \<Rightarrow> bool" where
  "is_safe_filename name =
     (if cstr name = [] then False
      else if strchr name (CHR ''/'') \<noteq> None then False
      else if strchr name (CHR 0x5C) \<noteq> None then False
      else if cstr name = ''..'' then False
      else if strncmp_eq name ''../'' 3 then False
      else if strstr (cstr name) ''/../'' then False
      else if strstr (cstr name) [CHR 0x5C, CHR ''.'', CHR ''.'', CHR 0x5C] then False
      else True)"

lemma strchr_none: "strchr s c = None \<longleftrightarrow> c \<notin> set (cstr s)"
  by (auto simp: strchr_def Let_def dropWhile_eq_Nil_conv)

lemma strstr_head: "strstr hay (c # cs) \<Longrightarrow> c \<in> set hay"
proof -
  assume "strstr hay (c # cs)"
  then obtain i where "take (length (c # cs)) (drop i hay) = c # cs"
    by (auto simp: strstr_def)
  then have "c \<in> set (drop i hay)" by (cases "drop i hay") auto
  then show ?thesis by (rule in_set_dropD)
qed

text \<open>The later tests of \<open>is_safe_filename\<close> never decide: a name without a separator that is not
  \<open>..\<close> passes them all.\<close>

lemma safe_iff:
  "is_safe_filename name \<longleftrightarrow>
   cstr name \<noteq> [] \<and> CHR ''/'' \<notin> set (cstr name) \<and> CHR 0x5C \<notin> set (cstr name) \<and> cstr name \<noteq> ''..''"
proof -
  have "strncmp_eq name ''../'' 3 \<Longrightarrow> CHR ''/'' \<in> set (cstr name)"
  proof -
    assume "strncmp_eq name ''../'' 3"
    then have "take 3 (cstr name) = ''../''" by (simp add: strncmp_eq_def cstr_def)
    then have "CHR ''/'' \<in> set (take 3 (cstr name))" by simp
    then show ?thesis by (rule in_set_takeD)
  qed
  then show ?thesis
    using strstr_head [of "cstr name" "CHR ''/''"] strstr_head [of "cstr name" "CHR 0x5C"]
    by (auto simp: is_safe_filename_def strchr_none)
qed

section \<open>State\<close>

datatype PullState = PULL_STATE_WAIT_META | PULL_STATE_WAIT_CHUNK

type_synonym files = "string \<Rightarrow> (byte list \<times> bool) option"

record pull =
  state :: PullState
  out_open :: bool
  out_path :: string
  out_exec :: byte
  crc_accum :: u32
  files_done :: nat
  disk :: "int option list"
  fs :: files

record client_env =
  ce_connect :: bool
  ce_open :: "string \<Rightarrow> bool"
  ce_malloc :: "nat \<Rightarrow> bool"
  ce_chmod :: "string \<Rightarrow> bool"

datatype pull_result = Go pull sock | Stop int pull

fun write_all :: "int option list \<Rightarrow> byte list \<Rightarrow> bool \<times> byte list \<times> int option list" where
  "write_all [] bs = (True, bs, [])"
| "write_all (w # ws) bs =
     (if bs = [] then (True, [], w # ws)
      else case w of
        None \<Rightarrow> write_all ws bs
      | Some k \<Rightarrow>
          if k \<le> 0 then (False, [], ws)
          else (let (ok, out, ws') = write_all ws (drop (nat k) bs)
                in (ok, take (nat k) bs @ out, ws')))"

text \<open>\<open>recv_error\<close>: the open file is closed and removed, the exit code is 1.\<close>

definition pull_abort :: "pull \<Rightarrow> pull_result" where
  "pull_abort p =
     Stop 1 (if out_open p then p\<lparr>out_open := False, fs := (fs p)(out_path p := None)\<rparr> else p)"

section \<open>One packet\<close>

definition recv_common_header :: "sock \<Rightarrow> int \<times> CommonHeader \<times> sock" where
  "recv_common_header s =
     (let (r, hb, s') = recv_all sizeof_CommonHeader s
      in if r < 0 then (-1, dec_common hb, s')
         else if magic (dec_common hb) \<noteq> MAGIC_NUMBER then (-1, dec_common hb, s')
         else (0, dec_common hb, s'))"

text \<open>The rest of a packet, behind the 8 bytes of the common header, which the code leaves
  unset or zero in the second buffer.\<close>

definition recv_rest :: "nat \<Rightarrow> sock \<Rightarrow> int \<times> byte list \<times> sock" where
  "recv_rest hsz s =
     (let (r, body, s') = recv_all (hsz - sizeof_CommonHeader) s
      in (r, replicate sizeof_CommonHeader 0 @ body, s'))"

definition on_meta :: "client_env \<Rightarrow> u16 \<Rightarrow> pull \<Rightarrow> sock \<Rightarrow> pull_result" where
  "on_meta e hdr_size p s =
     (if hdr_size \<noteq> of_nat sizeof_FileMetaHeader then pull_abort p
      else let (r, bs, s') = recv_rest sizeof_FileMetaHeader s
           in if r < 0 then pull_abort p
              else let meta = dec_FileMetaHeader bs;
                       name = cstr (take (MAX_FILENAME - 1) (mh_filename meta))
                   in if \<not> is_safe_filename name then pull_abort p
                      else let path = ''./'' @ name;
                               p1 = p\<lparr>out_exec := mh_is_executable meta, out_path := snprintf 512 path\<rparr>
                           in if 512 \<le> length path then pull_abort p1
                              else if \<not> ce_open e path then pull_abort (p1\<lparr>out_open := False\<rparr>)
                              else Go (p1\<lparr>out_open := True,
                                         fs := (fs p1)(path \<mapsto> ([], case fs p1 path of Some (_, x) \<Rightarrow> x | None \<Rightarrow> False)),
                                         crc_accum := 0xFFFFFFFF, state := PULL_STATE_WAIT_CHUNK\<rparr>) s')"

definition append_out :: "pull \<Rightarrow> byte list \<Rightarrow> files" where
  "append_out p bs =
     (case fs p (out_path p) of
        Some (old, x) \<Rightarrow> (fs p)(out_path p \<mapsto> (old @ bs, x))
      | None \<Rightarrow> fs p)"

definition on_chunk :: "client_env \<Rightarrow> u16 \<Rightarrow> pull \<Rightarrow> sock \<Rightarrow> pull_result" where
  "on_chunk e hdr_size p s =
     (if state p \<noteq> PULL_STATE_WAIT_CHUNK \<or> \<not> out_open p then pull_abort p
      else if hdr_size \<noteq> of_nat sizeof_FileChunkHeader then pull_abort p
      else let (r, bs, s1) = recv_rest sizeof_FileChunkHeader s
           in if r < 0 then pull_abort p
              else let csz = unat (kh_chunk_size (dec_FileChunkHeader bs))
                   in if csz = 0 \<or> FILE_CHUNK_SIZE * 2 < csz then pull_abort p
                      else if \<not> ce_malloc e csz then pull_abort p
                      else let (r2, buf, s2) = recv_all csz s1
                           in if r2 < 0 then pull_abort p
                              else let (ok, out, ws) = write_all (disk p) buf;
                                       p1 = p\<lparr>crc_accum := crc_chunk (crc_accum p) buf,
                                              disk := ws, fs := append_out p out\<rparr>
                                   in if \<not> ok then pull_abort p1 else Go p1 s2)"

definition on_end :: "client_env \<Rightarrow> u16 \<Rightarrow> pull \<Rightarrow> sock \<Rightarrow> pull_result" where
  "on_end e hdr_size p s =
     (if \<not> out_open p then pull_abort p
      else if hdr_size \<noteq> of_nat sizeof_FileEndHeader then pull_abort p
      else let (r, bs, s') = recv_rest sizeof_FileEndHeader s
           in if r < 0 then pull_abort p
              else let p1 = p\<lparr>out_open := False, state := PULL_STATE_WAIT_META\<rparr>
                   in if eh_checksum (dec_FileEndHeader bs) \<noteq> NOT (crc_accum p)
                      then Go (p1\<lparr>fs := (fs p)(out_path p := None)\<rparr>) s'
                      else if out_exec p \<noteq> 0 \<and> ce_chmod e (out_path p)
                      then Go (p1\<lparr>files_done := files_done p + 1,
                                 fs := (fs p)(out_path p := map_option (\<lambda>(c, x). (c, True)) (fs p (out_path p)))\<rparr>) s'
                      else Go (p1\<lparr>files_done := files_done p + 1\<rparr>) s')"

definition on_done :: "u16 \<Rightarrow> pull \<Rightarrow> sock \<Rightarrow> pull_result" where
  "on_done hdr_size p s =
     (if unat hdr_size < sizeof_CommonHeader then pull_abort p else Stop 0 p)"

definition on_error :: "u16 \<Rightarrow> pull \<Rightarrow> sock \<Rightarrow> pull_result" where
  "on_error hdr_size p s =
     (if hdr_size \<noteq> of_nat sizeof_FileErrorHeader then pull_abort p
      else Stop 1 (if out_open p then p\<lparr>out_open := False, fs := (fs p)(out_path p := None)\<rparr> else p))"

definition pull_step :: "client_env \<Rightarrow> pull \<Rightarrow> sock \<Rightarrow> pull_result" where
  "pull_step e p s =
     (let (r, ch, s1) = recv_common_header s
      in if r < 0 then pull_abort p
         else if pkt_type ch = server_pkt RES_FILE_META then on_meta e (header_size ch) p s1
         else if pkt_type ch = server_pkt RES_FILE_CHUNK then on_chunk e (header_size ch) p s1
         else if pkt_type ch = server_pkt RES_FILE_END then on_end e (header_size ch) p s1
         else if pkt_type ch = server_pkt RES_FILE_DONE then on_done (header_size ch) p s1
         else if pkt_type ch = server_pkt RES_FILE_ERROR then on_error (header_size ch) p s1
         else pull_abort p)"

section \<open>The loop\<close>

text \<open>Every step that goes on has read at least the eight bytes of a header.\<close>

lemma recv_common_ok:
  "recv_common_header s = (r, ch, s') \<Longrightarrow> \<not> r < 0 \<Longrightarrow>
   \<exists>hb. length hb = 8 \<and> pending s = hb @ pending s' \<and> ch = dec_common hb \<and> magic ch = MAGIC_NUMBER"
  using exact.rd_ok by (fastforce simp: recv_common_header_def case_prod_beta Let_def prod_eq_iff split: if_splits)

lemma recv_rest_ok:
  assumes "recv_rest hsz s = (r, bs, s')" and "\<not> r < 0"
  shows "\<exists>body. length body = hsz - 8 \<and> pending s = body @ pending s' \<and> bs = replicate 8 0 @ body"
proof -
  obtain r1 body s1 where rd: "recv_all (hsz - 8) s = (r1, body, s1)" by (cases "recv_all (hsz - 8) s") auto
  then have "r1 = r" "bs = replicate 8 0 @ body" "s1 = s'" using assms(1) by (simp_all add: recv_rest_def)
  then show ?thesis using exact.rd_ok [OF rd] assms(2) by blast
qed

lemma recv_all_shrinks: "recv_all n s = (r, bs, s') \<Longrightarrow> \<not> r < 0 \<Longrightarrow> length (pending s') \<le> length (pending s)"
  using exact.rd_ok(1) by (metis length_append le_add2)

lemma recv_rest_shrinks: "recv_rest n s = (r, bs, s') \<Longrightarrow> \<not> r < 0 \<Longrightarrow> length (pending s') \<le> length (pending s)"
  using recv_rest_ok by fastforce

lemma pull_abort_stops [simp]: "pull_abort p \<noteq> Go p' s'"
  by (simp add: pull_abort_def)

lemma on_meta_shrinks: "on_meta e sz p s = Go p' s' \<Longrightarrow> length (pending s') \<le> length (pending s)"
  using recv_rest_shrinks
  by (auto simp: on_meta_def Let_def case_prod_beta prod_eq_iff split: if_splits)

lemma on_chunk_shrinks: "on_chunk e sz p s = Go p' s' \<Longrightarrow> length (pending s') \<le> length (pending s)"
proof -
  assume go: "on_chunk e sz p s = Go p' s'"
  obtain r bs s1 where r: "recv_rest 16 s = (r, bs, s1)"
    by (cases "recv_rest 16 s") auto
  obtain r2 buf s2 where r2: "recv_all (unat (kh_chunk_size (dec_FileChunkHeader bs))) s1 = (r2, buf, s2)"
    by (cases "recv_all (unat (kh_chunk_size (dec_FileChunkHeader bs))) s1") auto
  have "\<not> r < 0" "\<not> r2 < 0" "s' = s2"
    using go by (auto simp: on_chunk_def r r2 Let_def case_prod_beta split: if_splits)
  then show ?thesis using recv_rest_shrinks [OF r] recv_all_shrinks [OF r2] by simp
qed

lemma on_end_shrinks: "on_end e sz p s = Go p' s' \<Longrightarrow> length (pending s') \<le> length (pending s)"
  using recv_rest_shrinks
  by (auto simp: on_end_def Let_def case_prod_beta prod_eq_iff split: if_splits)

lemma on_done_stops [simp]: "on_done sz p s \<noteq> Go p' s'" "on_error sz p s \<noteq> Go p' s'"
  by (simp_all add: on_done_def on_error_def)

lemma pull_step_consumes: "pull_step e p s = Go p' s' \<Longrightarrow> length (pending s') < length (pending s)"
proof -
  assume go: "pull_step e p s = Go p' s'"
  obtain r ch s1 where r: "recv_common_header s = (r, ch, s1)" by (cases "recv_common_header s") auto
  have ok: "\<not> r < 0" using go by (auto simp: pull_step_def r)
  then have "length (pending s1) < length (pending s)" using recv_common_ok [OF r] by auto
  moreover have "length (pending s') \<le> length (pending s1)"
    using go ok on_meta_shrinks on_chunk_shrinks on_end_shrinks
    by (auto simp: pull_step_def r split: if_splits)
  ultimately show ?thesis by simp
qed

function pull_loop :: "client_env \<Rightarrow> pull \<Rightarrow> sock \<Rightarrow> int \<times> pull" where
  "pull_loop e p s =
     (case pull_step e p s of
        Stop c p' \<Rightarrow> (c, p')
      | Go p' s' \<Rightarrow> pull_loop e p' s')"
  by pat_completeness auto
termination
  by (relation "measure (\<lambda>(e, p, s). length (pending s))") (auto dest: pull_step_consumes)

declare pull_loop.simps [simp del]

definition pull_start :: "files \<Rightarrow> int option list \<Rightarrow> pull" where
  "pull_start f0 ws =
     \<lparr>state = PULL_STATE_WAIT_META, out_open = False, out_path = [], out_exec = 0,
      crc_accum = 0xFFFFFFFF, files_done = 0, disk = ws, fs = f0\<rparr>"

definition get_files_request :: GetFilesHeader where
  "get_files_request =
     \<lparr>magic = MAGIC_NUMBER, version = PROTO_VERSION, pkt_type = client_pkt PKT_GET_FILES,
      header_size = of_nat sizeof_GetFilesHeader,
      gh_student_id = strncpy (replicate MAX_STUDENT_ID NUL) ''anonymous'' (MAX_STUDENT_ID - 1)\<rparr>"

text \<open>The exit code, what was written to the server, and the files left behind.\<close>

definition do_pull_mode ::
  "client_env \<Rightarrow> int option list \<Rightarrow> int option list \<Rightarrow> files \<Rightarrow> sock \<Rightarrow> int \<times> byte list \<times> pull" where
  "do_pull_mode e tries ws f0 s =
     (let p = pull_start f0 ws
      in if \<not> ce_connect e then (1, [], p)
         else let (ok, out, _) = write_all tries (enc_GetFilesHeader get_files_request)
              in if \<not> ok then (1, out, p)
                 else let (c, p') = pull_loop e p s in (c, out, p'))"

section \<open>Invariants of a download\<close>

text \<open>An invariant of the steps that go on, and what it gives when the loop stops.\<close>

lemma pull_loop_inv:
  assumes "I p" and "\<And>p s p' s'. I p \<Longrightarrow> pull_step e p s = Go p' s' \<Longrightarrow> I p'"
    and "\<And>p s c p'. I p \<Longrightarrow> pull_step e p s = Stop c p' \<Longrightarrow> post c p'"
  shows "post (fst (pull_loop e p s)) (snd (pull_loop e p s))"
  using assms(1)
proof (induction "length (pending s)" arbitrary: p s rule: less_induct)
  case less
  show ?case
  proof (cases "pull_step e p s")
    case (Go p' s')
    then have "post (fst (pull_loop e p' s')) (snd (pull_loop e p' s'))"
      using less.hyps [OF pull_step_consumes [OF Go]] assms(2) [OF less.prems Go] by blast
    with Go show ?thesis by (subst (1 2) pull_loop.simps) simp
  next
    case (Stop c p')
    with assms(3) [OF less.prems Stop] show ?thesis by (subst (1 2) pull_loop.simps) simp
  qed
qed

fun res_pull :: "pull_result \<Rightarrow> pull" where
  "res_pull (Go p s) = p"
| "res_pull (Stop c p) = p"

text \<open>A file directly in the current directory.\<close>

definition in_cwd :: "string \<Rightarrow> bool" where
  "in_cwd path \<longleftrightarrow> (\<exists>name. path = ''./'' @ name \<and> name \<noteq> [] \<and> CHR ''/'' \<notin> set name \<and> name \<noteq> ''..'')"

definition confined :: "files \<Rightarrow> pull \<Rightarrow> bool" where
  "confined f0 p \<longleftrightarrow>
     (\<forall>path. \<not> in_cwd path \<longrightarrow> fs p path = f0 path) \<and> (out_open p \<longrightarrow> in_cwd (out_path p))"

lemma confined_abort: "confined f0 p \<Longrightarrow> confined f0 (res_pull (pull_abort p))"
  by (auto simp: confined_def pull_abort_def)

lemma safe_path:
  assumes "is_safe_filename (cstr (take 127 name))"
  shows "in_cwd (''./'' @ cstr (take 127 name))" and "length (''./'' @ cstr (take 127 name)) < 512"
    and "snprintf 512 (''./'' @ cstr (take 127 name)) = ''./'' @ cstr (take 127 name)"
proof -
  show "in_cwd (''./'' @ cstr (take 127 name))"
    using assms by (auto simp: in_cwd_def safe_iff)
  have "length (cstr (take 127 name)) \<le> 127"
    using length_takeWhile_le [of "\<lambda>c. c \<noteq> NUL" "take 127 name"] by (simp add: cstr_def)
  then show "length (''./'' @ cstr (take 127 name)) < 512" by simp
  then show "snprintf 512 (''./'' @ cstr (take 127 name)) = ''./'' @ cstr (take 127 name)"
    by (simp add: snprintf_def)
qed

lemma confined_meta: "confined f0 p \<Longrightarrow> confined f0 (res_pull (on_meta e sz p s))"
proof -
  assume c: "confined f0 p"
  obtain r bs s1 where r: "recv_rest 144 s = (r, bs, s1)" by (cases "recv_rest 144 s") auto
  let ?name = "cstr (take 127 (mh_filename (dec_FileMetaHeader bs)))"
  show ?thesis
  proof (cases "sz = 144 \<and> \<not> r < 0 \<and> is_safe_filename ?name")
    case False
    then show ?thesis using confined_abort [OF c] by (auto simp: on_meta_def r)
  next
    case True
    note path = safe_path [of "mh_filename (dec_FileMetaHeader bs)"]
    show ?thesis
      using True path c by (simp add: on_meta_def r Let_def) (auto simp: confined_def pull_abort_def)
  qed
qed

lemma confined_chunk: "confined f0 p \<Longrightarrow> confined f0 (res_pull (on_chunk e sz p s))"
proof -
  assume c: "confined f0 p"
  have a: "confined f0 (p\<lparr>crc_accum := x, disk := ws, fs := append_out p out\<rparr>)" if "out_open p" for x ws out
    using c that by (auto simp: confined_def append_out_def split: option.splits)
  show ?thesis
    using confined_abort [OF c] confined_abort [OF a] a
    by (auto simp: on_chunk_def Let_def case_prod_beta)
qed

lemma confined_end: "confined f0 p \<Longrightarrow> confined f0 (res_pull (on_end e sz p s))"
  using confined_abort [of f0 p]
  by (auto simp: on_end_def Let_def case_prod_beta) (auto simp: confined_def)

lemma confined_stop: "confined f0 p \<Longrightarrow> confined f0 (res_pull (on_done sz p s))"
  "confined f0 p \<Longrightarrow> confined f0 (res_pull (on_error sz p s))"
  using confined_abort [of f0 p] by (auto simp: on_done_def on_error_def) (auto simp: confined_def)

lemma confined_step: "confined f0 p \<Longrightarrow> confined f0 (res_pull (pull_step e p s))"
  using confined_abort confined_meta confined_chunk confined_end confined_stop
  by (auto simp: pull_step_def Let_def case_prod_beta)

section \<open>The running checksum\<close>

definition crc_agrees :: "pull \<Rightarrow> bool" where
  "crc_agrees p \<longleftrightarrow>
     (out_open p \<longrightarrow>
       (\<exists>c x. fs p (out_path p) = Some (c, x) \<and> crc_accum p = crc_chunk 0xFFFFFFFF c))"

lemma write_all_ok: "write_all ws bs = (True, out, ws') \<Longrightarrow> out = bs"
  by (induction ws bs arbitrary: out ws' rule: write_all.induct)
    (auto split: if_splits option.splits prod.splits, metis append_take_drop_id)

lemma crc_chunk_split [simp]: "crc_chunk c (xs @ ys) = crc_chunk (crc_chunk c xs) ys"
  by (simp add: crc_chunk_append)

lemma crc_agrees_step: "crc_agrees p \<Longrightarrow> pull_step e p s = Go p' s' \<Longrightarrow> crc_agrees p'"
proof -
  assume c: "crc_agrees p" and go: "pull_step e p s = Go p' s'"
  have meta: "crc_agrees p'" if "on_meta e sz p s1 = Go p' s'" for sz s1
  proof -
    obtain r bs s2 where r: "recv_rest 144 s1 = (r, bs, s2)" by (cases "recv_rest 144 s1") auto
    note path = safe_path [of "mh_filename (dec_FileMetaHeader bs)"]
    show ?thesis
      using that path
      by (auto simp: on_meta_def r Let_def crc_agrees_def crc_chunk_def split: if_splits)
  qed
  have chunk: "crc_agrees p'" if "on_chunk e sz p s1 = Go p' s'" for sz s1
  proof -
    obtain r bs s2 where r: "recv_rest 16 s1 = (r, bs, s2)" by (cases "recv_rest 16 s1") auto
    obtain r2 buf s3 where r2: "recv_all (unat (kh_chunk_size (dec_FileChunkHeader bs))) s2 = (r2, buf, s3)"
      by (cases "recv_all (unat (kh_chunk_size (dec_FileChunkHeader bs))) s2") auto
    obtain ok out ws where w: "write_all (disk p) buf = (ok, out, ws)" by (cases "write_all (disk p) buf") auto
    show ?thesis
      using that c write_all_ok [of "disk p" buf out ws] w
      by (auto simp: on_chunk_def r r2 w Let_def crc_agrees_def append_out_def split: if_splits)
  qed
  have "end": "crc_agrees p'" if "on_end e sz p s1 = Go p' s'" for sz s1
    using that by (auto simp: on_end_def Let_def case_prod_beta crc_agrees_def split: if_splits)
  show ?thesis
    using go meta chunk "end" by (auto simp: pull_step_def Let_def case_prod_beta split: if_splits)
qed

text \<open>The states the loop goes through.\<close>

inductive pull_reaches :: "client_env \<Rightarrow> pull \<Rightarrow> sock \<Rightarrow> pull \<Rightarrow> sock \<Rightarrow> bool" for e p0 s0 where
  reach_start: "pull_reaches e p0 s0 p0 s0"
| reach_step: "pull_reaches e p0 s0 p s \<Longrightarrow> pull_step e p s = Go p' s' \<Longrightarrow> pull_reaches e p0 s0 p' s'"

lemma reached_crc_agrees: "pull_reaches e (pull_start f0 ws) s0 p s \<Longrightarrow> crc_agrees p"
  by (induction rule: pull_reaches.induct)
    (auto simp: pull_start_def crc_agrees_def [of "pull_start f0 ws", unfolded pull_start_def] intro: crc_agrees_step)

section \<open>Well-formed packets are accepted\<close>

lemma header_read:
  assumes "pending s = enc_common h @ rest" and "magic h = MAGIC_NUMBER"
  obtains s' where "recv_common_header s = (0, CommonHeader.truncate h, s')" and "pending s' = rest"
proof -
  obtain s' where "recv_all 8 s = (0, enc_common h, s')" "pending s' = rest"
    using exact.rd_packet [OF assms(1), of 8] by auto
  moreover have "dec_common (enc_common h) = CommonHeader.truncate h"
    using dec_common_enc [of h "[]"] by simp
  ultimately show ?thesis
    using that assms(2) by (simp add: recv_common_header_def CommonHeader.truncate_def)
qed

lemma rest_read:
  assumes "pending s = body @ rest" and "length body = n - 8"
  obtains s' where "recv_rest n s = (0, replicate 8 0 @ body, s')" and "pending s' = rest"
proof -
  obtain s' where "recv_all (n - 8) s = (0, body, s')" "pending s' = rest"
    using exact.rd_packet [OF assms(1) assms(2) [symmetric]] .
  then show ?thesis using that by (simp add: recv_rest_def)
qed

definition meta_name :: "FileMetaHeader \<Rightarrow> string" where
  "meta_name h = cstr (take 127 (mh_filename h))"

definition opened :: "pull \<Rightarrow> FileMetaHeader \<Rightarrow> pull" where
  "opened p h =
     p\<lparr>out_open := True, out_path := ''./'' @ meta_name h, out_exec := mh_is_executable h,
       fs := (fs p)(''./'' @ meta_name h \<mapsto> ([], case fs p (''./'' @ meta_name h) of Some (_, x) \<Rightarrow> x | None \<Rightarrow> False)),
       crc_accum := 0xFFFFFFFF, state := PULL_STATE_WAIT_CHUNK\<rparr>"

lemma step_meta:
  assumes "pending s = enc_FileMetaHeader h @ rest" and "wf_FileMetaHeader h"
    and "magic h = MAGIC_NUMBER" and "pkt_type h = server_pkt RES_FILE_META" and "header_size h = 144"
    and "is_safe_filename (meta_name h)" and "ce_open e (''./'' @ meta_name h)"
  obtains s' where "pull_step e p s = Go (opened p h) s'" and "pending s' = rest"
proof -
  define body where "body = bytes (mh_filename h) @ be32 (mh_file_size h) @ [mh_is_executable h]
       @ [mh_file_index h] @ [mh_total_files h] @ [mh_pad h]"
  have enc: "enc_FileMetaHeader h = enc_common h @ body" by (simp add: enc_FileMetaHeader_def body_def)
  have len: "length body = 144 - 8" using assms(2) by (simp add: body_def wf_FileMetaHeader_def)
  obtain s1 where s1: "recv_common_header s = (0, CommonHeader.truncate h, s1)" "pending s1 = body @ rest"
    using header_read [of s h "body @ rest"] assms(1,3) by (auto simp: enc)
  obtain s2 where s2: "recv_rest 144 s1 = (0, replicate 8 0 @ body, s2)" "pending s2 = rest"
    using rest_read [OF s1(2) len] .
  have dec: "mh_filename (dec_FileMetaHeader (replicate 8 0 @ body)) = mh_filename h"
    "mh_is_executable (dec_FileMetaHeader (replicate 8 0 @ body)) = mh_is_executable h"
    using assms(2) by (simp_all add: dec_FileMetaHeader_def body_def wf_FileMetaHeader_def chars_at_def wire_simps del: append_Cons)
  have "pull_step e p s = Go (opened p h) s2"
    using s1(1) s2(1) assms(4-7) safe_path [of "mh_filename h"]
    by (simp add: pull_step_def on_meta_def dec opened_def meta_name_def Let_def CommonHeader.truncate_def)
  then show ?thesis using that s2(2) by blast
qed

definition chunk_added :: "pull \<Rightarrow> byte list \<Rightarrow> pull" where
  "chunk_added p buf =
     p\<lparr>crc_accum := crc_chunk (crc_accum p) buf, fs := append_out p buf,
       disk := snd (snd (write_all (disk p) buf))\<rparr>"

lemma step_chunk:
  assumes "pending s = enc_FileChunkHeader h @ buf @ rest"
    and "magic h = MAGIC_NUMBER" and "pkt_type h = server_pkt RES_FILE_CHUNK" and "header_size h = 16"
    and "unat (kh_chunk_size h) = length buf" and "buf \<noteq> []" and "length buf \<le> 2 * FILE_CHUNK_SIZE"
    and "state p = PULL_STATE_WAIT_CHUNK" and "out_open p" and "ce_malloc e (length buf)"
    and "fst (write_all (disk p) buf)"
  obtains s' where "pull_step e p s = Go (chunk_added p buf) s'" and "pending s' = rest"
proof -
  define body where "body = be32 (kh_chunk_size h) @ be32 (kh_offset h)"
  have enc: "enc_FileChunkHeader h = enc_common h @ body" by (simp add: enc_FileChunkHeader_def body_def)
  have len: "length body = 16 - 8" by (simp add: body_def)
  obtain s1 where s1: "recv_common_header s = (0, CommonHeader.truncate h, s1)"
      "pending s1 = body @ buf @ rest"
    using header_read [of s h "body @ buf @ rest"] assms(1,2) by (auto simp: enc)
  obtain s2 where s2: "recv_rest 16 s1 = (0, replicate 8 0 @ body, s2)" "pending s2 = buf @ rest"
    using rest_read [OF s1(2) len] .
  obtain s3 where s3: "recv_all (length buf) s2 = (0, buf, s3)" "pending s3 = rest"
    using exact.rd_packet [OF s2(2) refl] by auto
  have dec: "kh_chunk_size (dec_FileChunkHeader (replicate 8 0 @ body)) = kh_chunk_size h"
    by (simp add: dec_FileChunkHeader_def body_def wire_simps del: append_Cons)
  obtain ws out where w: "write_all (disk p) buf = (True, out, ws)"
    using assms(11) by (cases "write_all (disk p) buf") auto
  then have "out = buf" by (rule write_all_ok)
  with w have "pull_step e p s = Go (chunk_added p buf) s3"
    using s1(1) s2(1) s3(1) assms(3-10)
    by (simp add: pull_step_def on_chunk_def dec chunk_added_def Let_def CommonHeader.truncate_def)
  then show ?thesis using that s3(2) by blast
qed

definition closed :: "client_env \<Rightarrow> pull \<Rightarrow> pull" where
  "closed e p =
     p\<lparr>out_open := False, state := PULL_STATE_WAIT_META, files_done := files_done p + 1,
       fs := (fs p)(out_path p :=
         map_option (\<lambda>(c, x). (c, x \<or> out_exec p \<noteq> 0 \<and> ce_chmod e (out_path p))) (fs p (out_path p)))\<rparr>"

lemma step_end:
  assumes "pending s = enc_FileEndHeader h @ rest" and "wf_FileEndHeader h"
    and "magic h = MAGIC_NUMBER" and "pkt_type h = server_pkt RES_FILE_END" and "header_size h = 16"
    and "out_open p" and "eh_checksum h = NOT (crc_accum p)"
  obtains s' where "pull_step e p s = Go (closed e p) s'" and "pending s' = rest"
proof -
  define body where "body = be32 (eh_checksum h) @ [eh_total_files h] @ eh_pad h"
  have enc: "enc_FileEndHeader h = enc_common h @ body" by (simp add: enc_FileEndHeader_def body_def)
  have len: "length body = 16 - 8" using assms(2) by (simp add: body_def wf_FileEndHeader_def)
  obtain s1 where s1: "recv_common_header s = (0, CommonHeader.truncate h, s1)" "pending s1 = body @ rest"
    using header_read [of s h "body @ rest"] assms(1,3) by (auto simp: enc)
  obtain s2 where s2: "recv_rest 16 s1 = (0, replicate 8 0 @ body, s2)" "pending s2 = rest"
    using rest_read [OF s1(2) len] .
  have dec: "eh_checksum (dec_FileEndHeader (replicate 8 0 @ body)) = eh_checksum h"
    by (simp add: dec_FileEndHeader_def body_def wire_simps del: append_Cons)
  have noexec: "(fs p)(out_path p := map_option (\<lambda>(c, x). (c, x)) (fs p (out_path p))) = fs p"
    by (cases "fs p (out_path p)") auto
  have "pull_step e p s = Go (closed e p) s2"
    using s1(1) s2(1) assms(4-7) noexec
    by (auto simp: pull_step_def on_end_def dec closed_def Let_def CommonHeader.truncate_def)
  then show ?thesis using that s2(2) by blast
qed

lemma step_done:
  assumes "pending s = enc_FileEndHeader h @ rest"
    and "magic h = MAGIC_NUMBER" and "pkt_type h = server_pkt RES_FILE_DONE" and "header_size h = 16"
  shows "pull_step e p s = Stop 0 p"
proof -
  obtain s1 where "recv_common_header s = (0, CommonHeader.truncate h, s1)"
    using header_read [of s h] assms(1,2) by (auto simp: enc_FileEndHeader_def)
  with assms(3,4) show ?thesis
    by (simp add: pull_step_def on_done_def CommonHeader.truncate_def)
qed

section \<open>Properties\<close>

text \<open>C6: whatever a server sends, and however the network and the disk behave, a download ends
  with exit code 0 or 1, and the only files it creates, overwrites or removes are direct
  entries of the current directory: every path with another directory in it, and \<open>..\<close>, is as
  before.\<close>

theorem pull_stays_in_cwd:
  "let (code, request, p) = do_pull_mode e tries ws f0 s
   in (code = 0 \<or> code = 1) \<and>
      (\<forall>path. fs p path \<noteq> f0 path \<longrightarrow>
         (\<exists>name. path = ''./'' @ name \<and> name \<noteq> [] \<and> CHR ''/'' \<notin> set name \<and> name \<noteq> ''..''))"
proof -
  have start: "confined f0 (pull_start f0 ws)" by (simp add: confined_def pull_start_def)
  let ?post = "\<lambda>c p. (c = 0 \<or> c = 1) \<and> confined f0 p"
  have codes: "c = 0 \<or> c = 1" if "pull_step e p s = Stop c p'" for p s c p'
    using that
    by (auto simp: pull_step_def on_meta_def on_chunk_def on_end_def on_done_def on_error_def
        pull_abort_def Let_def case_prod_beta split: if_splits)
  have "?post (fst (pull_loop e (pull_start f0 ws) s)) (snd (pull_loop e (pull_start f0 ws) s))"
    by (rule pull_loop_inv [of "confined f0", OF start])
      (metis confined_step res_pull.simps(1), metis confined_step res_pull.simps(2) codes)
  then show ?thesis
    using start by (auto simp: do_pull_mode_def Let_def case_prod_beta confined_def in_cwd_def)
qed

theorem pull_stays_in_cwd_witness:
  "let (code, request, p) = do_pull_mode \<lparr>ce_connect = True, ce_open = \<lambda>_. True, ce_malloc = \<lambda>_. True, ce_chmod = \<lambda>_. True\<rparr>
         [] [] [''./../x'' \<mapsto> ([7], False)] \<lparr>rx = [[1, 2], [3]], rx_reset = True\<rparr>
   in fs p ''./../x'' = Some ([7], False)"
proof -
  let ?e = "\<lparr>ce_connect = True, ce_open = \<lambda>_. True, ce_malloc = \<lambda>_. True, ce_chmod = \<lambda>_. True\<rparr>"
  let ?s = "\<lparr>rx = [[1, 2], [3]], rx_reset = True\<rparr>"
  let ?f0 = "[''./../x'' \<mapsto> ([7], False)]"
  obtain c r p where d: "do_pull_mode ?e [] [] ?f0 ?s = (c, r, p)"
    by (cases "do_pull_mode ?e [] [] ?f0 ?s") auto
  have "fs p ''./../x'' \<noteq> ?f0 ''./../x'' \<longrightarrow>
      (\<exists>name. ''./../x'' = ''./'' @ name \<and> name \<noteq> [] \<and> CHR ''/'' \<notin> set name \<and> name \<noteq> ''..'')"
    using pull_stays_in_cwd [of ?e "[]" "[]" ?f0 ?s] unfolding d Let_def prod.case by blast
  moreover have "\<not> (\<exists>name. ''./../x'' = ''./'' @ name \<and> name \<noteq> [] \<and> CHR ''/'' \<notin> set name \<and> name \<noteq> ''..'')"
    by auto
  ultimately have "fs p ''./../x'' = ?f0 ''./../x''" by blast
  then have "fs p ''./../x'' = Some ([7], False)" by simp
  then show ?thesis unfolding Let_def d by simp
qed

text \<open>The checksum the next packet announces, if that is a complete end-of-file packet.\<close>

definition announced :: "sock \<Rightarrow> u32 option" where
  "announced s =
     (let (r, ch, s1) = recv_common_header s;
          (r', bs, s2) = recv_rest sizeof_FileEndHeader s1
      in if r < 0 \<or> pkt_type ch \<noteq> server_pkt RES_FILE_END \<or> header_size ch \<noteq> of_nat sizeof_FileEndHeader \<or> r' < 0
         then None else Some (eh_checksum (dec_FileEndHeader bs)))"

lemma abort_counts: "pull_abort p = Go p' s' \<Longrightarrow> False" "pull_abort p = Stop c p' \<Longrightarrow> files_done p' = files_done p"
  by (auto simp: pull_abort_def split: if_splits)

lemma only_ends_count:
  "on_meta e sz p s = Go p' s' \<Longrightarrow> files_done p' = files_done p"
  "on_chunk e sz p s = Go p' s' \<Longrightarrow> files_done p' = files_done p"
  "on_meta e sz p s = Stop c p' \<Longrightarrow> files_done p' = files_done p"
  "on_chunk e sz p s = Stop c p' \<Longrightarrow> files_done p' = files_done p"
  "on_end e sz p s = Stop c p' \<Longrightarrow> files_done p' = files_done p"
  "on_done sz p s = Stop c p' \<Longrightarrow> files_done p' = files_done p"
  "on_error sz p s = Stop c p' \<Longrightarrow> files_done p' = files_done p"
  by (auto simp: on_meta_def on_chunk_def on_end_def on_done_def on_error_def Let_def case_prod_beta
      dest: abort_counts split: if_splits)

lemma stop_counts: "pull_step e p s = Stop c p' \<Longrightarrow> files_done p' = files_done p"
  by (auto simp: pull_step_def Let_def case_prod_beta dest: abort_counts only_ends_count split: if_splits)

lemma go_counts:
  assumes "pull_step e p s = Go p' s'"
  shows "case announced s of
      None \<Rightarrow> files_done p' = files_done p
    | Some crc \<Rightarrow> out_open p \<and>
        (if crc = NOT (crc_accum p)
         then files_done p' = files_done p + 1 \<and>
           fs p' (out_path p) = map_option (\<lambda>(c, x). (c, x \<or> out_exec p \<noteq> 0 \<and> ce_chmod e (out_path p))) (fs p (out_path p))
         else files_done p' = files_done p \<and> fs p' (out_path p) = None)"
proof -
  obtain r ch s1 where h: "recv_common_header s = (r, ch, s1)" by (cases "recv_common_header s") auto
  obtain r' bs s2 where b: "recv_rest sizeof_FileEndHeader s1 = (r', bs, s2)"
    by (cases "recv_rest sizeof_FileEndHeader s1") auto
  show ?thesis
  proof (cases "\<not> r < 0 \<and> pkt_type ch = server_pkt RES_FILE_END")
    case True
    then have "on_end e (header_size ch) p s1 = Go p' s'" using assms by (simp add: pull_step_def h)
    then show ?thesis
      using True b
      by (auto simp: announced_def h on_end_def Let_def option.map_id [unfolded id_def] option.map_id dest: abort_counts split: if_splits)
  next
    case False
    then have "announced s = None" by (auto simp: announced_def h b)
    moreover have "files_done p' = files_done p"
      using assms False by (auto simp: pull_step_def h dest: abort_counts only_ends_count split: if_splits)
    ultimately show ?thesis by simp
  qed
qed

text \<open>C22: for every stream and at every packet, the number of files counted as downloaded changes only
  at the end of a file, and then by one and only if the checksum of the bytes on disk is the one the
  server announced; the file then stays as it is. If the checksums differ the file is removed and
  not counted. No other packet, and no way to end, counts anything; in particular a file that the
  server never finishes is not counted.\<close>

theorem pull_counts_verified_files_only:
  assumes "pull_reaches e (pull_start f0 ws) s0 p s"
  shows "case pull_step e p s of
      Stop c p' \<Rightarrow> files_done p' = files_done p
    | Go p' s' \<Rightarrow>
        (case announced s of
           None \<Rightarrow> files_done p' = files_done p
         | Some checksum \<Rightarrow> \<exists>content x. fs p (out_path p) = Some (content, x) \<and>
             (if crc32_buf content = checksum
              then files_done p' = files_done p + 1 \<and> (\<exists>x'. fs p' (out_path p) = Some (content, x'))
              else files_done p' = files_done p \<and> fs p' (out_path p) = None))"
proof (cases "pull_step e p s")
  case (Go p' s')
  show ?thesis
  proof (cases "announced s")
    case (Some checksum)
    then have op: "out_open p" using go_counts [OF Go] by simp
    then obtain c x where f: "fs p (out_path p) = Some (c, x)" and crc: "NOT (crc_accum p) = crc32_buf c"
      using reached_crc_agrees [OF assms] by (auto simp: crc_agrees_def crc32_buf_def crc_chunk_def)
    then show ?thesis using go_counts [OF Go] Go Some by (auto split: if_splits)
  qed (use go_counts [OF Go] Go in simp)
qed (simp add: stop_counts)

text \<open>A stream of one empty file, and the states it leads through.\<close>

definition demo_meta :: FileMetaHeader where
  "demo_meta =
     \<lparr>magic = MAGIC_NUMBER, version = PROTO_VERSION, pkt_type = server_pkt RES_FILE_META,
      header_size = 144, mh_filename = ''a'' @ replicate 127 NUL, mh_file_size = 0,
      mh_is_executable = 0, mh_file_index = 1, mh_total_files = 1, mh_pad = 0\<rparr>"

definition demo_end :: FileEndHeader where
  "demo_end =
     \<lparr>magic = MAGIC_NUMBER, version = PROTO_VERSION, pkt_type = server_pkt RES_FILE_END,
      header_size = 16, eh_checksum = 0, eh_total_files = 0, eh_pad = [0, 0, 0]\<rparr>"

definition demo_env :: client_env where
  "demo_env = \<lparr>ce_connect = True, ce_open = \<lambda>_. True, ce_malloc = \<lambda>_. True, ce_chmod = \<lambda>_. True\<rparr>"

lemma demo_name: "meta_name demo_meta = ''a''"
  by (simp add: meta_name_def demo_meta_def cstr_def)

lemma demo_wf: "wf_FileMetaHeader demo_meta" "wf_FileEndHeader demo_end"
  by (simp_all add: wf_FileMetaHeader_def wf_FileEndHeader_def demo_meta_def demo_end_def)

lemma demo_ok: "magic demo_meta = MAGIC_NUMBER" "pkt_type demo_meta = server_pkt RES_FILE_META"
  "header_size demo_meta = 144" "is_safe_filename (meta_name demo_meta)"
  "ce_open demo_env (''./'' @ meta_name demo_meta)"
  unfolding demo_name by (simp_all add: demo_meta_def demo_env_def safe_iff cstr_def)

theorem pull_counts_verified_files_only_witness:
  "\<exists>p s p' s'. pull_reaches demo_env (pull_start (\<lambda>_. None) [])
       \<lparr>rx = [enc_FileMetaHeader demo_meta @ enc_FileEndHeader demo_end], rx_reset = False\<rparr> p s \<and>
     pull_step demo_env p s = Go p' s' \<and> files_done p' = 1"
proof -
  let ?s0 = "\<lparr>rx = [enc_FileMetaHeader demo_meta @ enc_FileEndHeader demo_end], rx_reset = False\<rparr>"
  let ?p0 = "pull_start (\<lambda>_. None) []"
  have "pending ?s0 = enc_FileMetaHeader demo_meta @ enc_FileEndHeader demo_end"
    by (simp add: pending_def)
  then obtain s1 where s1: "pull_step demo_env ?p0 ?s0 = Go (opened ?p0 demo_meta) s1"
      "pending s1 = enc_FileEndHeader demo_end"
    by (rule step_meta [OF _ demo_wf(1) demo_ok])
  let ?p1 = "opened ?p0 demo_meta"
  have crc: "crc_accum ?p1 = 0xFFFFFFFF" "out_open ?p1" "files_done ?p1 = 0"
    by (simp_all add: opened_def pull_start_def)
  have pe: "pending s1 = enc_FileEndHeader demo_end @ []" using s1(2) by simp
  have ends: "magic demo_end = MAGIC_NUMBER" "pkt_type demo_end = server_pkt RES_FILE_END"
    "header_size demo_end = 16" "eh_checksum demo_end = NOT (crc_accum ?p1)"
    unfolding crc(1) by (simp_all add: demo_end_def)
  obtain s2 where s2: "pull_step demo_env ?p1 s1 = Go (closed demo_env ?p1) s2"
    by (rule step_end [OF pe demo_wf(2) ends(1-3) crc(2) ends(4)])
  have r1: "pull_reaches demo_env ?p0 ?s0 ?p1 s1"
    by (rule reach_step [OF reach_start s1(1)])
  define body where "body = be32 (eh_checksum demo_end) @ [eh_total_files demo_end] @ eh_pad demo_end"
  have eb: "pending s1 = enc_common demo_end @ body @ []"
    using s1(2) by (simp add: enc_FileEndHeader_def body_def)
  obtain s3 where s3: "recv_common_header s1 = (0, CommonHeader.truncate demo_end, s3)"
      "pending s3 = body @ []"
    using header_read [OF eb] by (auto simp: demo_end_def)
  obtain s4 where s4: "recv_rest 16 s3 = (0, replicate 8 0 @ body, s4)"
    using rest_read [OF s3(2), of 16] by (auto simp: body_def demo_end_def)
  have "pkt_type (CommonHeader.truncate demo_end) = server_pkt RES_FILE_END"
    by (simp add: demo_end_def CommonHeader.truncate_def)
  then have an: "announced s1 = Some (eh_checksum (dec_FileEndHeader (replicate 8 0 @ body)))"
    using s3(1) s4 by (simp add: announced_def demo_end_def CommonHeader.truncate_def)
  from pull_counts_verified_files_only [OF r1] s2 an
  have "files_done (closed demo_env ?p1) = 1 \<or> files_done (closed demo_env ?p1) = 0"
    by (auto simp: crc split: if_splits)
  then have "files_done (closed demo_env ?p1) = 1" by (simp add: closed_def)
  with r1 s2 show ?thesis by blast
qed

text \<open>The receiver does not insist that a file is finished. If the server announces a file,
  sends a part of it and then reports completion, the download ends with exit code 0, no
  file counted, and the partial file is left in the directory, its checksum never compared.\<close>

theorem done_in_mid_file_succeeds:
  assumes "pending s = enc_FileMetaHeader m @ enc_FileChunkHeader k @ buf @ enc_FileEndHeader d"
    and "wf_FileMetaHeader m" and "is_safe_filename (meta_name m)" and "ce_open e (''./'' @ meta_name m)"
    and "ce_malloc e (length buf)" and "buf \<noteq> []" and "length buf \<le> 2 * FILE_CHUNK_SIZE"
    and "unat (kh_chunk_size k) = length buf"
    and "magic m = MAGIC_NUMBER" "pkt_type m = server_pkt RES_FILE_META" "header_size m = 144"
    and "magic k = MAGIC_NUMBER" "pkt_type k = server_pkt RES_FILE_CHUNK" "header_size k = 16"
    and "magic d = MAGIC_NUMBER" "pkt_type d = server_pkt RES_FILE_DONE" "header_size d = 16"
  shows "let (code, p) = pull_loop e (pull_start f0 []) s
         in code = 0 \<and> files_done p = 0 \<and> (\<exists>x. fs p (''./'' @ meta_name m) = Some (buf, x))"
proof -
  let ?p0 = "pull_start f0 []"
  obtain s1 where s1: "pull_step e ?p0 s = Go (opened ?p0 m) s1"
      "pending s1 = enc_FileChunkHeader k @ buf @ enc_FileEndHeader d"
    by (rule step_meta [OF assms(1,2) assms(9-11) assms(3,4)])
  let ?p1 = "opened ?p0 m"
  have p1: "state ?p1 = PULL_STATE_WAIT_CHUNK" "out_open ?p1" "fst (write_all (disk ?p1) buf)"
    by (simp_all add: opened_def pull_start_def)
  obtain s2 where s2: "pull_step e ?p1 s1 = Go (chunk_added ?p1 buf) s2" "pending s2 = enc_FileEndHeader d @ []"
    by (rule step_chunk [OF s1(2) assms(12-14) assms(8,6,7) p1(1,2) assms(5) p1(3)]) simp
  have "pull_step e (chunk_added ?p1 buf) s2 = Stop 0 (chunk_added ?p1 buf)"
    by (rule step_done [OF s2(2) assms(15-17)])
  then have "pull_loop e ?p0 s = (0, chunk_added ?p1 buf)"
    using s1(1) s2(1)
    by (simp add: pull_loop.simps [of e ?p0] pull_loop.simps [of e ?p1] pull_loop.simps [of e "chunk_added ?p1 buf"])
  then show ?thesis
    by (simp add: chunk_added_def opened_def pull_start_def append_out_def)
qed

theorem done_in_mid_file_succeeds_witness:
  "let k = \<lparr>magic = MAGIC_NUMBER, version = PROTO_VERSION, pkt_type = server_pkt RES_FILE_CHUNK,
            header_size = 16, kh_chunk_size = 2, kh_offset = 0\<rparr>;
       d = demo_end\<lparr>pkt_type := server_pkt RES_FILE_DONE\<rparr>;
       s = \<lparr>rx = [enc_FileMetaHeader demo_meta @ enc_FileChunkHeader k @ [1, 2] @ enc_FileEndHeader d],
            rx_reset = False\<rparr>;
       (code, p) = pull_loop demo_env (pull_start (\<lambda>_. None) []) s
   in code = 0 \<and> files_done p = 0 \<and> (\<exists>x. fs p ''./a'' = Some ([1, 2], x))"
proof -
  let ?k = "\<lparr>magic = MAGIC_NUMBER, version = PROTO_VERSION, pkt_type = server_pkt RES_FILE_CHUNK,
            header_size = 16, kh_chunk_size = 2, kh_offset = 0\<rparr>"
  let ?d = "demo_end\<lparr>pkt_type := server_pkt RES_FILE_DONE\<rparr>"
  let ?s = "\<lparr>rx = [enc_FileMetaHeader demo_meta @ enc_FileChunkHeader ?k @ [1, 2] @ enc_FileEndHeader ?d],
            rx_reset = False\<rparr>"
  have "pending ?s = enc_FileMetaHeader demo_meta @ enc_FileChunkHeader ?k @ [1, 2] @ enc_FileEndHeader ?d"
    by (simp add: pending_def)
  from done_in_mid_file_succeeds [OF this demo_wf(1), of demo_env "\<lambda>_. None"]
  show ?thesis
    using demo_ok by (simp add: demo_name Let_def) (simp add: demo_env_def demo_end_def)
qed

end
