(* ===== verification/Pull_Transfer.thy ===== *)
theory Pull_Transfer
  imports File_Pull Pull_Client
begin

text \<open>
  A pull from end to end: the byte stream \<open>handle_file_pull\<close> is meant to send (\<open>pull_stream\<close>),
  what it sends when the connection fails somewhere, and the files \<open>do_pull_mode\<close> restores
  from a complete stream. Short sends, short reads and interrupted calls are allowed
  throughout; only failing ones are excluded where a transfer is to succeed.
\<close>

section \<open>The intended stream\<close>

fun chunk_stream :: "byte list list \<Rightarrow> u32 \<Rightarrow> byte list" where
  "chunk_stream [] offset = []"
| "chunk_stream (buf # reads) offset =
     enc_FileChunkHeader (file_chunk (length buf) offset) @ buf
       @ chunk_stream reads (offset + of_nat (length buf))"

definition file_stream :: "dfile \<Rightarrow> string \<Rightarrow> byte \<Rightarrow> byte \<Rightarrow> byte list" where
  "file_stream f filename index total_n =
     enc_FileMetaHeader (file_meta filename (f_size f) (f_exec f) index total_n)
       @ chunk_stream (f_reads f) 0
       @ enc_FileEndHeader (file_end (crc32_buf (concat (f_reads f))))"

fun files_stream :: "dist \<Rightarrow> (string \<times> string) list \<Rightarrow> nat \<Rightarrow> nat \<Rightarrow> byte list" where
  "files_stream d [] i n = []"
| "files_stream d ((path, name) # rest) i n =
     file_stream (the (d_file d path)) name (of_nat (i + 1)) (of_nat n) @ files_stream d rest (i + 1) n"

definition sendable :: "dist \<Rightarrow> string \<Rightarrow> bool" where
  "sendable d path \<longleftrightarrow>
     (case d_file d path of
        None \<Rightarrow> False
      | Some f \<Rightarrow> f_opens f \<and> f_fstat f \<and> f_size f \<le> MAX_FILE_SIZE_BYTES \<and> f_malloc f)"

section \<open>Sending over any connection\<close>

lemma prefix_then: "prefix p b \<Longrightarrow> prefix (a @ p) (a @ b)"
  by simp

lemma send_chunks_result:
  "send_chunks reads crc off l = (ok, crc', l') \<Longrightarrow>
   (if ok then sent l' = sent l @ chunk_stream reads off \<and> crc' = crc_chunk crc (concat reads)
    else \<exists>p. prefix p (chunk_stream reads off) \<and> sent l' = sent l @ p)"
proof (induction reads crc off l arbitrary: ok crc' l' rule: send_chunks.induct)
  case (1 crc off l)
  then show ?case by (simp add: crc_chunk_def)
next
  case (2 buf reads crc off l)
  let ?h = "enc_FileChunkHeader (file_chunk (length buf) off)"
  let ?rest = "chunk_stream reads (off + of_nat (length buf))"
  obtain r1 l1 where s1: "send_all ?h l = (r1, l1)" by (cases "send_all ?h l")
  show ?case
  proof (cases "r1 < 0")
    case True
    with 2(2) s1 net.sent_nothing_extra [OF s1, of "buf @ ?rest"] show ?thesis by auto
  next
    case False
    have o1: "sent l1 = sent l @ ?h" by (rule net.sent_then [OF s1 False])
    obtain r2 l2 where s2: "send_all buf l1 = (r2, l2)" by (cases "send_all buf l1")
    show ?thesis
    proof (cases "r2 < 0")
      case True
      obtain q where "prefix q (buf @ ?rest)" "sent l2 = sent l1 @ q"
        using net.sent_nothing_extra [OF s2, of ?rest] by blast
      with True False 2(2) s1 s2 o1 show ?thesis
        by (auto intro!: exI [of _ "?h @ q"])
    next
      case r2: False
      have o2: "sent l2 = sent l1 @ buf" by (rule net.sent_then [OF s2 r2])
      have rec: "send_chunks reads (crc_chunk crc buf) (off + of_nat (length buf)) l2 = (ok, crc', l')"
        using 2(2) s1 s2 False r2 by simp
      note ih = 2(1) [OF refl s1 [symmetric] refl False s2 [symmetric] refl r2 rec]
      show ?thesis
      proof (cases ok)
        case True
        with ih o1 o2 show ?thesis by simp
      next
        case False
        with ih obtain q where "prefix q ?rest" "sent l' = sent l2 @ q" by auto
        with False o1 o2 show ?thesis by (auto intro!: exI [of _ "?h @ buf @ q"])
      qed
    qed
  qed
qed

lemma send_one_file_result:
  assumes "send_one_file d path name i n l = (r, l')"
  shows "(r = 0 \<and> sendable d path \<and> sent l' = sent l @ file_stream (the (d_file d path)) name i n) \<or>
         (r < 0 \<and> (\<exists>p. prefix p (file_stream (the (d_file d path)) name i n) \<and> sent l' = sent l @ p))"
proof (cases "\<exists>f. d_file d path = Some f \<and> f_opens f \<and> f_fstat f \<and> f_size f \<le> MAX_FILE_SIZE_BYTES")
  case False
  then have "r = -1 \<and> l' = l"
    using assms by (auto simp: send_one_file_def split: option.splits if_splits)
  then show ?thesis by auto
next
  case True
  then obtain f where f: "d_file d path = Some f" "f_opens f" "f_fstat f" "\<not> MAX_FILE_SIZE_BYTES < f_size f"
    by auto
  let ?m = "enc_FileMetaHeader (file_meta name (f_size f) (f_exec f) i n)"
  let ?c = "chunk_stream (f_reads f) 0"
  let ?e = "enc_FileEndHeader (file_end (crc32_buf (concat (f_reads f))))"
  have fs: "file_stream (the (d_file d path)) name i n = ?m @ ?c @ ?e"
    by (simp add: file_stream_def f)
  obtain r1 l1 where s1: "send_all ?m l = (r1, l1)" by (cases "send_all ?m l")
  show ?thesis
  proof (cases "r1 < 0")
    case True
    with assms f s1 have "r = -1" "l' = l1" by (simp_all add: send_one_file_def)
    then show ?thesis using net.sent_nothing_extra [OF s1, of "?c @ ?e"] by (auto simp: fs)
  next
    case False
    have o1: "sent l1 = sent l @ ?m" by (rule net.sent_then [OF s1 False])
    show ?thesis
    proof (cases "f_malloc f")
      case no: False
      with assms f s1 False have "r = -1" "l' = l1" by (simp_all add: send_one_file_def)
      with o1 show ?thesis by (auto simp: fs)
    next
      case mem: True
      obtain ok crc l2 where s2: "send_chunks (f_reads f) 0xFFFFFFFF 0 l1 = (ok, crc, l2)"
        by (cases "send_chunks (f_reads f) 0xFFFFFFFF 0 l1") auto
      note res = send_chunks_result [OF s2]
      show ?thesis
      proof (cases ok)
        case no: False
        with assms f s1 False mem s2 have "r = -1" "l' = l2" by (simp_all add: send_one_file_def)
        moreover obtain q where "prefix q ?c" "sent l2 = sent l1 @ q" using res no by auto
        ultimately show ?thesis
          using o1 by (auto simp: fs intro!: exI [of _ "?m @ q"] intro: prefix_prefix)
      next
        case True
        have crc: "NOT crc = crc32_buf (concat (f_reads f))"
          using res True by (simp add: crc32_buf_def crc_chunk_def)
        have s3: "send_all ?e l2 = (r, l')"
          using assms f s1 False mem s2 True crc by (simp add: send_one_file_def)
        have o2: "sent l2 = sent l @ ?m @ ?c" using res True o1 by simp
        have sd: "sendable d path" using f mem by (simp add: sendable_def)
        show ?thesis
        proof (cases "r = 0")
          case True
          with s3 have "sent l' = sent l2 @ ?e" using net.all_sent by blast
          with True sd o2 show ?thesis by (simp add: fs)
        next
          case False
          with net.outcome [OF s3] have "r < 0" by simp
          moreover obtain q where "prefix q ?e" "sent l' = sent l2 @ q"
            using net.part_sent [OF s3] by blast
          ultimately show ?thesis using o2 by (auto simp: fs intro!: exI [of _ "?m @ ?c @ q"])
        qed
      qed
    qed
  qed
qed

lemma send_pull_error_result: "\<exists>q. prefix q (enc_FileErrorHeader (pull_error text)) \<and> sent (send_pull_error text l) = sent l @ q"
  unfolding send_pull_error_def using net.part_sent [of _ l] by (metis prod.collapse)

lemma send_files_result:
  "send_files d files i n l = (ok, l') \<Longrightarrow>
   (if ok then (\<forall>(path, name) \<in> set files. sendable d path) \<and> sent l' = sent l @ files_stream d files i n
    else \<exists>p q text. prefix p (files_stream d files i n) \<and> prefix q (enc_FileErrorHeader (pull_error text)) \<and>
           sent l' = sent l @ p @ q)"
proof (induction d files i n l arbitrary: ok l' rule: send_files.induct)
  case (1 d i n l)
  then show ?case by simp
next
  case (2 d path name files i n l)
  let ?f = "file_stream (the (d_file d path)) name (of_nat (i + 1)) (of_nat n)"
  obtain r l1 where s: "send_one_file d path name (of_nat (i + 1)) (of_nat n) l = (r, l1)"
    by (cases "send_one_file d path name (of_nat (i + 1)) (of_nat n) l")
  show ?case
  proof (cases "r < 0")
    case True
    then obtain p where p: "prefix p ?f" "sent l1 = sent l @ p"
      using send_one_file_result [OF s] by auto
    have res: "\<not> ok" "l' = send_pull_error (msg_send_failed @ take (MAX_FILENAME - 1) name) l1"
      using 2(2) s True by (auto simp: Let_def)
    obtain q where "prefix q (enc_FileErrorHeader (pull_error (msg_send_failed @ take (MAX_FILENAME - 1) name)))"
        "sent l' = sent l1 @ q"
      using send_pull_error_result res(2) by blast
    moreover have "prefix p (files_stream d ((path, name) # files) i n)"
      using p(1) by (simp add: prefix_prefix)
    ultimately show ?thesis using res(1) p(2) by auto
  next
    case False
    then have o1: "sent l1 = sent l @ ?f" "sendable d path"
      using send_one_file_result [OF s] by auto
    have rec: "send_files d files (i + 1) n l1 = (ok, l')"
      using 2(2) s False by simp
    note ih = 2(1) [OF s [symmetric] refl False rec]
    show ?thesis
    proof (cases ok)
      case True
      with ih o1 show ?thesis by simp
    next
      case False
      with ih obtain p q msg where "prefix p (files_stream d files (i + 1) n)"
          "prefix q (enc_FileErrorHeader (pull_error msg))" "sent l' = sent l1 @ p @ q"
        by auto
      then have "prefix (?f @ p) (files_stream d ((path, name) # files) i n)"
          "prefix q (enc_FileErrorHeader (pull_error msg))" "sent l' = sent l @ (?f @ p) @ q"
        using o1(1) by simp_all
      then have "\<exists>p q text. prefix p (files_stream d ((path, name) # files) i n) \<and>
          prefix q (enc_FileErrorHeader (pull_error text)) \<and> sent l' = sent l @ p @ q"
        by blast
      with False show ?thesis by (simp only: if_not_P if_False)
    qed
  qed
qed

section \<open>Sending over a connection that holds\<close>

definition holds :: "link \<Rightarrow> bool" where
  "holds l \<longleftrightarrow> (\<forall>r \<in> set (tx l). 0 < r)"

lemma send_holds: "holds l \<Longrightarrow> bs \<noteq> [] \<Longrightarrow> send bs l = (n, l') \<Longrightarrow> 0 < n \<and> holds l'"
  by (cases "tx l") (auto simp: holds_def send_def min_def split: if_splits)

lemma send_all_holds: "holds l \<Longrightarrow> fst (send_all bs l) = 0 \<and> holds (snd (send_all bs l))"
proof (induction bs l rule: send_all.induct)
  case (1 bs l)
  show ?case
  proof (cases "bs = []")
    case True
    with 1 show ?thesis by (simp add: send_all.simps)
  next
    case False
    obtain n l1 where s: "send bs l = (n, l1)" by (cases "send bs l")
    with send_holds [OF 1(2) False s] 1(1) [OF False s [symmetric]] False
    show ?thesis by (subst (1 2) send_all.simps) simp
  qed
qed

lemma send_all_holds': "holds l \<Longrightarrow> send_all bs l = (r, l') \<Longrightarrow> r = 0 \<and> holds l'"
  using send_all_holds [of l bs] by simp

lemma send_chunks_holds: "holds l \<Longrightarrow> send_chunks reads crc off l = (ok, crc', l') \<Longrightarrow> ok \<and> holds l'"
proof (induction reads crc off l arbitrary: ok crc' l' rule: send_chunks.induct)
  case (2 buf reads crc off l)
  obtain r1 l1 where s1: "send_all (enc_FileChunkHeader (file_chunk (length buf) off)) l = (r1, l1)"
    by (cases "send_all (enc_FileChunkHeader (file_chunk (length buf) off)) l")
  obtain r2 l2 where s2: "send_all buf l1 = (r2, l2)" by (cases "send_all buf l1")
  have h1: "r1 = 0" "holds l1" using send_all_holds' [OF 2(2) s1] by simp_all
  have h2: "r2 = 0" "holds l2" using send_all_holds' [OF h1(2) s2] by simp_all
  show ?case
    using 2(1) [OF refl s1 [symmetric] refl _ s2 [symmetric] refl _ h2(2)] 2(3) s1 s2 h1 h2 by simp
qed simp

lemma send_one_file_holds:
  "holds l \<Longrightarrow> sendable d path \<Longrightarrow> send_one_file d path name i n l = (r, l') \<Longrightarrow> r = 0 \<and> holds l'"
proof -
  assume h: "holds l" and sd: "sendable d path" and s: "send_one_file d path name i n l = (r, l')"
  obtain f where f: "d_file d path = Some f" "f_opens f" "f_fstat f" "\<not> MAX_FILE_SIZE_BYTES < f_size f" "f_malloc f"
    using sd by (auto simp: sendable_def split: option.splits)
  let ?m = "enc_FileMetaHeader (file_meta name (f_size f) (f_exec f) i n)"
  obtain r1 l1 where s1: "send_all ?m l = (r1, l1)" by (cases "send_all ?m l")
  note h1 = send_all_holds' [OF h s1]
  obtain ok crc l2 where s2: "send_chunks (f_reads f) 0xFFFFFFFF 0 l1 = (ok, crc, l2)"
    by (cases "send_chunks (f_reads f) 0xFFFFFFFF 0 l1") auto
  note h2 = send_chunks_holds [OF _ s2]
  have "send_all (enc_FileEndHeader (file_end (NOT crc))) l2 = (r, l')"
    using s f s1 h1 s2 h2 by (simp add: send_one_file_def)
  then show ?thesis using send_all_holds' h1 h2 by blast
qed

lemma send_files_holds:
  "holds l \<Longrightarrow> \<forall>(path, name) \<in> set files. sendable d path \<Longrightarrow> send_files d files i n l = (ok, l') \<Longrightarrow>
   ok \<and> holds l'"
proof (induction d files i n l arbitrary: ok l' rule: send_files.induct)
  case (2 d path name files i n l)
  obtain r l1 where s: "send_one_file d path name (of_nat (i + 1)) (of_nat n) l = (r, l1)"
    by (cases "send_one_file d path name (of_nat (i + 1)) (of_nat n) l")
  have h1: "r = 0" "holds l1" using send_one_file_holds [OF 2(2) _ s] 2(3) by auto
  have "send_files d files (i + 1) n l1 = (ok, l')" using 2(4) s h1 by simp
  then show ?case using 2(1) [OF s [symmetric] refl _ h1(2)] h1(1) 2(3) by simp
qed simp

section \<open>Receiving a complete stream\<close>

definition good_disk :: "int option list \<Rightarrow> bool" where
  "good_disk ws \<longleftrightarrow> (\<forall>k. Some k \<in> set ws \<longrightarrow> 0 < k)"

lemma write_all_good:
  "good_disk ws \<Longrightarrow> fst (write_all ws bs) \<and> good_disk (snd (snd (write_all ws bs)))"
  by (induction ws bs rule: write_all.induct)
    (auto simp: good_disk_def case_prod_beta Let_def split: option.splits)

text \<open>Reads a sender can make of a file: pieces of at most one chunk, none empty.\<close>

definition good_reads :: "byte list list \<Rightarrow> bool" where
  "good_reads reads \<longleftrightarrow> (\<forall>b \<in> set reads. b \<noteq> [] \<and> length b \<le> FILE_CHUNK_SIZE)"

definition receiving :: "pull \<Rightarrow> byte list \<Rightarrow> bool \<Rightarrow> bool" where
  "receiving p c x \<longleftrightarrow>
     state p = PULL_STATE_WAIT_CHUNK \<and> out_open p \<and> fs p (out_path p) = Some (c, x) \<and> good_disk (disk p)"

lemma loop_go: "pull_step e p s = Go p' s' \<Longrightarrow> pull_loop e p s = pull_loop e p' s'"
  by (simp add: pull_loop.simps [of e p s])

lemma receive_chunks:
  assumes "pending s = chunk_stream reads off @ rest" and "good_reads reads"
    and "receiving p c x" and "\<And>n. ce_malloc e n"
  shows "\<exists>s' ws. pull_loop e p s =
      pull_loop e (p\<lparr>crc_accum := crc_chunk (crc_accum p) (concat reads), disk := ws,
                      fs := (fs p)(out_path p \<mapsto> (c @ concat reads, x))\<rparr>) s' \<and>
      pending s' = rest \<and> good_disk ws"
  using assms(1-3)
proof (induction reads arbitrary: off p c s)
  case Nil
  have "fs p = (fs p)(out_path p \<mapsto> (c, x))" "good_disk (disk p)"
    using Nil(3) by (auto simp: receiving_def)
  then have "p = p\<lparr>crc_accum := crc_chunk (crc_accum p) [], disk := disk p, fs := (fs p)(out_path p \<mapsto> (c @ [], x))\<rparr>"
    by (simp add: crc_chunk_def)
  then have "pull_loop e p s = pull_loop e
      (p\<lparr>crc_accum := crc_chunk (crc_accum p) (concat []), disk := disk p,
         fs := (fs p)(out_path p \<mapsto> (c @ concat [], x))\<rparr>) s"
    unfolding concat.simps by (rule arg_cong [where f = "\<lambda>q. pull_loop e q s"])
  moreover have "pending s = rest" using Nil(1) by simp
  ultimately show ?case using \<open>good_disk (disk p)\<close> by blast
next
  case (Cons buf reads)
  have b: "buf \<noteq> []" "length buf \<le> 65536" "good_reads reads"
    using Cons(3) by (auto simp: good_reads_def)
  have rc: "state p = PULL_STATE_WAIT_CHUNK" "out_open p" "fs p (out_path p) = Some (c, x)" "good_disk (disk p)"
    using Cons(4) by (auto simp: receiving_def)
  let ?h = "file_chunk (length buf) off"
  have len: "unat (kh_chunk_size ?h) = length buf"
    using b(2) by (simp add: file_chunk_def unat_of_nat take_bit_nat_eq_self)
  have pend: "pending s = enc_FileChunkHeader ?h @ buf @ chunk_stream reads (off + of_nat (length buf)) @ rest"
    using Cons(2) by simp
  have hs: "magic ?h = MAGIC_NUMBER" "pkt_type ?h = server_pkt RES_FILE_CHUNK" "header_size ?h = 16"
    by (simp_all add: file_chunk_def)
  have le: "length buf \<le> 2 * FILE_CHUNK_SIZE" using b(2) by simp
  obtain s1 where s1: "pull_step e p s = Go (chunk_added p buf) s1"
      "pending s1 = chunk_stream reads (off + of_nat (length buf)) @ rest"
    using step_chunk [OF pend hs len b(1) le rc(1,2) assms(4)] write_all_good [OF rc(4), of buf] by blast
  let ?p1 = "chunk_added p buf"
  have p1: "receiving ?p1 (c @ buf) x"
    using rc write_all_good [OF rc(4), of buf]
    by (simp add: receiving_def chunk_added_def append_out_def)
  obtain s' ws where ih: "pull_loop e ?p1 s1 =
      pull_loop e (?p1\<lparr>crc_accum := crc_chunk (crc_accum ?p1) (concat reads), disk := ws,
                      fs := (fs ?p1)(out_path ?p1 \<mapsto> ((c @ buf) @ concat reads, x))\<rparr>) s'"
      "pending s' = rest" "good_disk ws"
    using Cons(1) [OF s1(2) b(3) p1] by blast
  have "?p1\<lparr>crc_accum := crc_chunk (crc_accum ?p1) (concat reads), disk := ws,
                      fs := (fs ?p1)(out_path ?p1 \<mapsto> ((c @ buf) @ concat reads, x))\<rparr>
      = p\<lparr>crc_accum := crc_chunk (crc_accum p) (concat (buf # reads)), disk := ws,
                      fs := (fs p)(out_path p \<mapsto> (c @ concat (buf # reads), x))\<rparr>"
    using rc(3) by (simp add: chunk_added_def append_out_def)
  with ih(1) loop_go [OF s1(1)]
  have "pull_loop e p s = pull_loop e (p\<lparr>crc_accum := crc_chunk (crc_accum p) (concat (buf # reads)), disk := ws,
                      fs := (fs p)(out_path p \<mapsto> (c @ concat (buf # reads), x))\<rparr>) s'"
    by (simp only:)
  with ih(2,3) show ?case by blast
qed

text \<open>What is left in the client's directory after one file.\<close>

definition restored :: "client_env \<Rightarrow> files \<Rightarrow> string \<Rightarrow> dfile \<Rightarrow> files" where
  "restored e f0 name f =
     f0(''./'' @ name \<mapsto>
       (concat (f_reads f),
        (case f0 (''./'' @ name) of Some (_, x) \<Rightarrow> x | None \<Rightarrow> False) \<or> f_exec f \<and> ce_chmod e (''./'' @ name)))"

definition idle :: "pull \<Rightarrow> nat \<Rightarrow> files \<Rightarrow> bool" where
  "idle p n f \<longleftrightarrow> files_done p = n \<and> fs p = f \<and> good_disk (disk p) \<and> \<not> out_open p"

definition plain_name :: "string \<Rightarrow> bool" where
  "plain_name name \<longleftrightarrow> cstr name = name \<and> length name < MAX_FILENAME \<and> is_safe_filename name"

lemma meta_name_file_meta: "plain_name name \<Longrightarrow> meta_name (file_meta name sz x i n) = name"
proof -
  assume p: "plain_name name"
  then have no: "NUL \<notin> set name" and len: "length name \<le> 127"
    using cstr_no_nul [of name] by (simp_all add: plain_name_def)
  have "strncpy (replicate 128 NUL) name 127 = (name @ replicate (127 - length name) NUL) @ [NUL]"
    using p len by (simp add: strncpy_def plain_name_def)
  then have "take 127 (strncpy (replicate 128 NUL) name 127) = name @ replicate (127 - length name) NUL"
    using len by simp
  with no show ?thesis by (simp add: meta_name_def file_meta_def)
qed

lemma file_meta_ok [simp]:
  "magic (file_meta name sz x i n) = MAGIC_NUMBER"
  "pkt_type (file_meta name sz x i n) = server_pkt RES_FILE_META"
  "header_size (file_meta name sz x i n) = 144" "wf_FileMetaHeader (file_meta name sz x i n)"
  by (simp_all add: file_meta_def wf_FileMetaHeader_def length_strncpy)

lemma file_end_ok [simp]:
  "magic (file_end c) = MAGIC_NUMBER" "pkt_type (file_end c) = server_pkt RES_FILE_END"
  "header_size (file_end c) = 16" "wf_FileEndHeader (file_end c)" "eh_checksum (file_end c) = c"
  by (simp_all add: file_end_def wf_FileEndHeader_def)

text \<open>The client that nothing local hinders.\<close>

definition able :: "client_env \<Rightarrow> bool" where
  "able e \<longleftrightarrow> ce_connect e \<and> (\<forall>path. ce_open e path) \<and> (\<forall>n. ce_malloc e n)"

lemma receive_file:
  assumes "pending s = file_stream f name i n @ rest" and "good_reads (f_reads f)" and "plain_name name"
    and "idle p k f0" and "able e"
  obtains p' s' where "pull_loop e p s = pull_loop e p' s'" and "pending s' = rest"
    and "idle p' (k + 1) (restored e f0 name f)"
proof -
  let ?m = "file_meta name (f_size f) (f_exec f) i n"
  let ?path = "''./'' @ name"
  let ?x = "case f0 ?path of Some (_, x) \<Rightarrow> x | None \<Rightarrow> False"
  have mn: "meta_name ?m = name" by (rule meta_name_file_meta [OF assms(3)])
  have safe: "is_safe_filename (meta_name ?m)" "ce_open e (''./'' @ meta_name ?m)"
    using assms(3,5) by (simp_all add: mn plain_name_def able_def)
  have pend: "pending s = enc_FileMetaHeader ?m @ (chunk_stream (f_reads f) 0 @
      (enc_FileEndHeader (file_end (crc32_buf (concat (f_reads f)))) @ rest))"
    using assms(1) by (simp add: file_stream_def)
  obtain s1 where s1: "pull_step e p s = Go (opened p ?m) s1"
      "pending s1 = chunk_stream (f_reads f) 0 @ (enc_FileEndHeader (file_end (crc32_buf (concat (f_reads f)))) @ rest)"
    using step_meta [OF pend file_meta_ok(4,1-3) safe] .
  let ?p1 = "opened p ?m"
  have p1: "receiving ?p1 [] ?x" "out_path ?p1 = ?path" "files_done ?p1 = k" "crc_accum ?p1 = 0xFFFFFFFF"
    "out_exec ?p1 = of_bool (f_exec f)" "fs ?p1 = f0(?path \<mapsto> ([], ?x))"
    using assms(4) mn by (simp_all add: receiving_def opened_def idle_def) (simp add: file_meta_def)
  have mem: "ce_malloc e n" for n using assms(5) by (simp add: able_def)
  obtain s2 ws where s2: "pull_loop e ?p1 s1 =
      pull_loop e (?p1\<lparr>crc_accum := crc_chunk (crc_accum ?p1) (concat (f_reads f)), disk := ws,
                      fs := (fs ?p1)(out_path ?p1 \<mapsto> ([] @ concat (f_reads f), ?x))\<rparr>) s2"
      "pending s2 = enc_FileEndHeader (file_end (crc32_buf (concat (f_reads f)))) @ rest" "good_disk ws"
    using receive_chunks [OF s1(2) assms(2) p1(1) mem] by blast
  define p2 where "p2 = ?p1\<lparr>crc_accum := crc_chunk (crc_accum ?p1) (concat (f_reads f)), disk := ws,
                      fs := (fs ?p1)(out_path ?p1 \<mapsto> ([] @ concat (f_reads f), ?x))\<rparr>"
  have p2: "out_open p2" "crc32_buf (concat (f_reads f)) = NOT (crc_accum p2)" "disk p2 = ws"
      "out_path p2 = ?path" "files_done p2 = k" "out_exec p2 = of_bool (f_exec f)"
      "fs p2 = f0(?path \<mapsto> (concat (f_reads f), ?x))"
    using p1 by (simp_all add: p2_def crc32_buf_def crc_chunk_def receiving_def)
  have chk: "eh_checksum (file_end (crc32_buf (concat (f_reads f)))) = NOT (crc_accum p2)"
    using p2(2) by simp
  obtain s3 where s3: "pull_step e p2 s2 = Go (closed e p2) s3" "pending s3 = rest"
    using step_end [OF s2(2) file_end_ok(4,1-3) p2(1) chk] .
  have "pull_loop e p s = pull_loop e (closed e p2) s3"
    using loop_go [OF s1(1)] s2(1) loop_go [OF s3(1)] by (simp add: p2_def)
  moreover have "idle (closed e p2) (k + 1) (restored e f0 name f)"
    using p2 s2(3) by (simp add: idle_def closed_def restored_def)
  ultimately show ?thesis using that s3(2) by blast
qed

fun restored_all :: "client_env \<Rightarrow> dist \<Rightarrow> (string \<times> string) list \<Rightarrow> files \<Rightarrow> files" where
  "restored_all e d [] f0 = f0"
| "restored_all e d ((path, name) # rest) f0 =
     restored_all e d rest (restored e f0 name (the (d_file d path)))"

definition readable :: "dist \<Rightarrow> string \<times> string \<Rightarrow> bool" where
  "readable d pn \<longleftrightarrow> good_reads (f_reads (the (d_file d (fst pn)))) \<and> plain_name (snd pn)"

lemma receive_files:
  assumes "pending s = files_stream d files i n @ rest" and "\<forall>pn \<in> set files. readable d pn"
    and "idle p k f0" and "able e"
  shows "\<exists>p' s'. pull_loop e p s = pull_loop e p' s' \<and> pending s' = rest \<and>
    idle p' (k + length files) (restored_all e d files f0)"
  using assms(1-3)
proof (induction files arbitrary: s i p k f0)
  case Nil
  then show ?case by auto
next
  case (Cons pn files)
  obtain path name where pn: "pn = (path, name)" by (cases pn)
  let ?f = "the (d_file d path)"
  have pend: "pending s = file_stream ?f name (of_nat (i + 1)) (of_nat n) @ (files_stream d files (i + 1) n @ rest)"
    using Cons(2) by (simp add: pn)
  have ok: "good_reads (f_reads ?f)" "plain_name name" "\<forall>pn \<in> set files. readable d pn"
    using Cons(3) by (simp_all add: pn readable_def)
  obtain p1 s1 where s1: "pull_loop e p s = pull_loop e p1 s1"
      "pending s1 = files_stream d files (i + 1) n @ rest" "idle p1 (k + 1) (restored e f0 name ?f)"
    using receive_file [OF pend ok(1,2) Cons(4) assms(4)] .
  obtain p2 s2 where "pull_loop e p1 s1 = pull_loop e p2 s2" "pending s2 = rest"
      "idle p2 (k + 1 + length files) (restored_all e d files (restored e f0 name ?f))"
    using Cons(1) [OF s1(2) ok(3) s1(3)] by blast
  with s1(1) show ?case by (auto simp: pn)
qed

lemma restored_all_other:
  "path' \<notin> (\<lambda>pn. ''./'' @ snd pn) ` set files \<Longrightarrow> restored_all e d files f0 path' = f0 path'"
  by (induction e d files f0 rule: restored_all.induct) (auto simp: restored_def)

lemma restored_all_content:
  "distinct (map snd files) \<Longrightarrow> (path, name) \<in> set files \<Longrightarrow>
   \<exists>x. restored_all e d files f0 (''./'' @ name) = Some (concat (f_reads (the (d_file d path))), x) \<and>
       (f0 (''./'' @ name) = None \<longrightarrow> x = (f_exec (the (d_file d path)) \<and> ce_chmod e (''./'' @ name)))"
proof (induction e d files f0 rule: restored_all.induct)
  case (2 e d path' name' rest f0)
  show ?case
  proof (cases "(path, name) = (path', name')")
    case True
    with 2(2) have "''./'' @ name \<notin> (\<lambda>pn. ''./'' @ snd pn) ` set rest" by auto
    then show ?thesis using True restored_all_other [of "''./'' @ name" rest]
      by (auto simp: restored_def split: option.splits)
  next
    case False
    with 2(2,3) have "(path, name) \<in> set rest" "name \<noteq> name'" by force+
    moreover from \<open>name \<noteq> name'\<close> have "restored e f0 name' f (''./'' @ name) = f0 (''./'' @ name)" for f
      by (simp add: restored_def)
    moreover have "distinct (map snd rest)" using 2(2) by simp
    ultimately show ?thesis using 2(1) by simp
  qed
qed simp

section \<open>Properties\<close>

text \<open>C18: the server's side of a pull, over any connection. Whatever \<open>send\<close> does, the client has been
  sent either a prefix of the intended stream of all files (followed, if all of it went out, by
  the completion packet or a prefix of it), or a prefix of that stream followed by at most one
  error packet; the completion packet is only begun when every file was sent completely.\<close>

theorem pull_sends_prefix:
  assumes "sent l = []" and "d_entries d (dist_dir_of ctx) = Some ents"
    and "collect_files d (dist_dir_of ctx) ents 0 = files" and "files \<noteq> []"
  shows "(\<exists>q. prefix q (enc_FileEndHeader (file_done (length files))) \<and>
           sent (handle_file_pull ctx d l) = files_stream d files 0 (length files) @ q \<and>
           (\<forall>(path, name) \<in> set files. sendable d path)) \<or>
         (\<exists>p q msg. prefix p (files_stream d files 0 (length files)) \<and>
           prefix q (enc_FileErrorHeader (pull_error msg)) \<and>
           sent (handle_file_pull ctx d l) = p @ q)"
proof -
  obtain ok l1 where s: "send_files d files 0 (length files) l = (ok, l1)"
    by (cases "send_files d files 0 (length files) l")
  note res = send_files_result [OF s]
  show ?thesis
  proof (cases ok)
    case False
    then have "handle_file_pull ctx d l = l1"
      using assms(2-4) s by (simp add: handle_file_pull_def)
    with res False assms(1) show ?thesis by auto
  next
    case True
    let ?done = "enc_FileEndHeader (file_done (length files))"
    have "handle_file_pull ctx d l = snd (send_all ?done l1)"
      using assms(2-4) s True by (simp add: handle_file_pull_def)
    moreover obtain q where "prefix q ?done" "sent (snd (send_all ?done l1)) = sent l1 @ q"
      using net.part_sent [of ?done l1] by (metis prod.collapse)
    ultimately show ?thesis using res True assms(1) by auto
  qed
qed

definition demo_dist :: dist where
  "demo_dist =
     \<lparr>d_entries = (\<lambda>dir. if dir = ''dist/week_1'' then Some [''.'', ''hw.c''] else None),
      d_file = (\<lambda>path. if path = ''dist/week_1/hw.c''
        then Some \<lparr>f_regular = True, f_opens = True, f_fstat = True, f_size = 2, f_exec = False,
                   f_malloc = True, f_reads = [[104, 105]]\<rparr> else None)\<rparr>"

definition demo_ctx :: ServerContext where
  "demo_ctx =
     \<lparr>current_hw = ''week_1'', ans_path = [], submit_dir = [], students = [], total_students = 0,
      submitted_count = 0, csv = \<lparr>total_records = 0, last_write_ts = 0, csv_fd = -1, csv_path = []\<rparr>,
      paused = 0, dist_paused = 0, timeout_ms = 0\<rparr>"

lemma demo_files:
  "dist_dir_of demo_ctx = ''dist/week_1''"
  "d_entries demo_dist ''dist/week_1'' = Some [''.'', ''hw.c'']"
  "collect_files demo_dist ''dist/week_1'' [''.'', ''hw.c''] 0 = [(''dist/week_1/hw.c'', ''hw.c'')]"
  by (simp_all add: dist_dir_of_def demo_ctx_def snprintf_def demo_dist_def DIST_ROOT_def)

theorem pull_sends_prefix_witness:
  "let n = sent (handle_file_pull demo_ctx demo_dist \<lparr>sent = [], tx = [3, -1]\<rparr>)
   in (\<exists>q. prefix q (enc_FileEndHeader (file_done 1)) \<and>
           n = files_stream demo_dist [(''dist/week_1/hw.c'', ''hw.c'')] 0 1 @ q) \<or>
      (\<exists>p q msg. prefix p (files_stream demo_dist [(''dist/week_1/hw.c'', ''hw.c'')] 0 1) \<and>
           prefix q (enc_FileErrorHeader (pull_error msg)) \<and> n = p @ q)"
proof -
  have n: "length [(''dist/week_1/hw.c'', ''hw.c'')] = 1" by simp
  show ?thesis
    using pull_sends_prefix [of "\<lparr>sent = [], tx = [3, -1]\<rparr>" demo_dist demo_ctx, unfolded demo_files(1),
        OF _ demo_files(2,3)] unfolding n Let_def by fastforce
qed

text \<open>C3: the round trip. If the files of the week can be read and sent, have portable and distinct
  names, and neither the connection nor the client's disk fails (they may be as slow and
  piecemeal as they like), then the client that receives what the server sends exits with 0,
  counts every file, and has each file's bytes (and, for a new file, its executable bit) under
  its name; no other file changes.\<close>

theorem pull_roundtrip:
  assumes "sent l = []" and "holds l" and "d_entries d (dist_dir_of ctx) = Some ents"
    and "collect_files d (dist_dir_of ctx) ents 0 = files" and "files \<noteq> []"
    and "\<forall>(path, name) \<in> set files. sendable d path" and "\<forall>pn \<in> set files. readable d pn"
    and "distinct (map snd files)" and "able e" and "good_disk tries" and "good_disk ws"
    and "pending s = sent (handle_file_pull ctx d l)"
  shows "let (code, request, p) = do_pull_mode e tries ws f0 s
         in code = 0 \<and> request = enc_GetFilesHeader get_files_request \<and> files_done p = length files \<and>
            (\<forall>(path, name) \<in> set files. \<exists>x.
               fs p (''./'' @ name) = Some (concat (f_reads (the (d_file d path))), x) \<and>
               (f0 (''./'' @ name) = None \<longrightarrow>
                 x = (f_exec (the (d_file d path)) \<and> ce_chmod e (''./'' @ name)))) \<and>
            (\<forall>path'. path' \<notin> (\<lambda>pn. ''./'' @ snd pn) ` set files \<longrightarrow> fs p path' = f0 path')"
proof -
  let ?done = "enc_FileEndHeader (file_done (length files))"
  obtain ok l1 where sf: "send_files d files 0 (length files) l = (ok, l1)"
    by (cases "send_files d files 0 (length files) l")
  have ok: "ok" "holds l1" using send_files_holds [OF assms(2,6) sf] by simp_all
  have s1: "sent l1 = files_stream d files 0 (length files)"
    using send_files_result [OF sf] ok assms(1) by simp
  obtain r l2 where sd: "send_all ?done l1 = (r, l2)" by (cases "send_all ?done l1")
  have "sent l2 = sent l1 @ ?done"
    using send_all_holds' [OF ok(2) sd] sd net.all_sent by blast
  moreover have "handle_file_pull ctx d l = l2"
    using assms(3-5) sf ok sd by (simp add: handle_file_pull_def)
  ultimately have pend: "pending s = files_stream d files 0 (length files) @ ?done"
    using assms(12) s1 by simp
  have start: "idle (pull_start f0 ws) 0 f0" using assms(11) by (simp add: idle_def pull_start_def)
  obtain p' s' where loop: "pull_loop e (pull_start f0 ws) s = pull_loop e p' s'"
      "pending s' = ?done" "idle p' (0 + length files) (restored_all e d files f0)"
    using receive_files [OF pend assms(7) start assms(9)] by blast
  have "pull_step e p' s' = Stop 0 p'"
    using step_done [of s' "file_done (length files)" "[]"] loop(2) by (simp add: file_done_def)
  then have run: "pull_loop e (pull_start f0 ws) s = (0, p')"
    using loop(1) by (simp add: pull_loop.simps [of e p' s'])
  obtain out tr where w: "write_all tries (enc_GetFilesHeader get_files_request) = (True, out, tr)"
    using write_all_good [OF assms(10), of "enc_GetFilesHeader get_files_request"]
    by (cases "write_all tries (enc_GetFilesHeader get_files_request)") auto
  have mode: "do_pull_mode e tries ws f0 s = (0, enc_GetFilesHeader get_files_request, p')"
    using write_all_ok [OF w] w run assms(9) by (simp add: do_pull_mode_def able_def)
  have fs: "fs p' = restored_all e d files f0" "files_done p' = length files"
    using loop(3) by (simp_all add: idle_def)
  show ?thesis
    unfolding mode Let_def prod.case fs
    using restored_all_content [OF assms(8)] restored_all_other by fastforce
qed

theorem pull_roundtrip_witness:
  "let l = handle_file_pull demo_ctx demo_dist \<lparr>sent = [], tx = [3, 100, 1]\<rparr>;
       (code, request, p) = do_pull_mode demo_env [None, Some 5] [None, Some 1] (\<lambda>_. None)
          \<lparr>rx = [take 10 (sent l), [], drop 10 (sent l)], rx_reset = False\<rparr>
   in code = 0 \<and> files_done p = 1 \<and> fs p ''./hw.c'' = Some ([104, 105], False)"
proof -
  let ?l = "\<lparr>sent = [], tx = [3, 100, 1]\<rparr>"
  let ?out = "sent (handle_file_pull demo_ctx demo_dist ?l)"
  let ?s = "\<lparr>rx = [take 10 ?out, [], drop 10 ?out], rx_reset = False\<rparr>"
  let ?files = "[(''dist/week_1/hw.c'', ''hw.c'')]"
  have "pending ?s = ?out" by (simp add: pending_def)
  moreover have "holds ?l" by (simp add: holds_def)
  moreover have "\<forall>(path, name) \<in> set ?files. sendable demo_dist path"
    by (simp add: sendable_def demo_dist_def MAX_FILE_SIZE_BYTES_def)
  moreover have "\<forall>pn \<in> set ?files. readable demo_dist pn"
    by (simp add: readable_def demo_dist_def good_reads_def plain_name_def safe_iff cstr_def)
  moreover have "able demo_env" by (simp add: able_def demo_env_def)
  moreover have "good_disk [None, Some 5]" "good_disk [None, Some 1]" by (simp_all add: good_disk_def)
  moreover have "f_reads (the (d_file demo_dist ''dist/week_1/hw.c'')) = [[104, 105]]"
    "\<not> f_exec (the (d_file demo_dist ''dist/week_1/hw.c''))"
    by (simp_all add: demo_dist_def)
  ultimately show ?thesis
    using pull_roundtrip [of ?l demo_dist demo_ctx, unfolded demo_files(1), OF _ _ demo_files(2,3),
        of demo_env "[None, Some 5]" "[None, Some 1]" ?s "\<lambda>_. None"]
    by (simp add: Let_def case_prod_beta)
qed

end
