(* ===== verification/Ctl.thy ===== *)
theory Ctl
  imports Tracker Socket File_Pull
begin

text \<open>
  The control socket: \<^verbatim>\<open>ipc_protocol.h\<close>, \<open>handle_ctl_client\<close> of \<^verbatim>\<open>server/server.c\<close>, and the
  request side they share with the dashboard. A request is one byte and 8192 characters, a
  response likewise. The request buffer of the server is not initialised: \<open>stack\<close> is what it
  holds before the read.
\<close>

section \<open>The protocol\<close>

definition IPC_MAX_PAYLOAD :: nat where
  "IPC_MAX_PAYLOAD = 8192"

datatype IpcCommand =
    CMD_STATUS | CMD_PAUSE | CMD_RESUME | CMD_SET_TIMEOUT | CMD_SET_HW | CMD_SET_STUDENTS
  | CMD_GET_TRACKER | CMD_EXPORT_CSV | CMD_GET_CSV_STAT | CMD_TOGGLE_DIST

fun ipc_cmd :: "IpcCommand \<Rightarrow> byte" where
  "ipc_cmd CMD_STATUS = 1"
| "ipc_cmd CMD_PAUSE = 2"
| "ipc_cmd CMD_RESUME = 3"
| "ipc_cmd CMD_SET_TIMEOUT = 4"
| "ipc_cmd CMD_SET_HW = 10"
| "ipc_cmd CMD_SET_STUDENTS = 11"
| "ipc_cmd CMD_GET_TRACKER = 12"
| "ipc_cmd CMD_EXPORT_CSV = 13"
| "ipc_cmd CMD_GET_CSV_STAT = 14"
| "ipc_cmd CMD_TOGGLE_DIST = 15"

record IpcRequest =
  rq_cmd :: byte
  rq_payload :: string

datatype IpcStatus = IPC_OK | IPC_ERROR

fun ipc_status :: "IpcStatus \<Rightarrow> byte" where
  "ipc_status IPC_OK = 0"
| "ipc_status IPC_ERROR = 1"

record IpcResponse =
  rs_status :: byte
  rs_data :: string

definition sizeof_Ipc :: nat where
  "sizeof_Ipc = 1 + IPC_MAX_PAYLOAD"

definition enc_IpcRequest :: "IpcRequest \<Rightarrow> byte list" where
  "enc_IpcRequest r = rq_cmd r # bytes (rq_payload r)"

definition dec_IpcRequest :: "byte list \<Rightarrow> IpcRequest" where
  "dec_IpcRequest bs = \<lparr>rq_cmd = bs ! 0, rq_payload = chars_at 1 IPC_MAX_PAYLOAD bs\<rparr>"

definition enc_IpcResponse :: "IpcResponse \<Rightarrow> byte list" where
  "enc_IpcResponse r = rs_status r # bytes (rs_data r)"

definition dec_IpcResponse :: "byte list \<Rightarrow> IpcResponse" where
  "dec_IpcResponse bs = \<lparr>rs_status = bs ! 0, rs_data = chars_at 1 IPC_MAX_PAYLOAD bs\<rparr>"

text \<open>\<open>snprintf\<close> into the zeroed data array of a response.\<close>

definition respond :: "IpcStatus \<Rightarrow> string \<Rightarrow> IpcResponse" where
  "respond st text =
     \<lparr>rs_status = ipc_status st,
      rs_data = strncpy (replicate IPC_MAX_PAYLOAD NUL) (snprintf IPC_MAX_PAYLOAD text) IPC_MAX_PAYLOAD\<rparr>"

section \<open>The commands\<close>

definition set_hw_arg :: "string \<Rightarrow> string" where
  "set_hw_arg payload = cut_at [CHR '' '', CHR 0x0D, CHR 0x0A] (take (MAX_WEEK_NAME - 1) (cstr payload))"

definition on_set_hw :: "env \<Rightarrow> string \<Rightarrow> ServerContext \<Rightarrow> os \<Rightarrow> IpcResponse \<times> ServerContext \<times> os" where
  "on_set_hw e payload ctx w =
     (let week = set_hw_arg payload
      in if week = [] then (respond IPC_ERROR ''ERR|empty week name'', ctx, w)
         else let (ctx', w') = ctx_set_hw e week ctx w
              in (respond IPC_OK (''OK|week='' @ cstr (current_hw ctx')), ctx', w'))"

definition on_set_students :: "string \<Rightarrow> ServerContext \<Rightarrow> IpcResponse \<times> ServerContext" where
  "on_set_students payload ctx =
     (let n = atoi payload
      in if n \<le> 0 \<or> int MAX_STUDENTS < n then (respond IPC_ERROR (''ERR|invalid count '' @ dec_int n), ctx)
         else (respond IPC_OK (''OK|total='' @ dec_int n), ctx\<lparr>total_students := word_of_int n\<rparr>))"

definition gnames :: "string list" where
  "gnames = [''AC'', ''WA'', ''TLE'', ''RE'', ''CE'']"

definition grade_name :: "byte \<Rightarrow> string" where
  "grade_name r = (if r < 5 then gnames ! unat r else ''UNK'')"

definition tracker_line :: "u16 \<Rightarrow> u16 \<Rightarrow> string \<Rightarrow> u32 \<Rightarrow> string" where
  "tracker_line n_submitted n_total week records =
     ''submitted='' @ dec_w n_submitted @ ''|total='' @ dec_w n_total @ ''|week='' @ week
       @ ''|records='' @ dec_w records @ ''|'' @ [CHR 0x0A]"

definition tracker_entry :: "StudentRecord \<Rightarrow> string" where
  "tracker_entry r = sr_id r @ '':'' @ grade_name (best_result r) @ '',''"

text \<open>The listing from position \<open>pos\<close> on: it stops at a free slot, and when fewer than 24 bytes
  of the buffer are left.\<close>

fun list_students :: "StudentRecord list \<Rightarrow> nat \<Rightarrow> string" where
  "list_students [] pos = []"
| "list_students (r # rs) pos =
     (if \<not> pos < IPC_MAX_PAYLOAD - 24 then []
      else if sr_id r = [] then []
      else take (IPC_MAX_PAYLOAD - pos - 1) (tracker_entry r)
             @ list_students rs (pos + length (tracker_entry r)))"

definition on_get_tracker :: "ServerContext \<Rightarrow> IpcResponse" where
  "on_get_tracker ctx =
     (let week = take (MAX_WEEK_NAME - 1) (cstr (current_hw ctx));
          line = tracker_line (submitted_count ctx) (total_students ctx) week (total_records (csv ctx))
      in respond IPC_OK (line @ list_students (students ctx) (length line)))"

definition on_csv_stat :: "env \<Rightarrow> ServerContext \<Rightarrow> IpcResponse" where
  "on_csv_stat e ctx =
     (let ts = last_write_ts (csv ctx)
      in respond IPC_OK (''records='' @ dec_w (total_records (csv ctx)) @ ''|last_write=''
           @ (if 0 < ts then env_localtime e ts else ''never'')))"

definition msg_dist_off :: string where
  "msg_dist_off = map char_of [235 :: nat, 176, 176, 237, 143, 172, 32, 236, 176, 168, 235, 139, 168, 235, 144, 168, 32, 40, 79, 70, 70, 41]"

definition msg_dist_on :: string where
  "msg_dist_on = map char_of [235 :: nat, 176, 176, 237, 143, 172, 32, 237, 151, 136, 236, 154, 169, 235, 144, 168, 32, 40, 79, 78, 41]"

definition on_toggle_dist :: "ServerContext \<Rightarrow> IpcResponse \<times> ServerContext" where
  "on_toggle_dist ctx =
     (let ctx' = ctx\<lparr>dist_paused := (if dist_paused ctx = 0 then 1 else 0)\<rparr>
      in (respond IPC_OK (if dist_paused ctx' \<noteq> 0 then msg_dist_off else msg_dist_on), ctx'))"

definition handle_request :: "env \<Rightarrow> IpcRequest \<Rightarrow> ServerContext \<Rightarrow> os \<Rightarrow> IpcResponse \<times> ServerContext \<times> os" where
  "handle_request e req ctx w =
     (if rq_cmd req = ipc_cmd CMD_SET_HW then on_set_hw e (rq_payload req) ctx w
      else if rq_cmd req = ipc_cmd CMD_SET_STUDENTS
        then (let (r, c) = on_set_students (rq_payload req) ctx in (r, c, w))
      else if rq_cmd req = ipc_cmd CMD_GET_TRACKER then (on_get_tracker ctx, ctx, w)
      else if rq_cmd req = ipc_cmd CMD_GET_CSV_STAT then (on_csv_stat e ctx, ctx, w)
      else if rq_cmd req = ipc_cmd CMD_TOGGLE_DIST then (let (r, c) = on_toggle_dist ctx in (r, c, w))
      else if rq_cmd req \<in> {ipc_cmd CMD_STATUS, ipc_cmd CMD_PAUSE, ipc_cmd CMD_RESUME, ipc_cmd CMD_SET_TIMEOUT}
        then (respond IPC_OK ''OK (legacy ignored)'', ctx, w)
      else (respond IPC_ERROR ''ERR|unknown command'', ctx, w))"

definition handle_ctl_client ::
  "env \<Rightarrow> byte list \<Rightarrow> sock \<Rightarrow> link \<Rightarrow> ServerContext \<Rightarrow> os \<Rightarrow> link \<times> ServerContext \<times> os" where
  "handle_ctl_client e stack s l ctx w =
     (let (r, got, s') = recv_waitall sizeof_Ipc s
      in if r \<le> 0 then (l, ctx, w)
         else let (resp, ctx', w') = handle_request e (dec_IpcRequest (got @ drop (length got) stack)) ctx w
              in (snd (send (enc_IpcResponse resp) l), ctx', w'))"

section \<open>Facts about the protocol\<close>

lemma length_respond: "length (rs_data (respond st text)) = IPC_MAX_PAYLOAD"
  unfolding respond_def by (simp add: length_strncpy)

lemma cstr_respond: "length text < IPC_MAX_PAYLOAD \<Longrightarrow> NUL \<notin> set text \<Longrightarrow> cstr (rs_data (respond st text)) = text"
  by (simp add: respond_def snprintf_def strncpy_def cstr_id)

lemma dec_enc_IpcResponse: "length (rs_data r) = IPC_MAX_PAYLOAD \<Longrightarrow> dec_IpcResponse (enc_IpcResponse r) = r"
  by (simp add: dec_IpcResponse_def enc_IpcResponse_def chars_at_def field_def)

lemma dec_enc_IpcRequest: "length (rq_payload r) = IPC_MAX_PAYLOAD \<Longrightarrow> dec_IpcRequest (enc_IpcRequest r) = r"
  by (simp add: dec_IpcRequest_def enc_IpcRequest_def chars_at_def field_def)

lemma cstr_set_hw_arg [simp]: "cstr (set_hw_arg p) = set_hw_arg p"
  unfolding set_hw_arg_def cut_at_def
  by (rule cstr_id) (use cstr_no_nul set_takeWhileD in fastforce)

lemma set_hw_arg_valid: "set_hw_arg p \<noteq> [] \<Longrightarrow> valid_week (set_hw_arg p)"
proof -
  have "length (set_hw_arg p) < 32"
    unfolding set_hw_arg_def cut_at_def by (rule le_less_trans [OF length_takeWhile_le]) simp
  then show "set_hw_arg p \<noteq> [] \<Longrightarrow> valid_week (set_hw_arg p)"
    by (simp add: valid_week_def strlen_def)
qed

text \<open>What the commands other than the week switch leave alone.\<close>

lemma other_commands_frame:
  assumes "rq_cmd req \<noteq> ipc_cmd CMD_SET_HW"
  shows "snd (snd (handle_request e req ctx w)) = w"
    and "current_hw (fst (snd (handle_request e req ctx w))) = current_hw ctx"
    and "ans_path (fst (snd (handle_request e req ctx w))) = ans_path ctx"
    and "submit_dir (fst (snd (handle_request e req ctx w))) = submit_dir ctx"
    and "students (fst (snd (handle_request e req ctx w))) = students ctx"
    and "submitted_count (fst (snd (handle_request e req ctx w))) = submitted_count ctx"
    and "csv (fst (snd (handle_request e req ctx w))) = csv ctx"
  using assms
  by (auto simp: handle_request_def on_set_students_def on_toggle_dist_def Let_def case_prod_beta)

section \<open>Properties\<close>

text \<open>What a request can change. Only three commands change the server: a week switch (with the
  effect of \<open>ctx_set_hw\<close> on a cleaned, non-empty name of at most 31 characters), the class size
  (set exactly when the number is between 1 and 512, and then to it), and the distribution
  switch; every other command, the ones for pausing, resuming, the time limit and the CSV
  export among them, leaves the context and the files as they are.\<close>

theorem ctl_request_effects:
  "snd (handle_request e req ctx w) =
     (if rq_cmd req = 10
        then if set_hw_arg (rq_payload req) = [] then (ctx, w) else ctx_set_hw e (set_hw_arg (rq_payload req)) ctx w
      else if rq_cmd req = 11
        then if 1 \<le> atoi (rq_payload req) \<and> atoi (rq_payload req) \<le> 512
             then (ctx\<lparr>total_students := word_of_int (atoi (rq_payload req))\<rparr>, w) else (ctx, w)
      else if rq_cmd req = 15 then (ctx\<lparr>dist_paused := (if dist_paused ctx = 0 then 1 else 0)\<rparr>, w)
      else (ctx, w)) \<and>
   (set_hw_arg (rq_payload req) \<noteq> [] \<longrightarrow> valid_week (set_hw_arg (rq_payload req)))"
proof
  show "snd (handle_request e req ctx w) =
     (if rq_cmd req = 10
        then if set_hw_arg (rq_payload req) = [] then (ctx, w) else ctx_set_hw e (set_hw_arg (rq_payload req)) ctx w
      else if rq_cmd req = 11
        then if 1 \<le> atoi (rq_payload req) \<and> atoi (rq_payload req) \<le> 512
             then (ctx\<lparr>total_students := word_of_int (atoi (rq_payload req))\<rparr>, w) else (ctx, w)
      else if rq_cmd req = 15 then (ctx\<lparr>dist_paused := (if dist_paused ctx = 0 then 1 else 0)\<rparr>, w)
      else (ctx, w))"
    by (auto simp: handle_request_def on_set_hw_def on_set_students_def on_toggle_dist_def MAX_STUDENTS_def
        Let_def case_prod_beta)
  show "set_hw_arg (rq_payload req) \<noteq> [] \<longrightarrow> valid_week (set_hw_arg (rq_payload req))"
    using set_hw_arg_valid by blast
qed

theorem ctl_request_effects_witness:
  "let e = \<lparr>env_open = \<lambda>_. 5, env_mkdir = \<lambda>_. True, env_write = \<lambda>t. int (length t),
            env_now = 7, env_localtime = \<lambda>_. ''t''\<rparr>;
       w = \<lparr>os_files = \<lambda>_. None, os_dirs = [], os_fds = \<lambda>_. None\<rparr>;
       ctx = fst (ctx_init e w)
   in set_hw_arg ''week_4 x'' = ''week_4'' \<and> valid_week ''week_4'' \<and>
      snd (handle_request e \<lparr>rq_cmd = 2, rq_payload = ''week_4 x''\<rparr> ctx w) = (ctx, w)"
proof -
  have a: "set_hw_arg ''week_4 x'' = ''week_4''" by (simp add: set_hw_arg_def cut_at_def cstr_def)
  show ?thesis
    using ctl_request_effects [of _ "\<lparr>rq_cmd = 2, rq_payload = ''week_4 x''\<rparr>"]
    by (simp add: a Let_def)
qed

text \<open>The distribution switch does not switch anything. Whatever the dashboard sent, the reply
  to a pull request is the same with the switch on or off, while the command reports success.\<close>

theorem toggle_dist_has_no_effect:
  "handle_file_pull (fst (snd (handle_request e \<lparr>rq_cmd = ipc_cmd CMD_TOGGLE_DIST, rq_payload = p\<rparr> ctx w))) d l
     = handle_file_pull ctx d l \<and>
   rs_status (fst (handle_request e \<lparr>rq_cmd = ipc_cmd CMD_TOGGLE_DIST, rq_payload = p\<rparr> ctx w)) = ipc_status IPC_OK \<and>
   dist_paused (fst (snd (handle_request e \<lparr>rq_cmd = ipc_cmd CMD_TOGGLE_DIST, rq_payload = p\<rparr> ctx w))) \<noteq> dist_paused ctx"
  by (simp add: handle_request_def on_toggle_dist_def respond_def handle_file_pull_def dist_dir_of_def Let_def)

end
