(* ===== verification/Server_Main.thy ===== *)
theory Server_Main
  imports Grading Job_Queue Ctl
begin

text \<open>
  The main thread of the server, from \<^verbatim>\<open>server/server.c\<close>: terminal output, start-up and the epoll
  loop. Terminal output is what ends up on which channel; the calls of the start-up
  have their outcomes in the record \<open>boot\<close>, and the loop runs over what \<open>epoll_wait\<close> and \<open>accept\<close>
  return. Messages keep the tag they begin with; their Korean wording is left out.
\<close>

section \<open>Terminal output\<close>

record ui =
  ncurses_ok :: bool
  has_top :: bool
  has_bottom :: bool
  log_open :: bool
  bottom_win :: "(nat \<times> string) list"
  stderr_out :: "string list"
  log_file :: "string list"

definition ui_initial :: ui where
  "ui_initial =
     \<lparr>ncurses_ok = False, has_top = False, has_bottom = False, log_open = False,
      bottom_win = [], stderr_out = [], log_file = []\<rparr>"

definition ui_logfile_init :: "bool \<Rightarrow> ui \<Rightarrow> ui" where
  "ui_logfile_init opens u =
     (if opens then u\<lparr>log_open := True\<rparr>
      else u\<lparr>log_open := False, stderr_out := stderr_out u @ [''[WARN] Cannot open /tmp/ci_server.log'']\<rparr>)"

definition ui_ncurses_ready :: "ui \<Rightarrow> ui" where
  "ui_ncurses_ready u = u\<lparr>ncurses_ok := True\<rparr>"

definition ui_diagnose :: "ui \<Rightarrow> ui" where
  "ui_diagnose u =
     (if log_open u
      then u\<lparr>log_file := log_file u @ [''[DIAGNOSE] Ncurses UI is successfully initialized.'']\<rparr> else u)"

definition ui_log_colored :: "nat \<Rightarrow> string \<Rightarrow> ui \<Rightarrow> ui" where
  "ui_log_colored color_pair text u =
     (let u1 = (if ncurses_ok u \<and> has_bottom u then u\<lparr>bottom_win := bottom_win u @ [(color_pair, text)]\<rparr>
                else u\<lparr>stderr_out := stderr_out u @ [text]\<rparr>)
      in if log_open u1 then u1\<lparr>log_file := log_file u1 @ [text]\<rparr> else u1)"

definition COLOR_PAIR_ALERT :: nat where "COLOR_PAIR_ALERT = 3"
definition COLOR_PAIR_INFO :: nat where "COLOR_PAIR_INFO = 4"
definition COLOR_PAIR_SUCCESS :: nat where "COLOR_PAIR_SUCCESS = 6"
definition COLOR_PAIR_FAIL :: nat where "COLOR_PAIR_FAIL = 7"
definition COLOR_PAIR_DIM :: nat where "COLOR_PAIR_DIM = 8"

definition ui_log :: "string \<Rightarrow> ui \<Rightarrow> ui" where
  "ui_log text u = ui_log_colored COLOR_PAIR_INFO text u"

definition NUM_THREADS :: nat where
  "NUM_THREADS = 4"

text \<open>The rows of the upper window below its title bar: one per worker, then the queue.\<close>

definition thread_row :: "nat \<Rightarrow> nat \<Rightarrow> string \<Rightarrow> string" where
  "thread_row i status task =
     ''Thread '' @ dec i @ '': '' @
     (if status = 0 then ''[ IDLE    ]'' else ''[ RUNNING ]'' @ '' '' @ task)"

definition update_top_win :: "ui \<Rightarrow> nat list \<Rightarrow> string list \<Rightarrow> nat \<Rightarrow> string list option" where
  "update_top_win u status task n_jobs =
     (if \<not> ncurses_ok u \<or> \<not> has_top u then None
      else Some (map (\<lambda>i. thread_row i (status ! i) (task ! i)) [0..<NUM_THREADS]
                   @ ['' Queue: '' @ dec n_jobs @ '' / '' @ dec MAX_QUEUE @ '' '']))"

section \<open>Start-up\<close>

record boot =
  bt_logfile :: bool
  bt_term :: "string option"
  bt_initscr :: bool
  bt_colors :: bool
  bt_max_y :: nat
  bt_top_win :: bool
  bt_bottom_win :: bool
  bt_socket :: bool
  bt_bind :: bool
  bt_ctl_socket :: bool
  bt_ctl_bind :: bool
  bt_epoll :: bool

definition say :: "string \<Rightarrow> ui \<Rightarrow> ui" where
  "say text u = u\<lparr>stderr_out := stderr_out u @ [text]\<rparr>"

text \<open>Any failure of the terminal set-up falls back to \<open>stderr\<close> and goes on.\<close>

definition setup_terminal :: "boot \<Rightarrow> ui \<Rightarrow> ui" where
  "setup_terminal b u =
     (if bt_term b = None \<or> bt_term b = Some [] then say ''[WARN] TERM'' u
      else if \<not> bt_initscr b then say ''[WARN] initscr()'' u
      else let u1 = (if bt_colors b then u else say ''[WARN] color'' u)
           in if bt_max_y b < NUM_THREADS + 4 then say ''[FAIL] height'' u1
              else let u2 = u1\<lparr>has_top := bt_top_win b, has_bottom := bt_bottom_win b\<rparr>
                   in if \<not> bt_top_win b \<or> \<not> bt_bottom_win b then say ''[FAIL] newwin()'' u2
                      else ui_diagnose (ui_ncurses_ready u2))"

datatype start = Returns int | Serving | Killed

text \<open>The sockets: each failure is logged and ends \<open>main\<close> with status 1.\<close>

definition start_sockets :: "boot \<Rightarrow> ui \<Rightarrow> start \<times> ui" where
  "start_sockets b u =
     (if \<not> bt_socket b then (Returns 1, ui_log_colored COLOR_PAIR_ALERT ''[FATAL] socket()'' u)
      else if \<not> bt_bind b then (Returns 1, ui_log_colored COLOR_PAIR_ALERT ''[FATAL] bind()'' u)
      else if \<not> bt_ctl_socket b then (Returns 1, ui_log_colored COLOR_PAIR_ALERT ''[FATAL] ctl socket'' u)
      else if \<not> bt_ctl_bind b then (Returns 1, ui_log_colored COLOR_PAIR_ALERT ''[FATAL] ctl bind'' u)
      else if \<not> bt_epoll b then (Returns 1, ui_log_colored COLOR_PAIR_ALERT ''epoll_create1'' u)
      else (Serving, ui_log_colored COLOR_PAIR_INFO ''port 8080'' u))"

definition start_server :: "boot \<Rightarrow> ui \<Rightarrow> start \<times> ui" where
  "start_server b u =
     start_sockets b
       (ui_log_colored COLOR_PAIR_DIM ''Ctrl+C''
         (ui_log_colored COLOR_PAIR_DIM ''tail -f /tmp/ci_server.log''
           (ui_log_colored COLOR_PAIR_INFO ''CI Server'' u)))"

definition main_start :: "boot \<Rightarrow> env \<Rightarrow> os \<Rightarrow> start \<times> ui \<times> ServerContext \<times> os" where
  "main_start b e w =
     (let (ctx, w') = ctx_init e w;
          (r, u) = start_server b (setup_terminal b (ui_logfile_init (bt_logfile b) ui_initial))
      in (r, u, ctx, w'))"

section \<open>The epoll loop\<close>

text \<open>
  One ready descriptor: the listening socket with the result of \<open>accept\<close>, the control socket
  with the result of its \<open>accept\<close> and the peer behind it, or one that is neither. The last list of
  either is what its \<open>send\<close> will return; neither is called with \<open>MSG_NOSIGNAL\<close>.
\<close>

datatype ready = ListenReady int "int list" | CtlReady int sock "int list" | OtherReady

record server =
  sv_ctx :: ServerContext
  sv_os :: os
  sv_ring :: ring
  sv_paused :: bool
  sv_refused :: "int list"
  sv_replies :: "link list"
  sv_killed :: bool

text \<open>The refusal while paused, a Korean sentence in UTF-8.\<close>

definition pause_msg :: "byte list" where
  "pause_msg =
     [236, 132, 156, 235, 178, 132, 234, 176, 128, 32, 236, 157, 188, 236, 139, 156, 32, 236,
      164, 145, 236, 167, 128, 32, 236, 131, 129, 237, 131, 156, 236, 158, 133, 235, 139, 136,
      235, 139, 164, 46, 32, 236, 158, 160, 236, 139, 156, 32, 237, 155, 132, 32, 236, 158, 172,
      236, 139, 156, 235, 143, 132, 237, 149, 152, 236, 132, 184, 236, 154, 148, 46, 10]"

definition on_ready :: "env \<Rightarrow> byte list \<Rightarrow> server \<Rightarrow> ready \<Rightarrow> server" where
  "on_ready e stack sv r =
     (if sv_killed sv then sv
      else case r of
        ListenReady client_sock sends \<Rightarrow>
          if client_sock < 0 then sv
          else if sv_paused sv
          then (let l0 = \<lparr>sent = [], tx = sends\<rparr>; (n, l) = send pause_msg l0
                in sv\<lparr>sv_refused := sv_refused sv @ [client_sock], sv_killed := sigpipe l0 l\<rparr>)
          else sv\<lparr>sv_ring := enqueue_job client_sock (sv_ring sv)\<rparr>
      | CtlReady ccfd s sends \<Rightarrow>
          if ccfd < 0 then sv
          else (let l0 = \<lparr>sent = [], tx = sends\<rparr>;
                    (l, ctx, w) = handle_ctl_client e stack s l0 (sv_ctx sv) (sv_os sv)
                in sv\<lparr>sv_ctx := ctx, sv_os := w, sv_replies := sv_replies sv @ [l], sv_killed := sigpipe l0 l\<rparr>)
      | OtherReady \<Rightarrow> sv)"

datatype wait_result = WaitFailed bool | WaitReady "ready list"

text \<open>
  The loop over the results of \<open>epoll_wait\<close>: \<open>EINTR\<close> (\<open>WaitFailed True\<close>) is retried, any other failure
  is logged and ends \<open>main\<close> with status 0. With no more results the loop still waits. A reply to a peer
  that is gone ends the process.
\<close>

fun main_loop :: "env \<Rightarrow> byte list \<Rightarrow> wait_result list \<Rightarrow> server \<Rightarrow> server \<times> start" where
  "main_loop e stack [] sv = (sv, Serving)"
| "main_loop e stack (WaitFailed eintr # ws) sv =
     (if eintr then main_loop e stack ws sv else (sv, Returns 0))"
| "main_loop e stack (WaitReady rs # ws) sv =
     (let sv' = foldl (on_ready e stack) sv rs
      in if sv_killed sv' then (sv', Killed) else main_loop e stack ws sv')"

section \<open>What the terminal shows\<close>

lemma log_file_gets_all:
  "log_open u \<Longrightarrow> log_file (ui_log_colored c msg u) = log_file u @ [msg] \<and> log_open (ui_log_colored c msg u)"
  by (simp add: ui_log_colored_def Let_def)

lemma setup_needs_both_windows:
  "ncurses_ok (setup_terminal b (ui_logfile_init opens ui_initial)) \<Longrightarrow>
   has_top (setup_terminal b (ui_logfile_init opens ui_initial)) \<and>
   has_bottom (setup_terminal b (ui_logfile_init opens ui_initial))"
  by (auto simp: setup_terminal_def ui_logfile_init_def ui_initial_def say_def ui_diagnose_def
      ui_ncurses_ready_def Let_def split: if_splits)

section \<open>The server never pauses\<close>

interpretation never_pauses: invariant_machine "on_ready e stack" "\<lambda>sv. \<not> sv_paused sv \<and> sv_refused sv = []" "\<lambda>_. True"
  by unfold_locales (auto simp: on_ready_def case_prod_beta Let_def split: ready.splits)

lemma main_loop_unpaused:
  "\<not> sv_paused sv \<and> sv_refused sv = [] \<Longrightarrow>
   \<not> sv_paused (fst (main_loop e stack ws sv)) \<and> sv_refused (fst (main_loop e stack ws sv)) = []"
proof (induction e stack ws sv rule: main_loop.induct)
  case (3 e stack rs ws sv)
  have "\<not> sv_paused (foldl (on_ready e stack) sv rs) \<and> sv_refused (foldl (on_ready e stack) sv rs) = []"
    using 3(2) by (rule never_pauses.run_keeps) simp
  with 3(1) show ?case by (simp add: Let_def)
qed simp_all

text \<open>A control client that has sent anything and does not wait for the reply ends the server.\<close>

lemma absent_reader_kills:
  assumes "0 \<le> ccfd" and "pending s \<noteq> []" and "\<not> sv_killed sv"
  shows "snd (main_loop e stack (WaitReady [CtlReady ccfd s [- EPIPE]] # ws) sv) = Killed"
proof -
  have "0 < fst (recv_waitall sizeof_Ipc s)"
    using recv_waitall_result [of sizeof_Ipc s] assms(2) by (simp add: sizeof_Ipc_def IPC_MAX_PAYLOAD_def)
  then have "sv_killed (on_ready e stack sv (CtlReady ccfd s [- EPIPE]))"
    using assms(1,3)
    by (simp add: on_ready_def handle_ctl_client_def Let_def case_prod_beta sigpipe_def send_def EPIPE_def)
  then show ?thesis by (simp add: Let_def)
qed

end
