(* ===== verification/Server_Steps.thy ===== *)
theory Server_Steps
  imports Server_Main "HOL-Library.Multiset"
begin

text \<open>
  The running server as a transition system: the main thread, which accepts connections and
  carries out control commands, and the four workers of \<open>worker_thread_loop\<close> interleave at the
  granularity of the code's critical sections and of the single writes it makes outside them. A
  week switch of \<open>ctx_set_hw\<close> is four steps: the paths under \<open>hw_lock\<close> held for writing (which waits
  for readers), the directories, the tracker under \<open>tracker_lock\<close>, the results file under
  \<open>csv_lock\<close>. Recording a grade is two, with \<open>hw_lock\<close> held for reading over both. Reading the
  connection, compiling and running the submission touch no shared state; they end in one of the
  steps of a busy worker, or they never end: a client that stays silent, a compiler that fills its
  pipe (\<open>Launch\<close>), a program that does not stop. The same goes for a control connection.

  The last three fields of the state are no part of the program: the connections accepted and
  closed so far and the submissions recorded since the tracker was last emptied.
\<close>

section \<open>State\<close>

text \<open>The main thread waits for events, receives a control request, for ever perhaps, or is in the middle
  of a week switch.\<close>

datatype main_pc = Polling | Receiving | Ctl_Hung | SwitchDirs string | SwitchReset string | SwitchCsv string

text \<open>
  A worker is at the top of its loop, before it shows itself as idle; in \<open>dequeue_job\<close>; has a
  connection, but not yet shown itself as running; is about to note the week; is somewhere in the
  rest of \<open>handle_client\<close>, for ever perhaps; has recorded the grade and is about to write the row; or
  has nothing left but to answer and to close the connection.
\<close>

datatype worker =
    Starting
  | Waiting
  | Got int
  | Took int
  | Busy int string
  | Hung int
  | Recording int string string GradeResult u32 u32
  | Closing int

record sys =
  sy_world :: world
  sy_ring :: ring
  sy_main :: main_pc
  sy_workers :: "worker list"
  sy_status :: "nat list"
  sy_accepted :: "int list"
  sy_closed :: "int list"
  sy_history :: "submission list"

abbreviation ctx_of :: "sys \<Rightarrow> ServerContext" where
  "ctx_of s \<equiv> wd_ctx (sy_world s)"

abbreviation os_of :: "sys \<Rightarrow> os" where
  "os_of s \<equiv> wd_os (sy_world s)"

definition sys_init :: "env \<Rightarrow> os \<Rightarrow> sys" where
  "sys_init e w =
     \<lparr>sy_world = \<lparr>wd_ctx = fst (ctx_init e w), wd_os = snd (ctx_init e w)\<rparr>, sy_ring = queue_init,
      sy_main = Polling, sy_workers = replicate NUM_THREADS Starting, sy_status = replicate NUM_THREADS 0,
      sy_accepted = [], sy_closed = [], sy_history = []\<rparr>"

text \<open>The connection a worker has in hand.\<close>

fun held :: "worker \<Rightarrow> int list" where
  "held (Got sock) = [sock]"
| "held (Took sock) = [sock]"
| "held (Busy sock task_hw) = [sock]"
| "held (Hung sock) = [sock]"
| "held (Recording sock task_hw sid g ms kb) = [sock]"
| "held (Closing sock) = [sock]"
| "held _ = []"

fun reads_hw :: "worker \<Rightarrow> bool" where
  "reads_hw (Recording sock task_hw sid g ms kb) = True"
| "reads_hw _ = False"

section \<open>Steps\<close>

definition set_worker :: "nat \<Rightarrow> worker \<Rightarrow> sys \<Rightarrow> sys" where
  "set_worker i wk s = s\<lparr>sy_workers := (sy_workers s)[i := wk]\<rparr>"

text \<open>\<open>thread_status\<close> is written without a lock.\<close>

definition show_status :: "nat \<Rightarrow> nat \<Rightarrow> sys \<Rightarrow> sys" where
  "show_status i v s = s\<lparr>sy_status := (sy_status s)[i := v]\<rparr>"

text \<open>The end of \<open>handle_client\<close> and the way back to the top of the worker's loop.\<close>

definition finish :: "nat \<Rightarrow> int \<Rightarrow> sys \<Rightarrow> sys" where
  "finish i sock s = (set_worker i Starting s)\<lparr>sy_closed := sy_closed s @ [sock]\<rparr>"

definition take_job :: "nat \<Rightarrow> int \<Rightarrow> ring \<Rightarrow> sys \<Rightarrow> sys" where
  "take_job i sock q s = (set_worker i (Got sock) s)\<lparr>sy_ring := q\<rparr>"

definition note_week :: "ServerContext \<Rightarrow> string" where
  "note_week ctx = strncpy (replicate MAX_WEEK_NAME NUL) (current_hw ctx) MAX_WEEK_NAME"

inductive sys_step :: "env \<Rightarrow> sys \<Rightarrow> sys \<Rightarrow> bool" for e where
  accept: "sy_main s = Polling \<Longrightarrow>
     sys_step e s (s\<lparr>sy_ring := enqueue_job sock (sy_ring s), sy_accepted := sy_accepted s @ [sock]\<rparr>)"
| control: "sy_main s = Polling \<Longrightarrow> sys_step e s (s\<lparr>sy_main := Receiving\<rparr>)"
| ctl_gone: "sy_main s = Receiving \<Longrightarrow> sys_step e s (s\<lparr>sy_main := Polling\<rparr>)"
| ctl_hangs: "sy_main s = Receiving \<Longrightarrow> sys_step e s (s\<lparr>sy_main := Ctl_Hung\<rparr>)"
| command: "sy_main s = Receiving \<Longrightarrow> rq_cmd req \<noteq> ipc_cmd CMD_SET_HW \<Longrightarrow>
     sys_step e s (s\<lparr>sy_world := \<lparr>wd_ctx = fst (snd (handle_request e req (ctx_of s) (os_of s))),
                                 wd_os = snd (snd (handle_request e req (ctx_of s) (os_of s)))\<rparr>,
                    sy_main := Polling\<rparr>)"
| switch_paths: "sy_main s = Receiving \<Longrightarrow> set_hw_arg payload = week \<Longrightarrow> week \<noteq> [] \<Longrightarrow>
     list_all (\<lambda>wk. \<not> reads_hw wk) (sy_workers s) \<Longrightarrow>
     sys_step e s (s\<lparr>sy_world := (sy_world s)\<lparr>wd_ctx := set_hw_paths week (ctx_of s)\<rparr>,
                    sy_main := SwitchDirs week\<rparr>)"
| switch_dirs: "sy_main s = SwitchDirs week \<Longrightarrow>
     sys_step e s (s\<lparr>sy_world := (sy_world s)\<lparr>wd_os := set_hw_dirs e (ctx_of s) (os_of s)\<rparr>,
                    sy_main := SwitchReset week\<rparr>)"
| switch_reset: "sy_main s = SwitchReset week \<Longrightarrow>
     sys_step e s (s\<lparr>sy_world := (sy_world s)\<lparr>wd_ctx := set_hw_reset_tracker (ctx_of s)\<rparr>,
                    sy_main := SwitchCsv week, sy_history := []\<rparr>)"
| switch_csv: "sy_main s = SwitchCsv week \<Longrightarrow> set_hw_switch_csv e week (ctx_of s) (os_of s) = (ctx', w') \<Longrightarrow>
     sys_step e s (s\<lparr>sy_world := \<lparr>wd_ctx = ctx', wd_os = w'\<rparr>, sy_main := Polling\<rparr>)"
| show_idle: "i < length (sy_workers s) \<Longrightarrow> sy_workers s ! i = Starting \<Longrightarrow>
     sys_step e s (show_status i 0 (set_worker i Waiting s))"
| dequeue: "i < length (sy_workers s) \<Longrightarrow> sy_workers s ! i = Waiting \<Longrightarrow>
     dequeue_job (sy_ring s) = Some (sock, q) \<Longrightarrow> sys_step e s (take_job i sock q s)"
| show_running: "i < length (sy_workers s) \<Longrightarrow> sy_workers s ! i = Got sock \<Longrightarrow>
     sys_step e s (show_status i 1 (set_worker i (Took sock) s))"
| note_hw: "i < length (sy_workers s) \<Longrightarrow> sy_workers s ! i = Took sock \<Longrightarrow>
     sys_step e s (set_worker i (Busy sock (note_week (ctx_of s))) s)"
| hangs: "i < length (sy_workers s) \<Longrightarrow> sy_workers s ! i = Busy sock task_hw \<Longrightarrow>
     sys_step e s (set_worker i (Hung sock) s)"
| no_record: "i < length (sy_workers s) \<Longrightarrow> sy_workers s ! i = Busy sock task_hw \<Longrightarrow>
     sys_step e s (set_worker i (Closing sock) s)"
| record_sub: "i < length (sy_workers s) \<Longrightarrow> sy_workers s ! i = Busy sock task_hw \<Longrightarrow>
     strncmp_eq (current_hw (ctx_of s)) task_hw MAX_WEEK_NAME \<Longrightarrow>
     sys_step e s ((set_worker i (Recording sock task_hw sid g ms kb) s)
       \<lparr>sy_world := (sy_world s)\<lparr>wd_ctx := fst (ctx_record_submission now (ctx_of s) sid g)\<rparr>,
        sy_history := sy_history s @ [(now, cstr sid, g)]\<rparr>)"
| write_csv: "i < length (sy_workers s) \<Longrightarrow> sy_workers s ! i = Recording sock task_hw sid g ms kb \<Longrightarrow>
     ctx_write_csv e (ctx_of s) sid g ms kb task_hw (os_of s) = (ctx', w') \<Longrightarrow>
     sys_step e s ((set_worker i (Closing sock) s)\<lparr>sy_world := \<lparr>wd_ctx = ctx', wd_os = w'\<rparr>\<rparr>)"
| close_client: "i < length (sy_workers s) \<Longrightarrow> sy_workers s ! i = Closing sock \<Longrightarrow>
     sys_step e s (finish i sock s)"

lemmas worker_change = take_job_def finish_def set_worker_def show_status_def

section \<open>Runs and invariants\<close>

text \<open>Runs that stay within a given set of states.\<close>

inductive runs :: "('s \<Rightarrow> 's \<Rightarrow> bool) \<Rightarrow> ('s \<Rightarrow> bool) \<Rightarrow> 's \<Rightarrow> 's \<Rightarrow> bool" for step within where
  stay: "runs step within s s"
| go: "runs step within s t \<Longrightarrow> step t u \<Longrightarrow> within u \<Longrightarrow> runs step within s u"

lemma runs_trans: "runs step within s t \<Longrightarrow> runs step within r s \<Longrightarrow> runs step within r t"
  by (induction rule: runs.induct) (auto intro: runs.go)

lemma runs_one: "step s t \<Longrightarrow> within t \<Longrightarrow> runs step within s t"
  by (rule runs.go [OF runs.stay])

locale safe_system =
  fixes step :: "'s \<Rightarrow> 's \<Rightarrow> bool"
    and within :: "'s \<Rightarrow> bool"
    and safe :: "'s \<Rightarrow> bool"
  assumes keeps: "safe s \<Longrightarrow> step s t \<Longrightarrow> within t \<Longrightarrow> safe t"
begin

lemma runs_safe: "runs step within s t \<Longrightarrow> safe s \<Longrightarrow> safe t"
  by (induction rule: runs.induct) (auto intro: keeps)

end

section \<open>No connection is lost\<close>

definition in_hand :: "sys \<Rightarrow> int list" where
  "in_hand s = concat (map held (sy_workers s))"

definition conserved :: "sys \<Rightarrow> bool" where
  "conserved s \<longleftrightarrow> ring_inv (sy_ring s) \<and>
     mset (sy_accepted s) = mset (ring_content (sy_ring s)) + mset (in_hand s) + mset (sy_closed s)"

definition not_crowded :: "sys \<Rightarrow> bool" where
  "not_crowded s \<longleftrightarrow> q_count (sy_ring s) \<le> MAX_QUEUE"

lemma mset_concat_update:
  "i < length ws \<Longrightarrow> mset (concat (map f (ws[i := w]))) + mset (f (ws ! i)) = mset (concat (map f ws)) + mset (f w)"
proof (induction ws arbitrary: i)
  case (Cons a ws)
  then show ?case by (cases i) (auto simp: ac_simps)
qed simp

lemma in_hand_update:
  "i < length (sy_workers s) \<Longrightarrow>
   mset (concat (map held ((sy_workers s)[i := wk]))) + mset (held (sy_workers s ! i)) = mset (in_hand s) + mset (held wk)"
  by (simp add: in_hand_def mset_concat_update)

lemma accept_conserved:
  assumes "conserved s" and "not_crowded (s\<lparr>sy_ring := enqueue_job sock (sy_ring s), sy_accepted := sy_accepted s @ [sock]\<rparr>)"
  shows "conserved (s\<lparr>sy_ring := enqueue_job sock (sy_ring s), sy_accepted := sy_accepted s @ [sock]\<rparr>)"
proof -
  have "length (ring_content (sy_ring s)) < MAX_QUEUE"
    using assms(2) by (simp add: not_crowded_def enqueue_job_def)
  then show ?thesis
    using assms(1) jobs.enq_inv [of "sy_ring s" sock] jobs.enq_content [of "sy_ring s" sock]
    by (simp add: conserved_def in_hand_def)
qed

lemma held_moves:
  assumes "conserved s" and "i < length (sy_workers s)" and "held (sy_workers s ! i) = held wk"
    and "sy_ring t = sy_ring s" "sy_accepted t = sy_accepted s" "sy_closed t = sy_closed s"
    and "sy_workers t = (sy_workers s)[i := wk]"
  shows "conserved t"
  using assms in_hand_update [OF assms(2), of wk] by (simp add: conserved_def in_hand_def)

interpretation queueing: safe_system "sys_step e" not_crowded conserved
proof
  fix s t
  assume s: "conserved s" and st: "sys_step e s t" and nc: "not_crowded t"
  from st show "conserved t"
  proof cases
    case (accept sock)
    then show ?thesis using accept_conserved s nc by simp
  next
    case (dequeue i sock q)
    then have "ring_content (sy_ring s) = sock # ring_content q \<and> ring_inv q"
      using s jobs.deq_some [of "sy_ring s" sock q] by (simp add: conserved_def)
    moreover have "mset (in_hand t) = mset (in_hand s) + {#sock#}"
      using dequeue in_hand_update [of i s "Got sock"] by (simp add: take_job_def set_worker_def in_hand_def)
    ultimately show ?thesis using s dequeue by (simp add: conserved_def take_job_def set_worker_def)
  next
    case (show_idle i)
    then show ?thesis using held_moves [OF s, of i Waiting] by (simp add: worker_change)
  next
    case (show_running i sock)
    then show ?thesis using held_moves [OF s, of i "Took sock"] by (simp add: worker_change)
  next
    case (note_hw i sock)
    then show ?thesis
      using held_moves [OF s, of i "Busy sock (note_week (ctx_of s))"] by (simp add: worker_change)
  next
    case (hangs i sock)
    then show ?thesis using held_moves [OF s, of i "Hung sock"] by (simp add: worker_change)
  next
    case (no_record i sock)
    then show ?thesis using held_moves [OF s, of i "Closing sock"] by (simp add: worker_change)
  next
    case (record_sub i sock task_hw now sid g ms kb)
    then show ?thesis
      using held_moves [OF s, of i "Recording sock task_hw sid g ms kb"] by (simp add: worker_change)
  next
    case (write_csv i sock)
    then show ?thesis using held_moves [OF s, of i "Closing sock"] by (simp add: worker_change)
  next
    case (close_client i sock)
    then have "mset (in_hand t) + {#sock#} = mset (in_hand s)"
      using in_hand_update [of i s Starting] by (simp add: worker_change in_hand_def)
    then show ?thesis using s close_client by (simp add: conserved_def worker_change)
  qed (use s in \<open>simp_all add: conserved_def in_hand_def\<close>)
qed

lemma conserved_init: "conserved (sys_init e w)"
  using ring_init by (simp add: conserved_def sys_init_def in_hand_def NUM_THREADS_def)

section \<open>What the display shows\<close>

text \<open>
  The status of a worker that waits, or has just been given a connection, is 0; once it has said so, and
  as long as it has the connection, it is 1; at the top of the loop it is still what it was.
\<close>

fun shown_as :: "worker \<Rightarrow> nat \<Rightarrow> bool" where
  "shown_as Starting v = (v = 0 \<or> v = 1)"
| "shown_as Waiting v = (v = 0)"
| "shown_as (Got sock) v = (v = 0)"
| "shown_as _ v = (v = 1)"

definition display_ok :: "sys \<Rightarrow> bool" where
  "display_ok s \<longleftrightarrow> list_all2 shown_as (sy_workers s) (sy_status s)"

lemma display_set:
  "list_all2 shown_as ws vs \<Longrightarrow> shown_as wk v \<Longrightarrow> list_all2 shown_as (ws[i := wk]) (vs[i := v])"
  by (rule list_all2_update_cong)

lemma display_keep:
  assumes "list_all2 shown_as ws vs" and "i < length ws" and "shown_as (ws ! i) (vs ! i) \<Longrightarrow> shown_as wk (vs ! i)"
  shows "list_all2 shown_as (ws[i := wk]) vs"
proof -
  have "shown_as wk (vs ! i)" using assms by (simp add: list_all2_nthD)
  then show ?thesis using display_set [OF assms(1), of wk "vs ! i" i] by simp
qed

interpretation display: safe_system "sys_step e" "\<lambda>_. True" display_ok
proof
  fix s t
  assume s: "display_ok s" and st: "sys_step e s t"
  note set = display_set [OF s [unfolded display_ok_def]] and keep = display_keep [OF s [unfolded display_ok_def]]
  from st show "display_ok t"
    by cases (use s in \<open>auto simp: display_ok_def worker_change intro!: set keep\<close>)
qed

lemma display_init: "display_ok (sys_init e w)"
  by (simp add: display_ok_def sys_init_def NUM_THREADS_def list_all2_conv_all_nth)

section \<open>The tracker summarises what was recorded since the last reset\<close>

definition fits_table :: "sys \<Rightarrow> bool" where
  "fits_table s \<longleftrightarrow> (\<forall>x \<in> set (sy_history s). valid_id (who x)) \<and> length (ids_of (sy_history s)) \<le> MAX_STUDENTS"

definition tracker_ok :: "sys \<Rightarrow> bool" where
  "tracker_ok s \<longleftrightarrow> tracks (ctx_of s) (sy_history s)"

lemma tracks_cong:
  "students c' = students c \<Longrightarrow> submitted_count c' = submitted_count c \<Longrightarrow> tracks c' h = tracks c h"
  by (simp add: tracks_def)

lemma write_csv_frame:
  "students (fst (ctx_write_csv e ctx sid g ms kb wk w)) = students ctx"
  "submitted_count (fst (ctx_write_csv e ctx sid g ms kb wk w)) = submitted_count ctx"
  "current_hw (fst (ctx_write_csv e ctx sid g ms kb wk w)) = current_hw ctx"
  "ans_path (fst (ctx_write_csv e ctx sid g ms kb wk w)) = ans_path ctx"
  "submit_dir (fst (ctx_write_csv e ctx sid g ms kb wk w)) = submit_dir ctx"
  "csv_path (csv (fst (ctx_write_csv e ctx sid g ms kb wk w))) = csv_path (csv ctx)"
  "csv_fd (csv (fst (ctx_write_csv e ctx sid g ms kb wk w))) = csv_fd (csv ctx)"
  "os_fds (snd (ctx_write_csv e ctx sid g ms kb wk w)) = os_fds w"
  by (simp_all add: ctx_write_csv_def csv_append_def csv_write_def case_prod_beta split: option.splits)

lemma record_frame:
  "current_hw (fst (ctx_record_submission now ctx sid g)) = current_hw ctx"
  "ans_path (fst (ctx_record_submission now ctx sid g)) = ans_path ctx"
  "submit_dir (fst (ctx_record_submission now ctx sid g)) = submit_dir ctx"
  "csv (fst (ctx_record_submission now ctx sid g)) = csv ctx"
  by (simp_all add: ctx_record_submission_def record_at_def Let_def split: option.splits)

lemma record_tracked:
  assumes "tracks c h" and "\<forall>x \<in> set (h @ [(now, cstr sid, g)]). valid_id (who x)"
    and "length (ids_of (h @ [(now, cstr sid, g)])) \<le> MAX_STUDENTS"
  shows "tracks (fst (ctx_record_submission now c sid g)) (h @ [(now, cstr sid, g)])"
proof (rule tracker.record_holds [OF assms(1)])
  show "valid_id sid" using assms(2) by (simp add: valid_id_def)
  show "has_room h (cstr sid)"
    using assms(3) by (auto simp: has_room_def ids_of_snoc add_id_def split: if_splits)
qed

interpretation tracking: safe_system "sys_step e" fits_table tracker_ok
proof
  fix s t
  assume s: "tracker_ok s" and st: "sys_step e s t" and ft: "fits_table t"
  from st show "tracker_ok t"
  proof cases
    case (command req)
    then show ?thesis
      using s other_commands_frame(5,6) [of req e "ctx_of s" "os_of s"] by (simp add: tracker_ok_def tracks_def)
  next
    case (switch_paths payload week)
    then show ?thesis using s by (simp add: tracker_ok_def set_hw_paths_def tracks_def)
  next
    case (switch_reset week)
    then show ?thesis using s reset_tracks by (simp add: tracker_ok_def)
  next
    case (switch_csv week ctx' w')
    then show ?thesis
      using s switch_csv_frame(4,5) [of e week "ctx_of s" "os_of s"] by (simp add: tracker_ok_def tracks_def)
  next
    case (record_sub i sock task_hw now sid g ms kb)
    then show ?thesis
      using s ft record_tracked [of "ctx_of s" "sy_history s" now sid g]
      by (simp add: tracker_ok_def fits_table_def worker_change)
  next
    case (write_csv i sock task_hw sid g ms kb ctx' w')
    then show ?thesis
      using s write_csv_frame(1,2) [of e "ctx_of s" sid g ms kb task_hw "os_of s"]
      by (simp add: tracker_ok_def worker_change tracks_def)
  qed (use s in \<open>simp_all add: tracker_ok_def worker_change\<close>)
qed

lemma tracker_init: "tracker_ok (sys_init e w)"
  using ctx_init_fresh [of e w] by (simp add: tracker_ok_def sys_init_def)

section \<open>Which files a worker works with\<close>

fun switching_to :: "main_pc \<Rightarrow> string option" where
  "switching_to (SwitchDirs week) = Some week"
| "switching_to (SwitchReset week) = Some week"
| "switching_to (SwitchCsv week) = Some week"
| "switching_to _ = None"

definition named_after :: "string \<Rightarrow> ServerContext \<Rightarrow> bool" where
  "named_after week ctx \<longleftrightarrow> valid_week week \<and> cstr week = week \<and> current_hw ctx = week \<and>
     ans_path ctx = week @ ''_ans.txt'' \<and> submit_dir ctx = ''submissions/'' @ week"

fun records_under :: "string \<Rightarrow> worker \<Rightarrow> bool" where
  "records_under week (Recording sock task_hw sid g ms kb) = strncmp_eq week task_hw MAX_WEEK_NAME"
| "records_under week _ = True"

definition names_ok :: "sys \<Rightarrow> bool" where
  "names_ok s \<longleftrightarrow>
     named_after (current_hw (ctx_of s)) (ctx_of s) \<and>
     (case switching_to (sy_main s) of
        None \<Rightarrow> csv_path (csv (ctx_of s)) = current_hw (ctx_of s) @ ''_results.csv''
      | Some week \<Rightarrow> current_hw (ctx_of s) = week) \<and>
     (0 \<le> csv_fd (csv (ctx_of s)) \<longrightarrow> os_fds (os_of s) (csv_fd (csv (ctx_of s))) = Some (csv_path (csv (ctx_of s)))) \<and>
     list_all (records_under (current_hw (ctx_of s))) (sy_workers s)"

lemma list_all_update: "list_all P xs \<Longrightarrow> P x \<Longrightarrow> list_all P (xs[i := x])"
  by (auto simp: list_all_iff dest: set_update_subset_insert [THEN subsetD])

lemma no_reader_no_record: "list_all (\<lambda>wk. \<not> reads_hw wk) ws \<Longrightarrow> list_all (records_under week) ws"
proof -
  have "records_under week wk" if "\<not> reads_hw wk" for wk using that by (cases wk) simp_all
  then show "list_all (\<lambda>wk. \<not> reads_hw wk) ws \<Longrightarrow> list_all (records_under week) ws"
    by (simp add: list_all_iff)
qed

lemma named_after_cong:
  "current_hw c' = current_hw c \<Longrightarrow> ans_path c' = ans_path c \<Longrightarrow> submit_dir c' = submit_dir c \<Longrightarrow>
   named_after week c' = named_after week c"
  by (simp add: named_after_def)

lemma paths_named: "valid_week week \<Longrightarrow> cstr week = week \<Longrightarrow> named_after week (set_hw_paths week ctx)"
  using short_names [of week] by (simp add: named_after_def set_hw_paths_def SUBMISSIONS_DIR_def)

lemma switch_csv_fd:
  "0 \<le> csv_fd (csv (fst (set_hw_switch_csv e week ctx w))) \<Longrightarrow>
   os_fds (snd (set_hw_switch_csv e week ctx w)) (csv_fd (csv (fst (set_hw_switch_csv e week ctx w))))
     = Some (csv_path (csv (fst (set_hw_switch_csv e week ctx w))))"
  by (auto simp: set_hw_switch_csv_def csv_write_def Let_def split: option.splits)

interpretation naming: safe_system "sys_step e" "\<lambda>_. True" names_ok
proof
  fix s t
  assume s: "names_ok s" and st: "sys_step e s t"
  from st show "names_ok t"
  proof cases
    case (command req)
    then show ?thesis
      using s other_commands_frame [of req e "ctx_of s" "os_of s"] by (simp add: names_ok_def named_after_def)
  next
    case (switch_paths payload week)
    have "valid_week week" "cstr week = week" using switch_paths set_hw_arg_valid by auto
    moreover have "current_hw (set_hw_paths week (ctx_of s)) = week" "csv (set_hw_paths week (ctx_of s)) = csv (ctx_of s)"
      using paths_named [OF calculation, of "ctx_of s"] by (simp_all add: named_after_def set_hw_paths_def)
    ultimately show ?thesis
      using s switch_paths no_reader_no_record [of "sy_workers s" week] by (simp add: names_ok_def paths_named)
  next
    case (switch_reset week)
    then show ?thesis using s by (auto simp: names_ok_def set_hw_reset_tracker_def named_after_def)
  next
    case (switch_csv week ctx' w')
    have "valid_week week" "cstr week = week" using s switch_csv by (auto simp: names_ok_def named_after_def)
    then have "snprintf 256 (week @ ''_results.csv'') = week @ ''_results.csv''" using short_names(4) [of week] by simp
    then show ?thesis
      using s switch_csv switch_csv_frame [of e week "ctx_of s" "os_of s"] switch_csv_fd [of e week "ctx_of s" "os_of s"]
      by (auto simp: names_ok_def named_after_def)
  next
    case (record_sub i sock task_hw now sid g ms kb)
    then show ?thesis
      using s record_frame [of now "ctx_of s" sid g]
      by (simp add: names_ok_def named_after_def worker_change list_all_update split: option.splits)
  next
    case (write_csv i sock task_hw sid g ms kb ctx' w')
    then show ?thesis
      using s write_csv_frame [of e "ctx_of s" sid g ms kb task_hw "os_of s"]
      by (simp add: names_ok_def named_after_def worker_change list_all_update split: option.splits)
  qed (use s in \<open>simp_all add: names_ok_def worker_change list_all_update split: option.splits\<close>)
qed

lemma names_init: "names_ok (sys_init e w)"
proof -
  have v: "valid_week ''week_1''" and c: "cstr ''week_1'' = ''week_1''"
    by (simp_all add: valid_week_def strlen_def cstr_def)
  have fd: "0 \<le> csv_fd (csv (fst (ctx_init e w))) \<Longrightarrow>
      os_fds (snd (ctx_init e w)) (csv_fd (csv (fst (ctx_init e w)))) = Some (csv_path (csv (fst (ctx_init e w))))"
    using v switch_csv_fd by (simp add: ctx_init_def ctx_set_hw_def valid_week_def Let_def)
  have n: "current_hw (fst (ctx_init e w)) = ''week_1''" "ans_path (fst (ctx_init e w)) = ''week_1'' @ ''_ans.txt''"
    "submit_dir (fst (ctx_init e w)) = ''submissions/'' @ ''week_1''"
    "csv_path (csv (fst (ctx_init e w))) = ''week_1'' @ ''_results.csv''"
    unfolding ctx_init_def by (simp_all only: set_hw_valid [OF v] c)
  show ?thesis
    using fd v c
    unfolding names_ok_def named_after_def sys_init_def by (simp add: n NUM_THREADS_def list_all_iff)
qed

lemma same_week: "valid_week week \<Longrightarrow> cstr week = week \<Longrightarrow> strncmp_eq week task MAX_WEEK_NAME \<Longrightarrow> cstr task = week"
proof -
  assume v: "valid_week week" "cstr week = week" "strncmp_eq week task MAX_WEEK_NAME"
  then have "length week < 32" "take 32 (cstr task) = week" by (simp_all add: valid_week_def strlen_def strncmp_eq_def)
  then show "cstr task = week" by (cases "length (cstr task) < 32") auto
qed

lemma runs_any: "runs step within s t \<Longrightarrow> runs step (\<lambda>_. True) s t"
  by (induction rule: runs.induct) (auto intro: runs.intros)

lemma runs_five: "step a b \<Longrightarrow> step b c \<Longrightarrow> step c d \<Longrightarrow> step d f \<Longrightarrow> step f g \<Longrightarrow> runs step (\<lambda>_. True) a g"
  by (rule runs.go [OF runs.go [OF runs.go [OF runs.go [OF runs_one]]]]) simp_all

lemma one_row:
  assumes "os_fds w (csv_fd (csv ctx)) = Some path"
  shows "os_files (snd (ctx_write_csv e ctx sid g ms kb wk w)) =
    (if csv_fd (csv ctx) < 0 \<or> env_write e (csv_line e sid g ms kb wk) < 0 then os_files w
     else (os_files w)(path \<mapsto> (case os_files w path of Some t \<Rightarrow> t | None \<Rightarrow> []) @
            take (nat (env_write e (csv_line e sid g ms kb wk))) (csv_line e sid g ms kb wk)))"
  using assms by (simp add: ctx_write_csv_def csv_append_def csv_write_def)

section \<open>A week switch, step by step\<close>

definition after_switch :: "env \<Rightarrow> string \<Rightarrow> sys \<Rightarrow> sys" where
  "after_switch e week s =
     s\<lparr>sy_world := \<lparr>wd_ctx = fst (ctx_set_hw e week (ctx_of s) (os_of s)),
                    wd_os = snd (ctx_set_hw e week (ctx_of s) (os_of s))\<rparr>, sy_history := []\<rparr>"

lemma switch_runs:
  assumes "sy_main s = Polling" and "set_hw_arg p = week" "week \<noteq> []"
    and "list_all (\<lambda>wk. \<not> reads_hw wk) (sy_workers s)"
  shows "runs (sys_step e) (\<lambda>_. True) s (after_switch e week s)"
proof -
  let ?c1 = "set_hw_paths week (ctx_of s)"
  let ?w1 = "set_hw_dirs e ?c1 (os_of s)"
  let ?c2 = "set_hw_reset_tracker ?c1"
  let ?s0 = "s\<lparr>sy_main := Receiving\<rparr>"
  let ?s1 = "?s0\<lparr>sy_world := (sy_world ?s0)\<lparr>wd_ctx := ?c1\<rparr>, sy_main := SwitchDirs week\<rparr>"
  let ?s2 = "?s1\<lparr>sy_world := (sy_world ?s1)\<lparr>wd_os := ?w1\<rparr>, sy_main := SwitchReset week\<rparr>"
  let ?s3 = "?s2\<lparr>sy_world := (sy_world ?s2)\<lparr>wd_ctx := ?c2\<rparr>, sy_main := SwitchCsv week, sy_history := []\<rparr>"
  obtain c3 w3 where r: "set_hw_switch_csv e week ?c2 ?w1 = (c3, w3)" by fastforce
  let ?s4 = "?s3\<lparr>sy_world := \<lparr>wd_ctx = c3, wd_os = w3\<rparr>, sy_main := Polling\<rparr>"
  have "sys_step e s ?s0" by (rule control [OF assms(1)])
  moreover have "sys_step e ?s0 ?s1" using switch_paths [of ?s0 p week e] assms(2-4) by simp
  moreover have "sys_step e ?s1 ?s2" using switch_dirs [of ?s1 week e] by simp
  moreover have "sys_step e ?s2 ?s3" using switch_reset [of ?s2 week e] by simp
  moreover have "sys_step e ?s3 ?s4" using switch_csv [of ?s3 week e c3 w3] r by simp
  ultimately have "runs (sys_step e) (\<lambda>_. True) s ?s4"
    by (rule runs_five)
  moreover have "ctx_set_hw e week (ctx_of s) (os_of s) = (c3, w3)"
    using r set_hw_arg_valid [of p] assms(2,3) cstr_set_hw_arg [of p]
    by (auto simp: ctx_set_hw_def valid_week_def Let_def)
  then have "after_switch e week s = ?s4" using assms(1) by (simp add: after_switch_def)
  ultimately show ?thesis by simp
qed

text \<open>A worker records between the second and the third step of a switch.\<close>

lemma record_in_window:
  assumes s: "sy_main s = SwitchReset week"
    and wk: "i < length (sy_workers s)" "sy_workers s ! i = Busy sock task"
    and same: "strncmp_eq (current_hw (ctx_of s)) task MAX_WEEK_NAME"
    and csv: "ctx_write_csv e (fst (ctx_record_submission now (ctx_of s) sid g)) sid g ms kb task (os_of s) = (c2, w2)"
    and sw: "set_hw_switch_csv e week (set_hw_reset_tracker c2) w2 = (c4, w4)"
  shows "runs (sys_step e) (\<lambda>_. True) s
    (s\<lparr>sy_workers := (sy_workers s)[i := Starting], sy_closed := sy_closed s @ [sock], sy_history := [],
       sy_world := \<lparr>wd_ctx = c4, wd_os = w4\<rparr>, sy_main := Polling\<rparr>)"
proof -
  let ?s1 = "(set_worker i (Recording sock task sid g ms kb) s)
       \<lparr>sy_world := (sy_world s)\<lparr>wd_ctx := fst (ctx_record_submission now (ctx_of s) sid g)\<rparr>,
        sy_history := sy_history s @ [(now, cstr sid, g)]\<rparr>"
  let ?s2 = "(set_worker i (Closing sock) ?s1)\<lparr>sy_world := \<lparr>wd_ctx = c2, wd_os = w2\<rparr>\<rparr>"
  let ?s' = "finish i sock ?s2"
  let ?s3 = "?s'\<lparr>sy_world := (sy_world ?s')\<lparr>wd_ctx := set_hw_reset_tracker c2\<rparr>, sy_main := SwitchCsv week, sy_history := []\<rparr>"
  let ?s4 = "?s3\<lparr>sy_world := \<lparr>wd_ctx = c4, wd_os = w4\<rparr>, sy_main := Polling\<rparr>"
  have "sys_step e s ?s1" by (rule record_sub [OF wk same])
  moreover have "sys_step e ?s1 ?s2"
    by (rule write_csv [where task_hw = task and sid = sid and g = g and ms = ms and kb = kb])
       (use wk csv in \<open>simp_all add: set_worker_def\<close>)
  moreover have "sys_step e ?s2 ?s'" by (rule close_client) (use wk in \<open>simp_all add: set_worker_def\<close>)
  moreover have "sys_step e ?s' ?s3"
    using switch_reset [of ?s' week e] s by (simp add: worker_change)
  moreover have "sys_step e ?s3 ?s4" using switch_csv [of ?s3 week e c4 w4] sw by (simp add: worker_change)
  ultimately have "runs (sys_step e) (\<lambda>_. True) s ?s4"
    by (rule runs_five)
  then show ?thesis by (simp add: worker_change)
qed

section \<open>Work left\<close>

text \<open>The steps for which nothing new has to arrive: no connection, of a client or at the control socket.\<close>

definition calm_step :: "env \<Rightarrow> sys \<Rightarrow> sys \<Rightarrow> bool" where
  "calm_step e s t \<longleftrightarrow> sys_step e s t \<and> sy_accepted t = sy_accepted s \<and> \<not> (sy_main s = Polling \<and> sy_main t = Receiving)"

fun worker_work :: "worker \<Rightarrow> nat" where
  "worker_work Starting = 1"
| "worker_work Waiting = 0"
| "worker_work (Got sock) = 6"
| "worker_work (Took sock) = 5"
| "worker_work (Busy sock task_hw) = 4"
| "worker_work (Hung sock) = 0"
| "worker_work (Recording sock task_hw sid g ms kb) = 3"
| "worker_work (Closing sock) = 2"

fun main_work :: "main_pc \<Rightarrow> nat" where
  "main_work Receiving = 4"
| "main_work (SwitchDirs week) = 3"
| "main_work (SwitchReset week) = 2"
| "main_work (SwitchCsv week) = 1"
| "main_work _ = 0"

definition work :: "sys \<Rightarrow> nat" where
  "work s = 7 * q_count (sy_ring s) + sum_list (map worker_work (sy_workers s)) + main_work (sy_main s)"

lemma work_update:
  "i < length ws \<Longrightarrow> sum_list (map worker_work (ws[i := wk])) + worker_work (ws ! i)
     = sum_list (map worker_work ws) + worker_work wk"
proof (induction ws arbitrary: i)
  case (Cons a ws)
  then show ?case by (cases i) auto
qed simp

lemma worker_steps_down:
  assumes "i < length (sy_workers s)" and "worker_work wk < worker_work (sy_workers s ! i)"
    and "sy_ring t = sy_ring s" and "sy_main t = sy_main s" and "sy_workers t = (sy_workers s)[i := wk]"
  shows "work t < work s"
  using work_update [OF assms(1), of wk] assms(2-5) by (simp add: work_def)

lemma calm_work: "calm_step e s t \<Longrightarrow> work t < work s"
proof -
  assume c: "calm_step e s t"
  then have "sys_step e s t" by (simp add: calm_step_def)
  then show ?thesis
  proof cases
    case (dequeue i sock q)
    then have "q_count (sy_ring s) = Suc (q_count q)" by (auto simp: dequeue_job_def split: if_splits)
    then show ?thesis
      using dequeue work_update [of i "sy_workers s" "Got sock"] by (simp add: work_def worker_change)
  next
    case (show_idle i)
    then show ?thesis using worker_steps_down [of i s Waiting t] by (simp add: worker_change)
  next
    case (show_running i sock)
    then show ?thesis using worker_steps_down [of i s "Took sock" t] by (simp add: worker_change)
  next
    case (note_hw i sock)
    then show ?thesis
      using worker_steps_down [of i s "Busy sock (note_week (ctx_of s))" t] by (simp add: worker_change)
  next
    case (hangs i sock)
    then show ?thesis using worker_steps_down [of i s "Hung sock" t] by (simp add: worker_change)
  next
    case (no_record i sock)
    then show ?thesis using worker_steps_down [of i s "Closing sock" t] by (simp add: worker_change)
  next
    case (record_sub i sock task_hw now sid g ms kb)
    then show ?thesis
      using worker_steps_down [of i s "Recording sock task_hw sid g ms kb" t] by (simp add: worker_change)
  next
    case (write_csv i sock)
    then show ?thesis using worker_steps_down [of i s "Closing sock" t] by (simp add: worker_change)
  next
    case (close_client i sock)
    then show ?thesis using worker_steps_down [of i s Starting t] by (simp add: worker_change)
  qed (use c in \<open>auto simp: work_def calm_step_def\<close>)
qed

lemma calm_queue: "calm_step e s t \<Longrightarrow> q_count (sy_ring t) \<le> q_count (sy_ring s)"
proof -
  assume c: "calm_step e s t"
  then have "sys_step e s t" by (simp add: calm_step_def)
  then show ?thesis
    by cases (use c in \<open>auto simp: calm_step_def worker_change dequeue_job_def split: if_splits\<close>)
qed

lemma workers_kept: "sys_step e s t \<Longrightarrow> length (sy_workers t) = length (sy_workers s)"
  by (cases rule: sys_step.cases) (auto simp: worker_change)

interpretation staffing: safe_system "sys_step e" "\<lambda>_. True" "\<lambda>s. length (sy_workers s) = NUM_THREADS"
  by unfold_locales (simp add: workers_kept)

definition in_order :: "sys \<Rightarrow> bool" where
  "in_order s \<longleftrightarrow> conserved s \<and> not_crowded s \<and> length (sy_workers s) = NUM_THREADS"

interpretation calm: finite_runs "calm_step e" in_order work
proof
  fix s t
  assume s: "in_order s" and c: "calm_step e s t"
  then have st: "sys_step e s t" and nc: "not_crowded t"
    using calm_queue [OF c] by (simp_all add: calm_step_def in_order_def not_crowded_def)
  then show "in_order t"
    using s queueing.keeps [OF _ st nc] workers_kept [OF st] by (simp add: in_order_def)
qed (rule calm_work)

text \<open>Where the server stands still until something new arrives.\<close>

lemma still_worker:
  assumes still: "\<nexists>t. calm_step e s t" and i: "i < length (sy_workers s)"
  shows "sy_workers s ! i = Waiting \<and> ring_content (sy_ring s) = [] \<or> (\<exists>sock. sy_workers s ! i = Hung sock)"
proof -
  have calm: "\<not> sys_step e s t" if "sy_accepted t = sy_accepted s" "sy_main t = sy_main s" for t
    using still that by (auto simp: calm_step_def)
  show ?thesis
  proof (cases "sy_workers s ! i")
    case Starting
    then show ?thesis using calm show_idle [OF i Starting, of e] by (simp add: worker_change)
  next
    case Waiting
    have "q_count (sy_ring s) = 0"
    proof (rule ccontr)
      assume "q_count (sy_ring s) \<noteq> 0"
      then obtain sock q where "dequeue_job (sy_ring s) = Some (sock, q)" by (simp add: dequeue_job_def)
      then show False using calm dequeue [OF i Waiting, of sock q e] by (simp add: worker_change)
    qed
    then show ?thesis using Waiting by (simp add: ring_content_def)
  next
    case (Got sock)
    then show ?thesis using calm show_running [OF i Got, of e] by (simp add: worker_change)
  next
    case (Took sock)
    then show ?thesis using calm note_hw [OF i Took, of e] by (simp add: worker_change)
  next
    case (Busy sock task_hw)
    then show ?thesis using calm no_record [OF i Busy, of e] by (simp add: worker_change)
  next
    case (Recording sock task_hw sid g ms kb)
    obtain c w where "ctx_write_csv e (ctx_of s) sid g ms kb task_hw (os_of s) = (c, w)" by fastforce
    then show ?thesis using calm write_csv [OF i Recording, of e c w] by (simp add: worker_change)
  next
    case (Closing sock)
    then show ?thesis using calm close_client [OF i Closing, of e] by (simp add: worker_change)
  qed simp
qed

lemma still_main:
  assumes still: "\<nexists>t. calm_step e s t"
  shows "sy_main s = Polling \<or> sy_main s = Ctl_Hung"
proof -
  have calm: "\<not> sys_step e s t" if "sy_accepted t = sy_accepted s" "sy_main s \<noteq> Polling" for t
    using still that by (auto simp: calm_step_def)
  show ?thesis
  proof (cases "sy_main s")
    case Receiving
    then show ?thesis using calm ctl_gone [OF Receiving, of e] by simp
  next
    case (SwitchDirs week)
    then show ?thesis using calm switch_dirs [OF SwitchDirs, of e] by simp
  next
    case (SwitchReset week)
    then show ?thesis using calm switch_reset [OF SwitchReset, of e] by simp
  next
    case (SwitchCsv week)
    obtain c w where "set_hw_switch_csv e week (ctx_of s) (os_of s) = (c, w)" by fastforce
    then show ?thesis using calm switch_csv [OF SwitchCsv, of e c w] SwitchCsv by simp
  qed simp_all
qed

text \<open>Four connections that never let their workers go on stop the service for good.\<close>

definition is_hung :: "worker \<Rightarrow> bool" where
  "is_hung wk = (case wk of Hung sock \<Rightarrow> True | _ \<Rightarrow> False)"

lemma hung_for_good:
  assumes "sys_step e s t" and "list_all is_hung (sy_workers s)"
  shows "sy_workers t = sy_workers s \<and> sy_closed t = sy_closed s"
proof -
  have "is_hung (sy_workers s ! i)" if "i < length (sy_workers s)" for i
    using assms(2) that by (simp add: list_all_length)
  with assms(1) show ?thesis by cases (force simp: is_hung_def)+
qed

lemma worker_work_most: "worker_work wk \<le> 6"
  by (cases wk) simp_all

lemma work_most:
  assumes "in_order s"
  shows "work s \<le> 728"
proof -
  have "sum_list (map worker_work ws) \<le> 6 * length ws" for ws
  proof (induction ws)
    case (Cons wk ws)
    then show ?case using worker_work_most [of wk] by simp
  qed simp
  from this [of "sy_workers s"] have "sum_list (map worker_work (sy_workers s)) \<le> 24"
    using assms by (simp add: in_order_def NUM_THREADS_def)
  moreover have "main_work (sy_main s) \<le> 4" by (cases "sy_main s") simp_all
  moreover have "q_count (sy_ring s) \<le> 100" using assms by (simp add: in_order_def not_crowded_def MAX_QUEUE_def)
  ultimately show ?thesis unfolding work_def by linarith
qed

lemma reached_in_order:
  assumes "runs (sys_step e) not_crowded (sys_init e w) s"
  shows "in_order s"
proof -
  have "length (sy_workers s) = NUM_THREADS"
    using staffing.runs_safe [OF runs_any [OF assms]] by (simp add: sys_init_def)
  moreover have "not_crowded s"
    using assms by (cases rule: runs.cases) (auto simp: not_crowded_def sys_init_def queue_init_def)
  ultimately show ?thesis using queueing.runs_safe [OF assms conserved_init] by (simp add: in_order_def)
qed

section \<open>A run\<close>

text \<open>One connection is accepted, taken by a worker, and its grade recorded.\<close>

definition demo_os :: os where
  "demo_os = \<lparr>os_files = \<lambda>_. None, os_dirs = [], os_fds = \<lambda>_. None\<rparr>"

definition demo_start :: sys where
  "demo_start = sys_init demo_os_env demo_os"

definition demo_queued :: sys where
  "demo_queued = demo_start\<lparr>sy_ring := enqueue_job 7 (sy_ring demo_start), sy_accepted := sy_accepted demo_start @ [7]\<rparr>"

definition demo_waiting :: sys where
  "demo_waiting = show_status 0 0 (set_worker 0 Waiting demo_queued)"

definition demo_got :: sys where
  "demo_got = take_job 0 7 (snd (the (dequeue_job (sy_ring demo_waiting)))) demo_waiting"

definition demo_taken :: sys where
  "demo_taken = show_status 0 1 (set_worker 0 (Took 7) demo_got)"

definition demo_busy :: sys where
  "demo_busy = set_worker 0 (Busy 7 (note_week (ctx_of demo_taken))) demo_taken"

definition demo_recording :: sys where
  "demo_recording =
     (set_worker 0 (Recording 7 (note_week (ctx_of demo_taken)) ''20240001'' GRADE_AC 3 4) demo_busy)
       \<lparr>sy_world := (sy_world demo_busy)\<lparr>wd_ctx := fst (ctx_record_submission 9 (ctx_of demo_busy) ''20240001'' GRADE_AC)\<rparr>,
        sy_history := sy_history demo_busy @ [(9, cstr ''20240001'', GRADE_AC)]\<rparr>"

lemmas demo_defs = demo_queued_def demo_waiting_def demo_got_def demo_taken_def demo_busy_def demo_recording_def
  worker_change

lemma demo_start_fields:
  "sy_main demo_start = Polling" "sy_workers demo_start = replicate 4 Starting" "sy_ring demo_start = queue_init"
  "sy_accepted demo_start = []" "sy_history demo_start = []" "sy_closed demo_start = []"
  "sy_status demo_start = replicate 4 0"
  by (simp_all add: demo_start_def sys_init_def NUM_THREADS_def)

lemma demo_week: "current_hw (ctx_of demo_start) = ''week_1''" "cstr ''week_1'' = ''week_1''"
proof -
  have "valid_week ''week_1''" by (simp add: valid_week_def strlen_def cstr_def)
  then show "current_hw (ctx_of demo_start) = ''week_1''"
    by (simp add: demo_start_def sys_init_def ctx_init_def set_hw_valid cstr_def)
qed (simp add: cstr_def)

lemma demo_job: "dequeue_job (enqueue_job 7 queue_init) = Some (7, snd (the (dequeue_job (enqueue_job 7 queue_init))))"
  by (simp add: dequeue_job_def enqueue_job_def queue_init_def MAX_QUEUE_def)

lemma demo_note: "cstr (note_week (ctx_of demo_start)) = ''week_1''"
  by (simp add: note_week_def demo_week strncpy_def cstr_def)

lemma demo_steps:
  "sys_step demo_os_env demo_start demo_queued" "sys_step demo_os_env demo_queued demo_waiting"
  "sys_step demo_os_env demo_waiting demo_got" "sys_step demo_os_env demo_got demo_taken"
  "sys_step demo_os_env demo_taken demo_busy" "sys_step demo_os_env demo_busy demo_recording"
proof -
  show "sys_step demo_os_env demo_start demo_queued"
    unfolding demo_queued_def by (rule accept) (simp add: demo_start_fields)
  show "sys_step demo_os_env demo_queued demo_waiting"
    unfolding demo_waiting_def by (rule show_idle) (simp_all add: demo_queued_def demo_start_fields)
  show "sys_step demo_os_env demo_waiting demo_got"
    unfolding demo_got_def
    by (rule dequeue) (use demo_job in \<open>simp_all add: demo_waiting_def demo_queued_def worker_change demo_start_fields\<close>)
  show "sys_step demo_os_env demo_got demo_taken"
    unfolding demo_taken_def by (rule show_running) (simp_all add: demo_defs demo_start_fields)
  show "sys_step demo_os_env demo_taken demo_busy"
    unfolding demo_busy_def by (rule note_hw) (simp_all add: demo_defs demo_start_fields)
  show "sys_step demo_os_env demo_busy demo_recording"
    unfolding demo_recording_def
  proof (rule record_sub)
    show "strncmp_eq (current_hw (ctx_of demo_busy)) (note_week (ctx_of demo_taken)) MAX_WEEK_NAME"
      using demo_note by (simp add: demo_defs strncmp_eq_def demo_week)
  qed (simp_all add: demo_defs demo_start_fields)
qed

lemma demo_runs:
  assumes "P demo_queued" and "P demo_waiting" and "P demo_got" and "P demo_taken" and "P demo_busy" and "P demo_recording"
  shows "runs (sys_step demo_os_env) P demo_start demo_recording"
  by (rule runs.go [OF runs.go [OF runs.go [OF runs.go [OF runs.go [OF runs_one]]]]]) (use demo_steps assms in simp_all)

lemma demo_runs_uncrowded: "runs (sys_step demo_os_env) not_crowded (sys_init demo_os_env demo_os) demo_recording"
  unfolding demo_start_def [symmetric]
  by (rule demo_runs) (simp_all add: not_crowded_def demo_defs demo_start_fields enqueue_job_def
      dequeue_job_def queue_init_def MAX_QUEUE_def)

text \<open>The same connection, when its worker notes the week in the middle of a switch.\<close>

definition demo_control :: sys where
  "demo_control = demo_taken\<lparr>sy_main := Receiving\<rparr>"

definition demo_switching :: sys where
  "demo_switching =
     demo_control\<lparr>sy_world := (sy_world demo_control)\<lparr>wd_ctx := set_hw_paths ''week_2'' (ctx_of demo_control)\<rparr>,
                  sy_main := SwitchDirs ''week_2''\<rparr>"

definition demo_made_dirs :: sys where
  "demo_made_dirs =
     demo_switching\<lparr>sy_world := (sy_world demo_switching)\<lparr>wd_os := set_hw_dirs demo_os_env (ctx_of demo_switching) (os_of demo_switching)\<rparr>,
                sy_main := SwitchReset ''week_2''\<rparr>"

definition demo_window :: sys where
  "demo_window = set_worker 0 (Busy 7 (note_week (ctx_of demo_made_dirs))) demo_made_dirs"

lemma demo_window_runs: "runs (sys_step demo_os_env) (\<lambda>_. True) demo_start demo_window"
proof -
  have "set_hw_arg ''week_2'' = ''week_2''" by (simp add: set_hw_arg_def cut_at_def cstr_def)
  then have "sys_step demo_os_env demo_control demo_switching"
    unfolding demo_switching_def
    by (rule switch_paths [rotated])
      (simp_all add: demo_control_def demo_defs demo_start_fields list_all_update list_all_iff [of _ "replicate _ _"])
  moreover have "sys_step demo_os_env demo_taken demo_control"
    unfolding demo_control_def by (rule control) (simp add: demo_defs demo_start_fields)
  moreover have "sys_step demo_os_env demo_switching demo_made_dirs"
    unfolding demo_made_dirs_def by (rule switch_dirs) (simp add: demo_switching_def)
  moreover have "sys_step demo_os_env demo_made_dirs demo_window"
    unfolding demo_window_def
    by (rule note_hw) (simp_all add: demo_made_dirs_def demo_switching_def demo_control_def demo_defs demo_start_fields)
  ultimately show ?thesis
    by (intro runs.go [OF runs.go [OF runs.go [OF runs.go [OF runs.go [OF runs.go [OF runs.go [OF runs_one]]]]]]])
      (use demo_steps in simp_all)
qed

lemma demo_csv:
  "csv_fd (csv (ctx_of demo_start)) = 5" "os_fds (os_of demo_start) 5 = Some ''week_1_results.csv''"
  "os_files (os_of demo_start) ''week_1_results.csv'' = Some csv_header"
proof -
  have v: "valid_week ''week_1''" by (simp add: valid_week_def strlen_def cstr_def)
  have c: "cstr ''week_1'' = ''week_1''" by (simp add: cstr_def)
  show "csv_fd (csv (ctx_of demo_start)) = 5" "os_fds (os_of demo_start) 5 = Some ''week_1_results.csv''"
    "os_files (os_of demo_start) ''week_1_results.csv'' = Some csv_header"
    using v short_names(4) [OF v]
    by (simp_all add: demo_start_def sys_init_def ctx_init_def ctx_set_hw_def valid_week_def Let_def c
        set_hw_switch_csv_def demo_os_env_def demo_os_def csv_write_def)
qed

lemma demo_window_state:
  "sy_main demo_window = SwitchReset ''week_2''" "sy_workers demo_window ! 0 = Busy 7 (note_week (ctx_of demo_window))"
  "0 < length (sy_workers demo_window)" "current_hw (ctx_of demo_window) = ''week_2''"
  "csv_fd (csv (ctx_of demo_window)) = 5" "os_fds (os_of demo_window) 5 = Some ''week_1_results.csv''"
proof -
  show "csv_fd (csv (ctx_of demo_window)) = 5" "os_fds (os_of demo_window) 5 = Some ''week_1_results.csv''"
    using demo_csv
    by (simp_all add: demo_window_def demo_made_dirs_def demo_switching_def demo_control_def demo_defs set_hw_paths_def set_hw_dirs_def)
qed (simp_all add: demo_window_def demo_made_dirs_def demo_switching_def demo_control_def demo_defs demo_start_fields set_hw_paths_def)

section \<open>Properties\<close>

text \<open>C25: no connection is lost, served twice or closed twice. In every interleaving of acceptor,
  workers and control commands in which at most 100 connections wait at a time, every accepted
  connection is exactly once in the queue, in the hands of one worker, or closed. The status a
  worker shows follows what it does at a distance: it is idle while it waits and until it has
  said otherwise, running from then on until it is back at the top of its loop.\<close>

theorem connections_conserved:
  assumes "runs (sys_step e) not_crowded (sys_init e w) s"
  shows "mset (sy_accepted s) =
           mset (ring_content (sy_ring s)) + mset (concat (map held (sy_workers s))) + mset (sy_closed s) \<and>
         list_all2 shown_as (sy_workers s) (sy_status s) \<and>
         length (sy_workers s) = 4"
  using reached_in_order [OF assms] display.runs_safe [OF runs_any [OF assms] display_init]
  by (simp add: in_order_def conserved_def in_hand_def display_ok_def NUM_THREADS_def)

theorem connections_conserved_witness:
  "mset (sy_accepted demo_recording) = {#7#} \<and>
   mset (ring_content (sy_ring demo_recording)) + mset (concat (map held (sy_workers demo_recording)))
     + mset (sy_closed demo_recording) = {#7#} \<and> sy_status demo_recording ! 0 = 1"
proof -
  have "sy_accepted demo_recording = [7]" by (simp add: demo_defs demo_start_fields)
  moreover have "0 < length (sy_workers demo_recording)" by (simp add: demo_defs demo_start_fields)
  then have "list_all2 shown_as (sy_workers demo_recording) (sy_status demo_recording) \<Longrightarrow>
      shown_as (sy_workers demo_recording ! 0) (sy_status demo_recording ! 0)"
    by (simp add: list_all2_nthD)
  moreover have "sy_workers demo_recording ! 0 = Recording 7 (note_week (ctx_of demo_start)) ''20240001'' GRADE_AC 3 4"
    by (simp add: demo_defs demo_start_fields)
  ultimately show ?thesis
    using connections_conserved [OF demo_runs_uncrowded] by simp
qed

text \<open>C26: what keeps the server from its work. From every state it can reach with at most 100 connections
  waiting, and as long as nothing new arrives, it takes at most 728 steps, in whatever order. When it
  stands still no week switch is under way, and the main thread is back at its events unless it waits
  for a control request that does not come. Every worker is idle or has a connection that never lets
  it go on; if a connection is left in the queue then all four workers have such connections.
  Everything else that was accepted has been closed. So only the wait for a peer, for a compiler or
  for a program stops the server, and it takes four of those to leave a connection unserved.\<close>

theorem server_drains_unless_hung:
  assumes "runs (sys_step e) not_crowded (sys_init e w) s" and "(calm_step e ^^ n) s t"
  shows "n \<le> 728 \<and>
    ((\<nexists>u. calm_step e t u) \<longrightarrow>
       (sy_main t = Polling \<or> sy_main t = Ctl_Hung) \<and>
       (\<forall>wk \<in> set (sy_workers t). wk = Waiting \<or> (\<exists>sock. wk = Hung sock)) \<and>
       (ring_content (sy_ring t) = [] \<or> (\<forall>wk \<in> set (sy_workers t). \<exists>sock. wk = Hung sock)) \<and>
       mset (sy_accepted t) =
         mset (sy_closed t) + mset (concat (map held (sy_workers t))) + mset (ring_content (sy_ring t)))"
proof -
  have s: "in_order s" by (rule reached_in_order [OF assms(1)])
  have "n \<le> 728" using calm.run_bounded [OF assms(2) s] work_most [OF s] by simp
  moreover have "in_order t" by (rule calm.run_inv [OF assms(2) s])
  moreover have "wk = Waiting \<and> ring_content (sy_ring t) = [] \<or> (\<exists>sock. wk = Hung sock)"
    if "\<nexists>u. calm_step e t u" "wk \<in> set (sy_workers t)" for wk
    using that still_worker [OF that(1)] by (auto simp: in_set_conv_nth)
  ultimately show ?thesis
    using still_main [of e t] by (auto simp: in_order_def conserved_def in_hand_def)
qed

lemma calm_end:
  assumes "runs (sys_step e) not_crowded (sys_init e w) s"
  obtains n t where "(calm_step e ^^ n) s t" "\<nexists>u. calm_step e t u"
  using calm.run_ends [OF reached_in_order [OF assms]] by blast

theorem server_drains_unless_hung_witness:
  "\<exists>n t. (calm_step demo_os_env ^^ n) demo_recording t \<and> n \<le> 728 \<and> (\<nexists>u. calm_step demo_os_env t u) \<and>
     (\<forall>wk \<in> set (sy_workers t). wk = Waiting \<or> (\<exists>sock. wk = Hung sock))"
proof -
  obtain n t where t: "(calm_step demo_os_env ^^ n) demo_recording t" "\<nexists>u. calm_step demo_os_env t u"
    by (rule calm_end [OF demo_runs_uncrowded])
  show ?thesis using server_drains_unless_hung [OF demo_runs_uncrowded t(1)] t by blast
qed

text \<open>C27: the tracker is right in every interleaving. Whatever order the workers record in, and
  whenever weeks are switched, the student table and the shared counter are always those of
  the submissions recorded since the tracker was last emptied (while those submissions have
  well-formed ids of at most 512 students).\<close>

theorem tracker_in_every_interleaving:
  assumes "runs (sys_step e) fits_table (sys_init e w) s"
  shows "students (ctx_of s) = table_of (sy_history s) \<and>
         submitted_count (ctx_of s) = of_nat (length (solved (sy_history s)))"
  using tracking.runs_safe [OF assms tracker_init] by (simp add: tracker_ok_def tracks_def)

theorem tracker_in_every_interleaving_witness:
  "submitted_count (ctx_of demo_recording) = 1 \<and> sr_id (hd (students (ctx_of demo_recording))) = ''20240001''"
proof -
  have h: "sy_history demo_recording = [(9, ''20240001'', GRADE_AC)]"
    "sy_history demo_queued = []" "sy_history demo_waiting = []" "sy_history demo_got = []"
    "sy_history demo_taken = []" "sy_history demo_busy = []"
    by (simp_all add: demo_defs demo_start_fields cstr_def)
  have ids: "ids_of [(9, ''20240001'', GRADE_AC)] = [''20240001'']" "ids_of [] = []"
    by (simp_all add: ids_of_def add_id_def)
  have "runs (sys_step demo_os_env) fits_table (sys_init demo_os_env demo_os) demo_recording"
    unfolding demo_start_def [symmetric]
    by (rule demo_runs) (simp_all add: fits_table_def h ids MAX_STUDENTS_def valid_id_def cstr_def)
  from tracker_in_every_interleaving [OF this] show ?thesis
    by (simp add: h table_of_def ids solved_def accepted_def of_student_def)
qed



text \<open>An undisturbed week switch is atomic: with no worker in the middle of recording, the four
  critical sections of \<open>ctx_set_hw\<close>, one after the other, take the server from the state before
  to the state \<open>ctx_set_hw\<close> describes.\<close>

theorem undisturbed_switch_is_atomic:
  assumes "sy_main s = Polling" and "set_hw_arg payload \<noteq> []"
    and "list_all (\<lambda>wk. \<not> reads_hw wk) (sy_workers s)"
  shows "let (ctx', w') = ctx_set_hw e (set_hw_arg payload) (ctx_of s) (os_of s)
         in runs (sys_step e) (\<lambda>_. True) s
              (s\<lparr>sy_world := \<lparr>wd_ctx = ctx', wd_os = w'\<rparr>, sy_history := []\<rparr>)"
  using switch_runs [OF assms(1) refl assms(2,3), of e] by (simp add: after_switch_def case_prod_beta)

theorem undisturbed_switch_is_atomic_witness:
  "\<exists>t. runs (sys_step demo_os_env) (\<lambda>_. True) demo_busy t \<and> current_hw (ctx_of t) = ''week_4''"
proof -
  have a: "set_hw_arg ''week_4 x'' = ''week_4''" by (simp add: set_hw_arg_def cut_at_def cstr_def)
  have v: "valid_week ''week_4''" "cstr ''week_4'' = ''week_4''" by (simp_all add: valid_week_def strlen_def cstr_def)
  have m: "sy_main demo_busy = Polling" "list_all (\<lambda>wk. \<not> reads_hw wk) (sy_workers demo_busy)"
    by (simp_all add: demo_defs demo_start_fields list_all_update list_all_iff [of _ "replicate _ _"])
  have r: "runs (sys_step demo_os_env) (\<lambda>_. True) demo_busy
      (demo_busy\<lparr>sy_world := \<lparr>wd_ctx = fst (ctx_set_hw demo_os_env ''week_4'' (ctx_of demo_busy) (os_of demo_busy)),
         wd_os = snd (ctx_set_hw demo_os_env ''week_4'' (ctx_of demo_busy) (os_of demo_busy))\<rparr>, sy_history := []\<rparr>)"
    using undisturbed_switch_is_atomic [OF m(1) _ m(2), of "''week_4 x''" demo_os_env]
    unfolding Let_def case_prod_beta a by simp
  show ?thesis by (intro exI conjI, rule r) (simp add: set_hw_valid v)
qed

text \<open>C30: a week switch that is disturbed loses grades. Once the paths have been switched, a worker
  may already note the new week and record a grade under it before the tracker is emptied and
  the results file changed. That grade is then wiped from the tracker although the student was
  answered, its row is appended to the results file of the previous week, and the new
  week's file does not have it.\<close>

theorem switch_window_loses_record:
  assumes "sy_main s = SwitchReset week" and "i < length (sy_workers s)" and "sy_workers s ! i = Busy sock task_hw"
    and "strncmp_eq (current_hw (ctx_of s)) task_hw MAX_WEEK_NAME"
    and "0 \<le> csv_fd (csv (ctx_of s))" and "os_fds (os_of s) (csv_fd (csv (ctx_of s))) = Some old"
    and "new = snprintf 256 (week @ ''_results.csv'')" and "old \<noteq> new" and "0 \<le> env_open e new"
    and "\<forall>t. env_write e t = int (length t)"
  shows "\<exists>t. runs (sys_step e) (\<lambda>_. True) s t \<and> sy_main t = Polling \<and> sock \<in> set (sy_closed t) \<and>
           students (ctx_of t) = replicate (length (students (ctx_of s))) empty_slot \<and>
           submitted_count (ctx_of t) = 0 \<and> sy_history t = [] \<and>
           os_files (os_of t) old =
             Some ((case os_files (os_of s) old of Some x \<Rightarrow> x | None \<Rightarrow> []) @ csv_line e sid g ms kb task_hw) \<and>
           os_files (os_of t) new = Some (case os_files (os_of s) new of Some x \<Rightarrow> x | None \<Rightarrow> csv_header)"
proof -
  let ?c1 = "fst (ctx_record_submission now (ctx_of s) sid g)"
  obtain c2 w2 where csv: "ctx_write_csv e ?c1 sid g ms kb task_hw (os_of s) = (c2, w2)" by fastforce
  obtain c4 w4 where sw: "set_hw_switch_csv e week (set_hw_reset_tracker c2) w2 = (c4, w4)" by fastforce
  have c1: "csv ?c1 = csv (ctx_of s)" "length (students ?c1) = length (students (ctx_of s))"
    by (simp_all add: record_frame ctx_record_submission_def record_at_def Let_def split: option.splits)
  have w2: "os_files w2 = (os_files (os_of s))(old \<mapsto>
      (case os_files (os_of s) old of Some x \<Rightarrow> x | None \<Rightarrow> []) @ csv_line e sid g ms kb task_hw)"
    and c2: "students c2 = students ?c1" "csv_fd (csv c2) = csv_fd (csv (ctx_of s))"
    using csv assms(5,6,10) c1(1)
    by (auto simp: ctx_write_csv_def csv_append_def csv_write_def)
  have c4: "students c4 = replicate (length (students (ctx_of s))) empty_slot" "submitted_count c4 = 0"
    using switch_csv_frame(4,5) [of e week "set_hw_reset_tracker c2" w2] sw c2 c1
    by (simp_all add: set_hw_reset_tracker_def)
  have "os_files w4 old = os_files w2 old"
    "os_files w4 new = Some (case os_files w2 new of Some x \<Rightarrow> x | None \<Rightarrow> csv_header)"
    using sw assms(7-10)
    by (auto simp: set_hw_switch_csv_def csv_write_def Let_def split: option.splits if_splits)
  then show ?thesis
    using record_in_window [OF assms(1-4) csv sw] c4 w2 assms(8)
    by (intro exI conjI) auto
qed

theorem switch_window_loses_record_witness:
  "runs (sys_step demo_os_env) (\<lambda>_. True) demo_start demo_window \<and>
   (\<exists>t. runs (sys_step demo_os_env) (\<lambda>_. True) demo_window t \<and> 7 \<in> set (sy_closed t) \<and>
      submitted_count (ctx_of t) = 0)"
proof -
  let ?task = "note_week (ctx_of demo_window)"
  have w: "strncmp_eq (current_hw (ctx_of demo_window)) ?task MAX_WEEK_NAME"
    by (simp add: demo_window_state note_week_def strncmp_eq_def strncpy_def cstr_def)
  have n: "''week_2_results.csv'' = snprintf 256 (''week_2'' @ ''_results.csv'')"
    by (simp add: snprintf_def)
  show ?thesis
    using demo_window_runs
      switch_window_loses_record [OF demo_window_state(1,3,2) w _ _ n, of "''week_1_results.csv''" demo_os_env
        "''20240001''" GRADE_AC 3 4]
    by (auto simp: demo_window_state(5,6) demo_os_env_def)
qed

end
