(* ===== verification/Snapshot.thy ===== *)
theory Snapshot
  imports Ctl
begin

text \<open>
  The dashboard's view of the server, from \<^verbatim>\<open>minici-tui.c\<close>: the request it sends, the text the
  server answers with and its parser. \<open>sscanf\<close> with two scan sets and a literal between them is
  \<open>scan_pair\<close>. The parser is a reader for the format that \<open>on_get_tracker\<close> of the server prints.
\<close>

section \<open>The snapshot\<close>

record Snap =
  sn_week :: string
  sn_submitted :: u16
  sn_total :: u16
  csv_records :: u32
  entries :: "(string \<times> byte) list"

text \<open>What \<open>memset\<close> and the first \<open>strncpy\<close> of the parser leave.\<close>

definition snap_empty :: Snap where
  "snap_empty = \<lparr>sn_week = ''week_?'', sn_submitted = 0, sn_total = 0, csv_records = 0, entries = []\<rparr>"

section \<open>The parser\<close>

text \<open>\<open>%n[^reject]\<close>: at least one and at most \<open>n\<close> characters.\<close>

definition scanset :: "nat \<Rightarrow> string \<Rightarrow> string \<Rightarrow> (string \<times> string) option" where
  "scanset n reject s =
     (let tok = takeWhile (\<lambda>c. c \<notin> set reject) (take n s)
      in if tok = [] then None else Some (tok, drop (length tok) s))"

definition scan_pair :: "nat \<Rightarrow> string \<Rightarrow> char \<Rightarrow> nat \<Rightarrow> string \<Rightarrow> string \<Rightarrow> (string \<times> string) option" where
  "scan_pair n1 reject1 lit n2 reject2 s =
     (case scanset n1 reject1 s of
        None \<Rightarrow> None
      | Some (a, rest) \<Rightarrow>
          (case rest of
             [] \<Rightarrow> None
           | c # rest' \<Rightarrow>
               if c \<noteq> lit then None
               else (case scanset n2 reject2 rest' of None \<Rightarrow> None | Some (b, _) \<Rightarrow> Some (a, b))))"

definition set_field :: "string \<Rightarrow> string \<Rightarrow> Snap \<Rightarrow> Snap" where
  "set_field k v out =
     (if k = ''submitted'' then out\<lparr>sn_submitted := word_of_int (atoi v)\<rparr>
      else if k = ''total'' then out\<lparr>sn_total := word_of_int (atoi v)\<rparr>
      else if k = ''week'' then out\<lparr>sn_week := take (MAX_WEEK_NAME - 1) v\<rparr>
      else if k = ''records'' then out\<lparr>csv_records := word_of_int (atoi v)\<rparr>
      else out)"

text \<open>The text behind the next \<open>c\<close>.\<close>

definition skip_past :: "char \<Rightarrow> string \<Rightarrow> string option" where
  "skip_past c p = (case dropWhile (\<lambda>x. x \<noteq> c) p of [] \<Rightarrow> None | _ # q \<Rightarrow> Some q)"

lemma skip_past_shorter: "skip_past c p = Some q \<Longrightarrow> length q < length p"
  using length_dropWhile_le [of "\<lambda>x. x \<noteq> c" p] by (auto simp: skip_past_def split: list.splits)

function parse_fields :: "string \<Rightarrow> Snap \<Rightarrow> Snap" where
  "parse_fields p out =
     (if p = [] \<or> hd p = CHR 0x0A then out
      else let out' = (case scan_pair 31 [CHR ''=''] CHR ''='' 63 [CHR ''|''] p of
                         Some (k, v) \<Rightarrow> set_field k v out | None \<Rightarrow> out)
           in case skip_past (CHR ''|'') p of None \<Rightarrow> out' | Some q \<Rightarrow> parse_fields q out')"
  by pat_completeness auto
termination
  by (relation "measure (\<lambda>(p, out). length p)") (auto dest: skip_past_shorter)

declare parse_fields.simps [simp del]

definition gn_index :: "string \<Rightarrow> byte" where
  "gn_index gname =
     (if gname = ''AC'' then 0 else if gname = ''WA'' then 1 else if gname = ''TLE'' then 2
      else if gname = ''RE'' then 3 else if gname = ''CE'' then 4 else 1)"

function parse_entries :: "string \<Rightarrow> nat \<Rightarrow> (string \<times> byte) list" where
  "parse_entries p idx =
     (if p = [] \<or> 512 \<le> idx then []
      else case scan_pair 15 [CHR '':''] CHR '':'' 7 [CHR '','', CHR 0x0A] p of
             Some (sid, gname) \<Rightarrow> (sid, gn_index gname) #
               (case skip_past (CHR '','') p of None \<Rightarrow> [] | Some q \<Rightarrow> parse_entries q (idx + 1))
           | None \<Rightarrow> (case skip_past (CHR '','') p of None \<Rightarrow> [] | Some q \<Rightarrow> parse_entries q idx))"
  by pat_completeness auto
termination
  by (relation "measure (\<lambda>(p, idx). length p)") (auto dest: skip_past_shorter)

declare parse_entries.simps [simp del]

definition parse_snap :: "string \<Rightarrow> Snap" where
  "parse_snap data =
     (let out = parse_fields (cstr data) snap_empty
      in case skip_past (CHR 0x0A) (cstr data) of
           None \<Rightarrow> out
         | Some p \<Rightarrow> out\<lparr>entries := parse_entries p 0\<rparr>)"

section \<open>Reading what was printed\<close>

lemma skip_past_found: "c \<notin> set a \<Longrightarrow> skip_past c (a @ c # q) = Some q"
  by (simp add: skip_past_def dropWhile_append)

lemma scanset_found:
  assumes "a \<noteq> []" and "length a \<le> n" and "set a \<inter> set reject = {}" and "c \<in> set reject"
  shows "scanset n reject (a @ c # t) = Some (a, c # t)"
proof -
  have "takeWhile (\<lambda>c. c \<notin> set reject) (take n (a @ c # t)) = a"
    using assms(2-4) by (cases "n - length a") (auto simp: takeWhile_append disjoint_iff)
  then show ?thesis using assms(1) by (simp add: scanset_def)
qed

lemma scan_pair_found:
  assumes "a \<noteq> []" and "length a \<le> n1" and "lit \<notin> set a"
    and "b \<noteq> []" and "length b \<le> n2" and "set b \<inter> set reject = {}" and "c \<in> set reject"
  shows "scan_pair n1 [lit] lit n2 reject (a @ lit # b @ c # t) = Some (a, b)"
  using scanset_found [OF assms(1,2), of "[lit]" lit "b @ c # t"] scanset_found [OF assms(4-7), of t] assms(3)
  by (simp add: scan_pair_def)

lemma parse_field_step:
  assumes "k \<noteq> []" and "length k \<le> 31" and "CHR ''='' \<notin> set k" and "CHR ''|'' \<notin> set k" and "hd k \<noteq> CHR 0x0A"
    and "v \<noteq> []" and "length v \<le> 63" and "CHR ''|'' \<notin> set v"
  shows "parse_fields (k @ CHR ''='' # v @ CHR ''|'' # rest) out = parse_fields rest (set_field k v out)"
proof -
  have "scan_pair 31 [CHR ''=''] CHR ''='' 63 [CHR ''|''] (k @ CHR ''='' # v @ CHR ''|'' # rest) = Some (k, v)"
    using assms by (intro scan_pair_found) auto
  moreover have "skip_past (CHR ''|'') ((k @ CHR ''='' # v) @ CHR ''|'' # rest) = Some rest"
    by (rule skip_past_found) (use assms in auto)
  ultimately show ?thesis
    using assms(1,5) by (subst parse_fields.simps) simp
qed

lemma parse_fields_stop: "parse_fields (CHR 0x0A # rest) out = out"
  by (simp add: parse_fields.simps)

section \<open>The listing of the server\<close>

definition listed :: "StudentRecord \<Rightarrow> bool" where
  "listed r \<longleftrightarrow> sr_id r \<noteq> [] \<and> length (sr_id r) < MAX_STUDENT_ID \<and>
     set (sr_id r) \<inter> {NUL, CHR '':'', CHR '',''} = {} \<and> best_result r < 5"

lemma grade_cases: "(r :: byte) < 5 \<Longrightarrow> r = 0 \<or> r = 1 \<or> r = 2 \<or> r = 3 \<or> r = 4"
proof -
  assume "r < 5"
  then have "unat r < 5" by (simp add: word_less_nat_alt)
  then have "unat r \<in> {0, 1, 2, 3, 4}" by auto
  then show ?thesis by (auto simp: word_unat_eq_iff)
qed

lemma gn_index_name: "r < 5 \<Longrightarrow> gn_index (grade_name r) = r"
  using grade_cases [of r] by (auto simp: gn_index_def grade_name_def gnames_def)

lemma grade_name_shape:
  "r < 5 \<Longrightarrow> grade_name r \<noteq> [] \<and> length (grade_name r) \<le> 3 \<and> set (grade_name r) \<inter> {CHR '','', CHR 0x0A, NUL} = {}"
  using grade_cases [of r] by (auto simp: grade_name_def gnames_def)

lemma entry_length: "listed r \<Longrightarrow> length (tracker_entry r) \<le> 20"
  using grade_name_shape [of "best_result r"] by (simp add: listed_def tracker_entry_def)

lemma entry_no_nul: "listed r \<Longrightarrow> NUL \<notin> set (tracker_entry r)"
  using grade_name_shape [of "best_result r"] by (auto simp: listed_def tracker_entry_def)

lemma listing_prefix:
  assumes "\<forall>r \<in> set recs. listed r"
  shows "\<exists>k \<le> length recs.
     list_students (recs @ replicate n empty_slot) pos = concat (map tracker_entry (take k recs)) \<and>
     (pos + 20 * length recs \<le> 8187 \<longrightarrow> k = length recs) \<and>
     (pos < 8188 \<longrightarrow> pos + length (concat (map tracker_entry (take k recs))) < 8188)"
  using assms
proof (induction recs arbitrary: pos)
  case Nil
  have "list_students (replicate n empty_slot) pos = []" by (cases n) (simp_all add: empty_slot_def)
  then show ?case by simp
next
  case (Cons r recs)
  show ?case
  proof (cases "pos < 8168")
    case False
    then have "list_students ((r # recs) @ replicate n empty_slot) pos = []" by (simp add: IPC_MAX_PAYLOAD_def)
    then show ?thesis using False by (intro exI [of _ 0]) simp
  next
    case True
    let ?p = "pos + length (tracker_entry r)"
    have len: "length (tracker_entry r) \<le> 20" using Cons.prems by (simp add: entry_length)
    obtain k where k: "k \<le> length recs"
      "list_students (recs @ replicate n empty_slot) ?p = concat (map tracker_entry (take k recs))"
      "?p + 20 * length recs \<le> 8187 \<longrightarrow> k = length recs"
      "?p < 8188 \<longrightarrow> ?p + length (concat (map tracker_entry (take k recs))) < 8188"
      using Cons.IH [of ?p] Cons.prems by auto
    have "sr_id r \<noteq> []" using Cons.prems by (simp add: listed_def)
    then have "list_students ((r # recs) @ replicate n empty_slot) pos
        = tracker_entry r @ list_students (recs @ replicate n empty_slot) ?p"
      using True len by (simp add: IPC_MAX_PAYLOAD_def)
    then show ?thesis
      using k len True by (intro exI [of _ "Suc k"]) simp
  qed
qed

lemma parse_entry_step:
  assumes "listed r" and "idx < 512"
  shows "parse_entries (tracker_entry r @ rest) idx = (sr_id r, best_result r) # parse_entries rest (idx + 1)"
proof -
  have g: "grade_name (best_result r) \<noteq> []" "length (grade_name (best_result r)) \<le> 7"
      "set (grade_name (best_result r)) \<inter> set [CHR '','', CHR 0x0A] = {}"
    using grade_name_shape [of "best_result r"] assms(1) by (auto simp: listed_def)
  let ?p = "sr_id r @ CHR '':'' # grade_name (best_result r) @ CHR '','' # rest"
  have p: "tracker_entry r @ rest = ?p" by (simp add: tracker_entry_def)
  have "scan_pair 15 [CHR '':''] CHR '':'' 7 [CHR '','', CHR 0x0A] ?p = Some (sr_id r, grade_name (best_result r))"
    using assms(1) g by (intro scan_pair_found) (auto simp: listed_def)
  moreover have "skip_past (CHR '','') ((sr_id r @ CHR '':'' # grade_name (best_result r)) @ CHR '','' # rest) = Some rest"
    by (rule skip_past_found) (use assms(1) g in \<open>auto simp: listed_def\<close>)
  ultimately show ?thesis
    using assms gn_index_name [of "best_result r"]
    unfolding p by (subst parse_entries.simps) (simp add: listed_def)
qed

lemma parse_listing:
  "\<forall>r \<in> set rs. listed r \<Longrightarrow> idx + length rs \<le> 512 \<Longrightarrow>
   parse_entries (concat (map tracker_entry rs)) idx = map (\<lambda>r. (sr_id r, best_result r)) rs"
proof (induction rs arbitrary: idx)
  case Nil
  then show ?case by (simp add: parse_entries.simps)
next
  case (Cons r rs)
  then show ?case using parse_entry_step [of r idx] by simp
qed

section \<open>The first line\<close>

definition plain_week :: "string \<Rightarrow> bool" where
  "plain_week week \<longleftrightarrow> week \<noteq> [] \<and> length week < MAX_WEEK_NAME \<and> set week \<inter> {NUL, CHR ''|'', CHR 0x0A} = {}"

lemma dec_w_shape: "dec_w w \<noteq> []" "CHR ''|'' \<notin> set (dec_w w)" "NUL \<notin> set (dec_w w)" "CHR 0x0A \<notin> set (dec_w w)"
  using dec_digits [of "unat w"] by (auto simp: dec_w_def isdigit_def)

lemma parse_line:
  assumes "plain_week week"
  shows "parse_fields (tracker_line a b week c @ rest) snap_empty =
     \<lparr>sn_week = week, sn_submitted = a, sn_total = b, csv_records = c, entries = []\<rparr>"
proof -
  let ?r4 = "CHR 0x0A # rest"
  let ?r3 = "''records'' @ CHR ''='' # dec_w c @ CHR ''|'' # ?r4"
  let ?r2 = "''week'' @ CHR ''='' # week @ CHR ''|'' # ?r3"
  let ?r1 = "''total'' @ CHR ''='' # dec_w b @ CHR ''|'' # ?r2"
  have line: "tracker_line a b week c @ rest = ''submitted'' @ CHR ''='' # dec_w a @ CHR ''|'' # ?r1"
    by (simp add: tracker_line_def)
  have w: "length week \<le> 63" "CHR ''|'' \<notin> set week" "week \<noteq> []" "take 31 week = week"
    using assms by (auto simp: plain_week_def)
  have l: "length (dec_w a) \<le> 63" "length (dec_w b) \<le> 63" "length (dec_w c) \<le> 63"
    using length_dec_u16 [of a] length_dec_u16 [of b] length_dec_u32 [of c] by simp_all
  have 1: "parse_fields (''submitted'' @ CHR ''='' # dec_w a @ CHR ''|'' # ?r1) o' = parse_fields ?r1 (set_field ''submitted'' (dec_w a) o')" for o'
    by (rule parse_field_step) (use dec_w_shape l in auto)
  have 2: "parse_fields ?r1 o' = parse_fields ?r2 (set_field ''total'' (dec_w b) o')" for o'
    by (rule parse_field_step) (use dec_w_shape l in auto)
  have 3: "parse_fields ?r2 o' = parse_fields ?r3 (set_field ''week'' week o')" for o'
    by (rule parse_field_step) (use w in auto)
  have 4: "parse_fields ?r3 o' = parse_fields ?r4 (set_field ''records'' (dec_w c) o')" for o'
    by (rule parse_field_step) (use dec_w_shape l in auto)
  show ?thesis
    unfolding line 1 2 3 4 parse_fields_stop
    by (simp add: set_field_def snap_empty_def atoi_dec_u16 atoi_dec_u32 w)
qed

lemma line_shape:
  assumes "plain_week week"
  obtains a' where "tracker_line a b week c = a' @ [CHR 0x0A]" and "CHR 0x0A \<notin> set a'" and "NUL \<notin> set a'"
    and "length a' \<le> 84"
proof
  let ?a = "''submitted='' @ dec_w a @ ''|total='' @ dec_w b @ ''|week='' @ week @ ''|records='' @ dec_w c @ ''|''"
  show "tracker_line a b week c = ?a @ [CHR 0x0A]" by (simp add: tracker_line_def)
  show "CHR 0x0A \<notin> set ?a" "NUL \<notin> set ?a" using assms by (auto simp: plain_week_def dec_w_shape)
  show "length ?a \<le> 84"
    using assms length_dec_u16 [of a] length_dec_u16 [of b] length_dec_u32 [of c] by (simp add: plain_week_def)
qed

section \<open>Properties\<close>

text \<open>C31: the dashboard sees what the server tracks. Parsing the server's answer to
  \<open>CMD_GET_TRACKER\<close> gives back the week, both counters, the number of records (up to the full
  32 bits, although it passes through a signed \<open>atoi\<close>) and, in order, id and grade of the students on
  the table: of all of them up to 405, and of a leading part of them if the answer's 8192 bytes do not
  hold more.\<close>

theorem snapshot_roundtrip:
  assumes "plain_week (current_hw ctx)" and "students ctx = recs @ replicate n empty_slot"
    and "\<forall>r \<in> set recs. listed r" and "length recs \<le> MAX_STUDENTS"
  shows "\<exists>k \<le> length recs. (length recs \<le> 405 \<longrightarrow> k = length recs) \<and>
     parse_snap (rs_data (on_get_tracker ctx)) =
       \<lparr>sn_week = current_hw ctx, sn_submitted = submitted_count ctx, sn_total = total_students ctx,
        csv_records = total_records (csv ctx), entries = map (\<lambda>r. (sr_id r, best_result r)) (take k recs)\<rparr>"
proof -
  have week: "cstr (current_hw ctx) = current_hw ctx" "length (current_hw ctx) \<le> 31"
    using assms(1) by (auto simp: plain_week_def intro: cstr_id)
  let ?line = "tracker_line (submitted_count ctx) (total_students ctx) (current_hw ctx) (total_records (csv ctx))"
  obtain a' where a': "?line = a' @ [CHR 0x0A]" "CHR 0x0A \<notin> set a'" "NUL \<notin> set a'" "length a' \<le> 84"
    using line_shape [OF assms(1)] by blast
  obtain k where k: "k \<le> length recs"
    "list_students (students ctx) (length ?line) = concat (map tracker_entry (take k recs))"
    "length ?line + 20 * length recs \<le> 8187 \<longrightarrow> k = length recs"
    "length ?line + length (concat (map tracker_entry (take k recs))) < 8188"
    using listing_prefix [OF assms(3), of n "length ?line"] a' assms(2) by auto
  let ?text = "?line @ concat (map tracker_entry (take k recs))"
  have "NUL \<notin> set ?text"
    using a' assms(3) entry_no_nul in_set_takeD by (fastforce simp: a'(1))
  then have "cstr (rs_data (on_get_tracker ctx)) = ?text"
    using k by (simp add: on_get_tracker_def week Let_def cstr_respond IPC_MAX_PAYLOAD_def)
  moreover have "skip_past (CHR 0x0A) ?text = Some (concat (map tracker_entry (take k recs)))"
    unfolding a'(1) append_assoc by (simp add: skip_past_found [OF a'(2)])
  moreover have "parse_entries (concat (map tracker_entry (take k recs))) 0 = map (\<lambda>r. (sr_id r, best_result r)) (take k recs)"
    by (rule parse_listing) (use assms(3,4) in_set_takeD in \<open>fastforce simp: MAX_STUDENTS_def\<close>)+
  moreover have "length recs \<le> 405 \<longrightarrow> k = length recs" using k(3) a'(1,4) by simp
  ultimately show ?thesis
    using k(1) parse_line [OF assms(1)] by (intro exI [of _ k]) (simp add: parse_snap_def)
qed

definition demo_table :: ServerContext where
  "demo_table =
     \<lparr>current_hw = ''week_3'', ans_path = [], submit_dir = [],
      students = [\<lparr>sr_id = ''20240001'', submitted = 0, best_result = 2, submit_count = 3, last_submit_ts = 9\<rparr>, empty_slot],
      total_students = 30, submitted_count = 5,
      csv = \<lparr>total_records = 0xF0000000, last_write_ts = 0, csv_fd = 5, csv_path = []\<rparr>,
      paused = 0, dist_paused = 0, timeout_ms = 5000\<rparr>"

theorem snapshot_roundtrip_witness:
  "parse_snap (rs_data (on_get_tracker demo_table)) =
     \<lparr>sn_week = ''week_3'', sn_submitted = 5, sn_total = 30, csv_records = 0xF0000000, entries = [(''20240001'', 2)]\<rparr>"
proof -
  let ?r = "\<lparr>sr_id = ''20240001'', submitted = 0, best_result = 2, submit_count = 3, last_submit_ts = 9\<rparr> :: StudentRecord"
  have "plain_week (current_hw demo_table)" "students demo_table = [?r] @ replicate 1 empty_slot" "listed ?r"
    by (simp_all add: demo_table_def plain_week_def listed_def)
  from snapshot_roundtrip [OF this(1,2)] this(3) show ?thesis
  by (auto simp: MAX_STUDENTS_def) (simp_all add: demo_table_def)
qed

end
