(* ===== verification/Dashboard_View.thy ===== *)
theory Dashboard_View
  imports Snapshot
begin

text \<open>
  What the dashboard of \<^verbatim>\<open>minici-tui.c\<close> draws and how it picks a script: the header line, the
  information panel with its progress bar, and the file picker. A window is the list of texts
  printed into it, each with its row and column; colours, boxes and rules are left out, and the
  check-board character of the bar is written \<open>#\<close>.
\<close>

section \<open>Formatting\<close>

text \<open>\<open>%.ns\<close> and \<open>%-ns\<close>.\<close>

definition upto :: "nat \<Rightarrow> string \<Rightarrow> string" where
  "upto n s = take n (cstr s)"

definition pad_right :: "nat \<Rightarrow> string \<Rightarrow> string" where
  "pad_right n s = s @ replicate (n - length s) CHR '' ''"

definition percent :: "u16 \<Rightarrow> u16 \<Rightarrow> nat" where
  "percent n_submitted n_total = (if 0 < n_total then unat n_submitted * 100 div unat n_total else 0)"

section \<open>The header line\<close>

definition deadline_text :: "string \<Rightarrow> string" where
  "deadline_text deadline = (if cstr deadline = [] then ''Not Set'' else deadline)"

definition draw_hdr :: "nat \<Rightarrow> Snap \<Rightarrow> string \<Rightarrow> (nat \<times> string) list" where
  "draw_hdr cols snap deadline =
     (2, ''Mini CI Dashboard'')
     # (if 38 < cols then [(24, '' ACTIVE: '' @ upto 16 (sn_week snap) @ '' '')] else [])
     @ (if 68 < cols
        then [(45, ''Submit: '' @ dec_w (sn_submitted snap) @ ''/'' @ dec_w (sn_total snap) @ '' (''
                @ dec (percent (sn_submitted snap) (sn_total snap)) @ ''%) CSV: '' @ dec_w (csv_records snap))]
        else [])
     @ (if 100 < cols then [(cols - 32, ''Deadline: '' @ upto 20 (deadline_text (snprintf 64 deadline)))] else [])"

section \<open>The information panel\<close>

definition suffix_of :: "Snap \<Rightarrow> string" where
  "suffix_of snap =
     snprintf 64 (''] '' @ dec_w (sn_submitted snap) @ ''/'' @ dec_w (sn_total snap) @ ''  ''
       @ dec (percent (sn_submitted snap) (sn_total snap)) @ ''%'')"

text \<open>The two loops that draw the bar: \<open>fill\<close> cells, then dashes up to the width.\<close>

definition draw_bar :: "nat \<Rightarrow> nat \<Rightarrow> string" where
  "draw_bar bar_width pct =
     (let filled = (if 0 < bar_width then bar_width * pct div 100 else 0)
      in replicate filled CHR ''#'' @ replicate (bar_width - filled) CHR ''-'')"

definition bar_row :: "nat \<Rightarrow> Snap \<Rightarrow> string" where
  "bar_row width snap =
     (let suffix = suffix_of snap
      in ''['' @ draw_bar (width - 1 - length suffix) (percent (sn_submitted snap) (sn_total snap)) @ suffix)"

definition entry_row :: "string \<times> byte \<Rightarrow> string" where
  "entry_row en =
     pad_right 14 (fst en) @ '' ['' @ pad_right 3 (gnames ! (if snd en < 5 then unat (snd en) else 4)) @ '']''"

definition draw_info ::
  "nat \<Rightarrow> nat \<Rightarrow> Snap \<Rightarrow> string \<Rightarrow> string \<Rightarrow> string \<Rightarrow> (nat \<times> nat \<times> string) list" where
  "draw_info rows cols snap staged_week staged_testsh testsh =
     (if rows < 12 \<or> cols < 40 then [(1, 2, ''Window too small'')]
      else [(1, 2, ''[STAGING] Pending Changes''),
            (2, 4, if staged_week \<noteq> [] then ''Week   : '' @ upto 24 staged_week else ''Week   : (not set)''),
            (3, 4, if staged_testsh \<noteq> [] then ''Script : '' @ upto 40 staged_testsh else ''Script : (not set)''),
            (6, 2, ''[ACTIVE] Real-time Submissions ('' @ upto 16 (sn_week snap) @ '')''),
            (7, 2, bar_row (cols - 4) snap)]
         @ (if testsh \<noteq> [] then [(8, 2, ''Active Script: '' @ upto 48 testsh)] else [])
         @ map (\<lambda>i. (10 + i, 2, entry_row (entries snap ! i))) [0..<min (length (entries snap)) (rows - 11)])"

section \<open>The file picker\<close>

datatype key = Char char | KEY_UP | KEY_DOWN | KEY_ENTER | KEY_F10 | ERR

text \<open>What the directory functions return: the entries of a directory with the answer of \<open>stat\<close> to
  whether each is a directory, and where a \<open>chdir\<close> leads (\<open>getcwd\<close> after it).\<close>

record fs_view =
  fv_entries :: "string \<Rightarrow> (string \<times> bool) list option"
  fv_chdir :: "string \<Rightarrow> string \<Rightarrow> string"

definition is_enter :: "key \<Rightarrow> bool" where
  "is_enter k \<longleftrightarrow> k = Char (CHR 0x0A) \<or> k = KEY_ENTER"

definition picker_items :: "(string \<times> bool) list \<Rightarrow> (string \<times> bool) list" where
  "picker_items ls =
     (''..'', True) # map (\<lambda>(nm, d). (take 255 nm, d)) (take 255 (filter (\<lambda>(nm, d). hd nm \<noteq> CHR ''.'') ls))"

definition move_sel :: "key \<Rightarrow> nat \<Rightarrow> nat \<Rightarrow> nat" where
  "move_sel k count sel =
     (if k = KEY_UP \<and> 0 < sel then sel - 1
      else if k = KEY_DOWN \<and> int sel < int count - 1 then sel + 1
      else sel)"

text \<open>
  The loop over the keys, each with the file system at that moment: \<open>None\<close> while it still waits,
  \<open>Some\<close> of what is in \<open>out_path\<close> when it ends (empty after \<open>q\<close>, escape or a failed
  \<open>opendir\<close>). The selection is an index into the fresh listing of each turn.
\<close>

fun picker :: "nat \<Rightarrow> (fs_view \<times> key) list \<Rightarrow> string \<Rightarrow> nat \<Rightarrow> string option" where
  "picker maxlen [] cwd sel = None"
| "picker maxlen ((v, k) # ks) cwd sel =
     (case fv_entries v cwd of
        None \<Rightarrow> Some []
      | Some ls \<Rightarrow>
          let items = picker_items ls;
              sel' = move_sel k (length items) sel
          in if k = Char (CHR ''q'') \<or> k = Char (CHR 0x1B) then Some []
             else if is_enter k
             then (let (nm, dir) = items ! sel;
                       nxt = snprintf 1024 (cwd @ ''/'' @ nm)
                   in if dir then picker maxlen ks (fv_chdir v cwd nxt) 0
                      else Some (take (maxlen - 1) nxt))
             else picker maxlen ks cwd sel')"

text \<open>Around it: the working directory must be known; then \<open>grading_scripts\<close> is made and entered, and
  in the end left again.\<close>

definition popup_file_picker ::
  "bool \<Rightarrow> string \<Rightarrow> nat \<Rightarrow> (fs_view \<times> key) list \<Rightarrow> (int \<times> string) option" where
  "popup_file_picker getcwd_ok scripts_dir maxlen ks =
     (if \<not> getcwd_ok then Some (-1, [])
      else map_option (\<lambda>path. (if path \<noteq> [] then 0 else -1, path)) (picker maxlen ks scripts_dir 0))"

section \<open>What the picker can return\<close>

lemma picker_items_shape:
  "picker_items ls \<noteq> []" "length (picker_items ls) \<le> 256"
  "it \<in> set (picker_items ls) \<Longrightarrow> length (fst it) \<le> 255"
  by (auto simp: picker_items_def)

lemma move_sel_in_range: "sel < count \<Longrightarrow> move_sel k count sel < count"
  by (auto simp: move_sel_def)

text \<open>While the directories do not change under it, the picker only ever returns a file listed in
  a directory it has been in, and never reads outside the listing.\<close>

inductive picked :: "fs_view \<Rightarrow> nat \<Rightarrow> string \<Rightarrow> string \<Rightarrow> bool" for v maxlen where
  here: "fv_entries v cwd = Some ls \<Longrightarrow> (nm, False) \<in> set (picker_items ls) \<Longrightarrow>
     picked v maxlen cwd (take (maxlen - 1) (snprintf 1024 (cwd @ ''/'' @ nm)))"
| into: "fv_entries v cwd = Some ls \<Longrightarrow> (nm, True) \<in> set (picker_items ls) \<Longrightarrow>
     picked v maxlen (fv_chdir v cwd (snprintf 1024 (cwd @ ''/'' @ nm))) path \<Longrightarrow> picked v maxlen cwd path"

lemma picker_returns_listed:
  assumes "picker maxlen ks cwd sel = Some path" and "\<forall>x \<in> set ks. fst x = v"
    and "\<forall>ls. fv_entries v cwd = Some ls \<longrightarrow> sel < length (picker_items ls)"
  shows "path = [] \<or> picked v maxlen cwd path"
  using assms
proof (induction maxlen ks cwd sel rule: picker.induct)
  case (2 maxlen v' k ks cwd sel)
  have v': "v' = v" using "2.prems"(2) by simp
  show ?case
  proof (cases "fv_entries v cwd")
    case None
    then show ?thesis using "2.prems"(1) v' by simp
  next
    case (Some ls)
    let ?items = "picker_items ls"
    obtain nm dir where it: "?items ! sel = (nm, dir)" by fastforce
    have sel: "sel < length ?items" using "2.prems"(3) Some by blast
    then have mem: "(nm, dir) \<in> set ?items" using it nth_mem by metis
    let ?nxt = "snprintf 1024 (cwd @ ''/'' @ nm)"
    consider (quit) "k = Char (CHR ''q'') \<or> k = Char (CHR 0x1B)"
      | (enter) "\<not> (k = Char (CHR ''q'') \<or> k = Char (CHR 0x1B))" "is_enter k"
      | (move) "\<not> (k = Char (CHR ''q'') \<or> k = Char (CHR 0x1B))" "\<not> is_enter k" by blast
    then show ?thesis
    proof cases
      case quit
      then show ?thesis using "2.prems"(1) Some v' by auto
    next
      case enter
      show ?thesis
      proof (cases dir)
        case True
        then have "picker maxlen ks (fv_chdir v cwd ?nxt) 0 = Some path"
          using "2.prems"(1) Some v' enter it by auto
        then have "path = [] \<or> picked v maxlen (fv_chdir v cwd ?nxt) path"
          using "2.IH"(1) [of ls ?items _ "(nm, dir)" nm dir ?nxt] Some v' enter it True "2.prems"(2) picker_items_shape(1)
          by auto
        then show ?thesis using into [OF Some, of nm maxlen path] mem True by auto
      next
        case False
        then have "path = take (maxlen - 1) ?nxt"
          using "2.prems"(1) Some v' enter it by auto
        then show ?thesis using here [OF Some, of nm maxlen] mem False by simp
      qed
    next
      case move
      then have "picker maxlen ks cwd (move_sel k (length ?items) sel) = Some path"
        using "2.prems"(1) Some v' by auto
      moreover have "move_sel k (length ?items) sel < length ?items" using sel by (rule move_sel_in_range)
      ultimately show ?thesis
        using "2.IH"(2) [of ls ?items] Some v' move "2.prems"(2) by auto
    qed
  qed
qed simp

section \<open>The progress bar\<close>

lemma percent_bound: "n_submitted \<le> n_total \<Longrightarrow> percent n_submitted n_total \<le> 100"
proof -
  assume le: "n_submitted \<le> n_total"
  have "unat n_submitted \<le> unat n_total" using le by (simp add: word_le_nat_alt)
  then have "unat n_submitted * 100 div unat n_total \<le> unat n_total * 100 div unat n_total"
    by (intro div_le_mono) simp
  also have "\<dots> \<le> 100" by (cases "unat n_total = 0") simp_all
  finally show ?thesis by (simp add: percent_def)
qed

lemma length_dec_le: "n < 10 ^ k \<Longrightarrow> 0 < k \<Longrightarrow> length (dec n) \<le> k"
  using length_dec [of n "k - 1"] by simp

lemma u16_bound: "unat (n :: u16) < 65536"
  using unsigned_less [of n, where ?'a = nat] by simp

lemma percent_u16: "percent n_submitted n_total \<le> 6553500"
proof -
  have "unat n_submitted * 100 div unat n_total \<le> unat n_submitted * 100" by (rule div_le_dividend)
  then have "unat n_submitted * 100 div unat n_total \<le> 6553500" using u16_bound [of n_submitted] by linarith
  then show ?thesis by (simp add: percent_def)
qed

lemma suffix_length: "length (suffix_of snap) \<le> 23"
proof -
  have "length (dec_w (sn_submitted snap)) \<le> 5" "length (dec_w (sn_total snap)) \<le> 5"
    by (rule length_dec_u16)+
  moreover have "length (dec (percent (sn_submitted snap) (sn_total snap))) \<le> 7"
    using percent_u16 [of "sn_submitted snap" "sn_total snap"] by (intro length_dec_le) simp_all
  ultimately show ?thesis by (simp add: suffix_of_def snprintf_def)
qed

lemma bar_length:
  assumes "24 < width"
  shows "length (bar_row width snap) =
    (let bar = width - 1 - length (suffix_of snap)
     in 1 + max bar (bar * percent (sn_submitted snap) (sn_total snap) div 100) + length (suffix_of snap))"
  using assms suffix_length [of snap] by (simp add: bar_row_def draw_bar_def Let_def max_def)

text \<open>The progress row. In a panel of at least 28 columns the row that shows the progress
  is exactly as wide as the panel has room for, as long as no more students have an AC than the class
  has members; with twice as many it runs out of the panel.\<close>

theorem progress_row_width:
  assumes "24 < width"
  shows "(sn_submitted snap \<le> sn_total snap \<longrightarrow> length (bar_row width snap) = width) \<and>
         (0 < sn_total snap \<and> 2 * unat (sn_total snap) \<le> unat (sn_submitted snap) \<longrightarrow> width < length (bar_row width snap))"
proof (intro conjI impI)
  let ?pct = "percent (sn_submitted snap) (sn_total snap)"
  let ?bar = "width - 1 - length (suffix_of snap)"
  have room: "0 < ?bar" "1 + ?bar + length (suffix_of snap) = width"
    using assms suffix_length [of snap] by simp_all
  {
    assume "sn_submitted snap \<le> sn_total snap"
    then have "?bar * ?pct \<le> ?bar * 100" by (intro mult_le_mono2 percent_bound)
    then have "?bar * ?pct div 100 \<le> ?bar" by (metis div_le_mono nonzero_mult_div_cancel_right zero_neq_numeral)
    then show "length (bar_row width snap) = width"
      using room(2) unfolding bar_length [OF assms] Let_def by (simp only: max_absorb1)
  next
    assume t: "0 < sn_total snap \<and> 2 * unat (sn_total snap) \<le> unat (sn_submitted snap)"
    then have pos: "0 < unat (sn_total snap)" by (simp add: unat_gt_0 word_greater_zero_iff)
    have "200 * unat (sn_total snap) div unat (sn_total snap) \<le> unat (sn_submitted snap) * 100 div unat (sn_total snap)"
      using t by (intro div_le_mono) simp
    then have "200 \<le> ?pct" using pos t by (simp add: percent_def)
    then have "?bar * 200 \<le> ?bar * ?pct" by (rule mult_le_mono2)
    then have "?bar * 200 div 100 \<le> ?bar * ?pct div 100" by (rule div_le_mono)
    then have "2 * ?bar \<le> ?bar * ?pct div 100" by simp
    then show "width < length (bar_row width snap)"
      using room bar_length [OF assms, of snap] unfolding Let_def by linarith
  }
qed

theorem progress_row_width_witness:
  "length (bar_row 80 \<lparr>sn_week = ''w'', sn_submitted = 12, sn_total = 30, csv_records = 9, entries = []\<rparr>) = 80 \<and>
   80 < length (bar_row 80 \<lparr>sn_week = ''w'', sn_submitted = 60, sn_total = 30, csv_records = 9, entries = []\<rparr>)"
proof -
  have "(12 :: u16) \<le> 30" "(0 :: u16) < 30" "2 * unat (30 :: u16) \<le> unat (60 :: u16)" by simp_all
  then show ?thesis
    using progress_row_width [of 80 "\<lparr>sn_week = ''w'', sn_submitted = 12, sn_total = 30, csv_records = 9, entries = []\<rparr>"]
      progress_row_width [of 80 "\<lparr>sn_week = ''w'', sn_submitted = 60, sn_total = 30, csv_records = 9, entries = []\<rparr>"]
    by simp
qed

end
