(* ===== verification/Dashboard.thy ===== *)
theory Dashboard
  imports Dashboard_View
begin

text \<open>
  The instructor's dashboard, \<^verbatim>\<open>minici-tui.c\<close>: its state, requests to the server, the polling thread
  and the menu. The server is a function from a command and a payload to the response (\<open>None\<close> if it
  cannot be reached) and a new state; the locale \<open>week_server\<close> says what the dashboard
  relies on, and the server of \<open>Ctl\<close>, over its sockets, provides it. Messages are kept as their
  UTF-8 bytes; colours are left out.
\<close>

section \<open>Requests\<close>

definition ipc_request :: "IpcCommand \<Rightarrow> string option \<Rightarrow> IpcRequest" where
  "ipc_request cmd payload =
     \<lparr>rq_cmd = ipc_cmd cmd,
      rq_payload = (case payload of
          None \<Rightarrow> replicate IPC_MAX_PAYLOAD NUL
        | Some p \<Rightarrow> strncpy (replicate IPC_MAX_PAYLOAD NUL) p (IPC_MAX_PAYLOAD - 1))\<rparr>"

text \<open>\<open>ipc_send\<close>: whether \<open>socket\<close> and \<open>connect\<close> work, what the server will send, what is sent to it.\<close>

definition ipc_send ::
  "bool \<Rightarrow> bool \<Rightarrow> IpcCommand \<Rightarrow> string option \<Rightarrow> sock \<Rightarrow> link \<Rightarrow> IpcResponse option \<times> link" where
  "ipc_send sock_ok connects cmd payload s l =
     (if \<not> sock_ok \<or> \<not> connects then (None, l)
      else let l' = snd (send (enc_IpcRequest (ipc_request cmd payload)) l);
               (n, got, s') = recv_waitall sizeof_Ipc s
           in (if n = int sizeof_Ipc then Some (dec_IpcResponse got) else None, l'))"

text \<open>One command to the server of \<open>Ctl\<close>: the bytes of the request go to its control handler, the
  bytes of the answer come back.\<close>

type_synonym server_state = "ServerContext \<times> os"

definition ctl_call ::
  "env \<Rightarrow> byte list \<Rightarrow> IpcCommand \<Rightarrow> string option \<Rightarrow> server_state \<Rightarrow> IpcResponse option \<times> server_state" where
  "ctl_call e stack cmd payload st =
     (let request = sent (snd (ipc_send True True cmd payload \<lparr>rx = [], rx_reset = False\<rparr> \<lparr>sent = [], tx = []\<rparr>));
          (l, ctx, w) = handle_ctl_client e stack \<lparr>rx = [request], rx_reset = False\<rparr> \<lparr>sent = [], tx = []\<rparr> (fst st) (snd st)
      in (fst (ipc_send True True cmd payload \<lparr>rx = [sent l], rx_reset = False\<rparr> \<lparr>sent = [], tx = []\<rparr>), (ctx, w)))"

section \<open>State\<close>

record tui =
  g_snap :: Snap
  g_deadline :: string
  g_testsh :: string
  g_staged_week :: string
  g_staged_testsh :: string
  tui_log :: "(nat \<times> string) list"
  tui_sel :: nat
  tui_running :: bool

definition msg_done :: string where
  "msg_done =
    map char_of [91 :: nat, 236, 153, 132, 235, 163, 140, 93, 32]"

definition msg_failed :: string where
  "msg_failed =
    map char_of [91 :: nat, 236, 139, 164, 237, 140, 168, 93, 32]"

definition msg_no_server :: string where
  "msg_no_server =
    map char_of [91 :: nat, 236, 152, 164, 235, 165, 152, 93, 32, 236, 132, 156, 235, 178,
     132, 236, 151, 144, 32, 236, 151, 176, 234, 178, 176, 237, 149, 160, 32, 236, 136, 152,
     32, 236, 151, 134, 236, 138, 181, 235, 139, 136, 235, 139, 164, 46, 32, 236, 132, 156,
     235, 178, 132, 234, 176, 128, 32, 236, 139, 164, 237, 150, 137, 32, 236, 164, 145, 236,
     157, 184, 236, 167, 128, 32, 237, 153, 149, 236, 157, 184, 237, 149, 152, 236, 132, 184,
     236, 154, 148, 46]"

definition msg_no_testsh :: string where
  "msg_no_testsh =
    map char_of [91 :: nat, 236, 152, 164, 235, 165, 152, 93, 32, 116, 101, 115, 116, 46, 115,
     104, 32, 234, 178, 189, 235, 161, 156, 234, 176, 128, 32, 236, 132, 164, 236, 160, 149,
     235, 144, 152, 236, 167, 128, 32, 236, 149, 138, 236, 149, 152, 236, 138, 181, 235, 139,
     136, 235, 139, 164, 46]"

definition msg_copied :: string where
  "msg_copied =
    map char_of [91 :: nat, 235, 176, 176, 237, 143, 172, 32, 236, 153, 132, 235, 163, 140,
     93, 32]"

definition msg_arrow :: string where
  "msg_arrow =
    map char_of [32 :: nat, 226, 134, 146, 32]"

definition msg_not_copied :: string where
  "msg_not_copied =
    map char_of [91 :: nat, 235, 176, 176, 237, 143, 172, 32, 236, 139, 164, 237, 140, 168,
     93, 32, 237, 140, 140, 236, 157, 188, 236, 157, 132, 32, 237, 153, 149, 236, 157, 184,
     237, 149, 152, 236, 132, 184, 236, 154, 148, 58, 32]"

definition deadline_unset :: string where
  "deadline_unset =
    map char_of [235 :: nat, 175, 184, 236, 132, 164, 236, 160, 149]"

definition tui_init :: tui where
  "tui_init =
     \<lparr>g_snap = \<lparr>sn_week = [], sn_submitted = 0, sn_total = 0, csv_records = 0, entries = []\<rparr>,
      g_deadline = deadline_unset, g_testsh = [], g_staged_week = [], g_staged_testsh = [],
      tui_log = [], tui_sel = 0, tui_running = True\<rparr>"

definition log_msg :: "nat \<Rightarrow> string \<Rightarrow> tui \<Rightarrow> tui" where
  "log_msg pair msg t = t\<lparr>tui_log := tui_log t @ [(pair, msg)]\<rparr>"

definition tui_valid_week_name :: "string \<Rightarrow> bool" where
  "tui_valid_week_name s \<longleftrightarrow>
     (let len = strlen s
      in \<not> (len = 0 \<or> MAX_WEEK_NAME \<le> len) \<and>
         list_all (\<lambda>c. isalnum c \<or> c = CHR ''_'' \<or> c = CHR ''-'') (cstr s))"

section \<open>Polling\<close>

text \<open>\<open>%u\<close> of \<open>sscanf\<close>: \<open>None\<close> if there is no number.\<close>

definition scan_u :: "string \<Rightarrow> u32 option" where
  "scan_u s =
     (let t = dropWhile isspace s;
          neg = (case t of c # _ \<Rightarrow> c = CHR ''-'' | [] \<Rightarrow> False);
          r = (case t of c # q \<Rightarrow> if c = CHR ''-'' \<or> c = CHR ''+'' then q else t | [] \<Rightarrow> []);
          ds = takeWhile isdigit r;
          v = min (2 ^ 64 - 1) (digits_val ds)
      in if ds = [] then None else Some (if neg then - of_nat v else of_nat v))"

definition scan_records :: "string \<Rightarrow> u32" where
  "scan_records data =
     (if take 8 (cstr data) = ''records=''
      then (case scan_u (drop 8 (cstr data)) of Some n \<Rightarrow> n | None \<Rightarrow> 0) else 0)"

type_synonym 's server_call = "IpcCommand \<Rightarrow> string option \<Rightarrow> 's \<Rightarrow> IpcResponse option \<times> 's"

definition answered :: "IpcResponse option \<Rightarrow> bool" where
  "answered r \<longleftrightarrow> (case r of Some x \<Rightarrow> rs_status x = ipc_status IPC_OK | None \<Rightarrow> False)"

definition poll_once :: "'s server_call \<Rightarrow> tui \<times> 's \<Rightarrow> tui \<times> 's" where
  "poll_once srv ts =
     (let (t, s) = ts; (r, s1) = srv CMD_GET_TRACKER None s
      in if \<not> answered r then (t, s1)
         else let snap = parse_snap (rs_data (the r));
                  (cr, s2) = srv CMD_GET_CSV_STAT None s1;
                  snap' = (if answered cr then snap\<lparr>csv_records := scan_records (rs_data (the cr))\<rparr> else snap)
              in (t\<lparr>g_snap := snap'\<rparr>, s2))"

section \<open>The menu\<close>

definition popup_input :: "nat \<Rightarrow> string \<Rightarrow> string option" where
  "popup_input maxlen typed = (let out = take (maxlen - 1) (cstr typed) in if out = [] then None else Some out)"

definition testsh_dst :: "string \<Rightarrow> string" where
  "testsh_dst week = snprintf 512 (''submissions/'' @ week @ ''/test.sh'')"

definition quote :: char where
  "quote = CHR 0x22"

definition testsh_cmd :: "string \<Rightarrow> string \<Rightarrow> string" where
  "testsh_cmd week testsh =
     snprintf 600 (''mkdir -p submissions/'' @ week @ '' && cp '' @ [quote] @ testsh @ [quote, CHR '' '', quote]
       @ testsh_dst week @ [quote])"

definition distribute_testsh :: "(string \<Rightarrow> int) \<Rightarrow> tui \<Rightarrow> tui" where
  "distribute_testsh sys_call t =
     (if g_testsh t = [] then log_msg 4 msg_no_testsh t
      else let week = sn_week (g_snap t); ret = sys_call (testsh_cmd week (g_testsh t))
           in if ret = 0 then log_msg 2 (snprintf 300 (msg_copied @ g_testsh t @ msg_arrow @ testsh_dst week)) t
              else log_msg 4 (snprintf 300 (msg_not_copied @ g_testsh t)) t)"

datatype action = ACT_IPC | ACT_DL | ACT_TSDIST | ACT_STAGE_WEEK | ACT_STAGE_SCRIPT | ACT_DEPLOY

text \<open>Korean texts are given by their UTF-8 bytes.\<close>

definition utf8 :: "nat list \<Rightarrow> string" where
  "utf8 bs = map char_of bs"

record MenuItem =
  mi_icon :: string
  mi_label :: string
  mi_desc :: string
  mi_action :: action
  mi_cmd :: "IpcCommand option"
  mi_needs_input :: bool

definition item :: "string \<Rightarrow> string \<Rightarrow> string \<Rightarrow> action \<Rightarrow> IpcCommand option \<Rightarrow> bool \<Rightarrow> MenuItem" where
  "item i l d a c n = \<lparr>mi_icon = i, mi_label = l, mi_desc = d, mi_action = a, mi_cmd = c, mi_needs_input = n\<rparr>"

definition MENU :: "MenuItem list" where
  "MENU =
     [item (utf8 [91, 237, 152, 132, 237, 153, 169, 93]) (utf8 [236, 132, 156, 235, 178, 132, 32, 236, 131, 129, 237, 131, 156, 32, 236, 161, 176, 237, 154, 140])
        (utf8 [237, 152, 132, 236, 158, 172, 32, 236, 155, 140, 236, 187, 164, 47, 237, 129, 144, 32, 236, 131, 129, 237, 131, 156, 235, 165, 188, 32, 237, 153, 149, 236, 157, 184, 237, 149, 169, 235, 139, 136, 235, 139, 164])
        ACT_IPC (Some CMD_STATUS) False,
      item (utf8 [91, 236, 164, 128, 235, 185, 132, 93]) ''1. Set Target Week''
        (utf8 [236, 138, 164, 237, 133, 140, 236, 157, 180, 236, 167, 149, 58, 32, 236, 160, 132, 237, 153, 152, 237, 149, 160, 32, 236, 163, 188, 236, 176, 168, 32, 236, 157, 180, 235, 166, 132, 32, 236, 158, 133, 235, 160, 165])
        ACT_STAGE_WEEK None False,
      item (utf8 [91, 236, 164, 128, 235, 185, 132, 93]) ''2. Select test.sh''
        (utf8 [236, 138, 164, 237, 133, 140, 236, 157, 180, 236, 167, 149, 58, 32, 236, 138, 164, 237, 129, 172, 235, 166, 189, 237, 138, 184, 32, 234, 178, 189, 235, 161, 156, 32, 236, 132, 160, 237, 131, 157])
        ACT_STAGE_SCRIPT None False,
      item (utf8 [91, 236, 160, 129, 236, 154, 169, 93]) ''3. Apply to Server''
        (utf8 [236, 132, 164, 236, 160, 149, 235, 144, 156, 32, 236, 163, 188, 236, 176, 168, 235, 170, 133, 40, 87, 101, 101, 107, 41, 236, 157, 132, 32, 236, 132, 156, 235, 178, 132, 236, 151, 144, 32, 235, 176, 152, 236, 152, 129])
        ACT_DEPLOY None False,
      item (utf8 [91, 236, 157, 184, 236, 155, 144, 93]) (utf8 [236, 136, 152, 234, 176, 149, 236, 131, 157, 32, 236, 136, 152, 32, 236, 132, 164, 236, 160, 149])
        (utf8 [236, 160, 132, 236, 178, 180, 32, 236, 136, 152, 234, 176, 149, 236, 131, 157, 32, 236, 136, 152, 235, 165, 188, 32, 236, 158, 133, 235, 160, 165, 237, 149, 169, 235, 139, 136, 235, 139, 164, 32, 40, 236, 152, 136, 58, 32, 51, 48, 41])
        ACT_IPC (Some CMD_SET_STUDENTS) True,
      item (utf8 [91, 234, 184, 176, 237, 149, 156, 93]) (utf8 [236, 160, 156, 236, 182, 156, 32, 234, 184, 176, 237, 149, 156, 32, 236, 132, 164, 236, 160, 149])
        (utf8 [235, 167, 136, 234, 176, 144, 32, 236, 157, 188, 236, 139, 156, 235, 165, 188, 32, 237, 145, 156, 236, 139, 156, 237, 149, 169, 235, 139, 136, 235, 139, 164, 32, 40, 236, 152, 136, 58, 32, 53, 47, 51, 49, 32, 50, 51, 58, 53, 57, 41])
        ACT_DL None True,
      item (utf8 [91, 235, 176, 176, 237, 143, 172, 93]) (utf8 [116, 101, 115, 116, 46, 115, 104, 32, 237, 149, 153, 236, 131, 157, 32, 235, 176, 176, 237, 143, 172])
        (utf8 [236, 167, 128, 236, 160, 149, 235, 144, 156, 32, 116, 101, 115, 116, 46, 115, 104, 235, 165, 188, 32, 236, 160, 156, 236, 182, 156, 32, 237, 143, 180, 235, 141, 148, 236, 151, 144, 32, 235, 179, 181, 236, 130, 172, 237, 149, 169, 235, 139, 136, 235, 139, 164])
        ACT_TSDIST None False,
      item (utf8 [91, 236, 160, 149, 236, 167, 128, 93]) (utf8 [236, 177, 132, 236, 160, 144, 32, 236, 157, 188, 236, 139, 156, 236, 160, 149, 236, 167, 128])
        (utf8 [236, 131, 136, 32, 236, 160, 156, 236, 182, 156, 236, 157, 132, 32, 236, 158, 160, 236, 139, 156, 32, 235, 176, 155, 236, 167, 128, 32, 236, 149, 138, 236, 138, 181, 235, 139, 136, 235, 139, 164])
        ACT_IPC (Some CMD_PAUSE) False,
      item (utf8 [91, 236, 158, 172, 234, 176, 156, 93]) (utf8 [236, 177, 132, 236, 160, 144, 32, 236, 158, 172, 234, 176, 156])
        (utf8 [236, 160, 156, 236, 182, 156, 32, 236, 160, 145, 236, 136, 152, 235, 165, 188, 32, 235, 139, 164, 236, 139, 156, 32, 236, 139, 156, 236, 158, 145, 237, 149, 169, 235, 139, 136, 235, 139, 164])
        ACT_IPC (Some CMD_RESUME) False,
      item (utf8 [91, 235, 176, 176, 237, 143, 172, 93]) (utf8 [237, 140, 140, 236, 157, 188, 32, 235, 176, 176, 237, 143, 172, 32, 79, 110, 47, 79, 102, 102])
        (utf8 [237, 149, 153, 236, 131, 157, 235, 147, 164, 236, 157, 152, 32, 237, 140, 140, 236, 157, 188, 32, 235, 139, 164, 236, 154, 180, 235, 161, 156, 235, 147, 156, 235, 165, 188, 32, 236, 188, 156, 234, 179, 160, 32, 235, 129, 149, 235, 139, 136, 235, 139, 164])
        ACT_IPC (Some CMD_TOGGLE_DIST) False,
      item ''[CSV]'' (utf8 [236, 132, 177, 236, 160, 129, 237, 145, 156, 32, 236, 166, 137, 236, 139, 156, 32, 236, 160, 128, 236, 158, 165])
        (utf8 [114, 101, 115, 117, 108, 116, 115, 46, 99, 115, 118, 32, 235, 165, 188, 32, 236, 167, 128, 234, 184, 136, 32, 102, 108, 117, 115, 104, 32, 237, 149, 169, 235, 139, 136, 235, 139, 164])
        ACT_IPC (Some CMD_EXPORT_CSV) False,
      item ''[CSV]'' (utf8 [236, 132, 177, 236, 160, 129, 237, 145, 156, 32, 236, 160, 128, 236, 158, 165, 32, 237, 152, 132, 237, 153, 169])
        (utf8 [67, 83, 86, 32, 235, 136, 132, 236, 160, 129, 32, 235, 160, 136, 236, 189, 148, 235, 147, 156, 32, 236, 136, 152, 236, 153, 128, 32, 235, 167, 136, 236, 167, 128, 235, 167, 137, 32, 236, 160, 128, 236, 158, 165, 32, 236, 139, 156, 234, 176, 129])
        ACT_IPC (Some CMD_GET_CSV_STAT) False]"

definition MENU_CNT :: nat where
  "MENU_CNT = length MENU"

text \<open>The menu's window: the selected item in full width, of the others icon and label; and what the turn puts into
  the other window, where \<open>Erased\<close> is \<open>werase\<close>.\<close>

definition menu_title :: string where
  "menu_title = utf8 [32, 32, 77, 105, 110, 105, 32, 67, 73, 32, 234, 180, 128, 235, 166, 172, 32, 235, 169, 148, 235, 137, 180]"

definition menu_hint :: string where
  "menu_hint = utf8 [236, 156, 132, 236, 149, 132, 235, 158, 152, 58, 32, 236, 157, 180, 235, 143, 153, 32, 32, 69, 110, 116, 101, 114, 58, 32, 236, 139, 164, 237, 150, 137, 32, 32, 113, 58, 32, 236, 162, 133, 235, 163, 140]"

definition draw_item :: "nat \<Rightarrow> nat \<Rightarrow> nat \<Rightarrow> (nat \<times> nat \<times> string) list" where
  "draw_item menu_w sel i =
     (let m = MENU ! i
      in if i = sel then [(3 + i, 1, '' '' @ pad_right (menu_w - 3) (mi_label m))]
         else [(3 + i, 1, '' '' @ mi_icon m @ '' ''), (3 + i, 7, '' '' @ mi_label m)])"

definition draw_menu :: "nat \<Rightarrow> nat \<Rightarrow> nat \<Rightarrow> (nat \<times> nat \<times> string) list" where
  "draw_menu rows menu_w sel =
     (1, 2, menu_title) # concat (map (draw_item menu_w sel) [0..<MENU_CNT]) @ [(rows - 2, 2, menu_hint)]"

datatype info_draw = Erased | Drawn "nat \<times> nat \<times> string"

definition draw_selected :: "(nat \<times> nat \<times> string) list \<Rightarrow> MenuItem \<Rightarrow> info_draw list" where
  "draw_selected info m =
     [Erased, Drawn (1, 2, mi_icon m @ '' '' @ mi_label m), Drawn (2, 2, mi_desc m)] @ Erased # map Drawn info"

fun on_screen :: "info_draw list \<Rightarrow> (nat \<times> nat \<times> string) list \<Rightarrow> (nat \<times> nat \<times> string) list" where
  "on_screen [] shown = shown"
| "on_screen (Erased # ds) shown = on_screen ds []"
| "on_screen (Drawn x # ds) shown = on_screen ds (shown @ [x])"

lemma on_screen_drawn: "on_screen (map Drawn xs) shown = shown @ xs"
  by (induction xs arbitrary: shown) simp_all

text \<open>The description of the selected item is erased before anybody can read it.\<close>

lemma description_never_shown: "on_screen (draw_selected info m) shown = info"
  by (simp add: draw_selected_def on_screen_drawn)

lemma menu_shows_all:
  "i < MENU_CNT \<Longrightarrow> \<exists>c text. (3 + i, c, text) \<in> set (draw_menu rows menu_w sel) \<and> (\<exists>a b. text = a @ mi_label (MENU ! i) @ b)"
proof -
  assume i: "i < MENU_CNT"
  let ?t = "if i = sel then (1 :: nat, '' '' @ pad_right (menu_w - 3) (mi_label (MENU ! i))) else (7, '' '' @ mi_label (MENU ! i))"
  have "(3 + i, ?t) \<in> set (draw_item menu_w sel i)" by (simp add: draw_item_def Let_def)
  then have "(3 + i, ?t) \<in> set (draw_menu rows menu_w sel)" using i by (auto simp: draw_menu_def)
  moreover have "\<exists>a b. snd ?t = a @ mi_label (MENU ! i) @ b"
  proof (cases "i = sel")
    case True
    then have "snd ?t = '' '' @ mi_label (MENU ! i) @ replicate (menu_w - 3 - length (mi_label (MENU ! i))) CHR '' ''"
      by (simp add: pad_right_def)
    then show ?thesis by blast
  next
    case False
    then have "snd ?t = '' '' @ mi_label (MENU ! i) @ []" by simp
    then show ?thesis by blast
  qed
  ultimately show ?thesis by (metis prod.collapse)
qed

text \<open>What the instructor does in the dialogues of one menu item, and what \<open>system\<close> would return.\<close>

record user_in =
  us_typed :: string
  us_picked :: string
  us_system :: "string \<Rightarrow> int"

definition stage_week :: "string \<Rightarrow> tui \<Rightarrow> tui" where
  "stage_week typed t =
     (case popup_input IPC_MAX_PAYLOAD typed of
        None \<Rightarrow> t
      | Some out \<Rightarrow>
          let input = cut_at [CHR 0x0D, CHR 0x0A] out
          in if \<not> tui_valid_week_name input
             then log_msg 4 (''[ERROR] Week name allows only letters, digits, '' @ [CHR 0x27, CHR ''_'', CHR 0x27]
                    @ '' and '' @ [CHR 0x27, CHR ''-'', CHR 0x27, CHR ''.'']) t
             else log_msg 2 ''[STAGING] Target week staged.'' (t\<lparr>g_staged_week := snprintf MAX_WEEK_NAME input\<rparr>))"

definition stage_script :: "string \<Rightarrow> tui \<Rightarrow> tui" where
  "stage_script path t =
     (if path \<noteq> []
      then log_msg 2 ''[STAGING] test.sh path staged.'' (t\<lparr>g_staged_testsh := snprintf 256 path\<rparr>)
      else log_msg 4 ''[CANCEL] Script selection cancelled.'' t)"

definition deploy :: "'s server_call \<Rightarrow> tui \<times> 's \<Rightarrow> tui \<times> 's" where
  "deploy srv ts =
     (let (t, s) = ts; target_week = g_staged_week t
      in if target_week = [] then (log_msg 4 ''[WARN] No staged week. Set target week first.'' t, s)
         else let (r, s') = srv CMD_SET_HW (Some target_week) s
              in (case r of
                    None \<Rightarrow> (log_msg 4 ''[ERROR] Cannot connect to server.'' t, s')
                  | Some resp \<Rightarrow>
                      if rs_status resp = ipc_status IPC_OK
                      then (log_msg 2 (''[SUCCESS] Week applied to server: '' @ cstr (rs_data resp))
                              (t\<lparr>g_testsh := (if g_staged_testsh t \<noteq> [] then g_staged_testsh t else g_testsh t),
                                 g_staged_week := [], g_staged_testsh := []\<rparr>), s')
                      else (log_msg 4 (''[ERROR] Server rejected request: '' @ cstr (rs_data resp)) t, s')))"

definition set_deadline :: "string \<Rightarrow> tui \<Rightarrow> tui" where
  "set_deadline typed t =
     (case popup_input IPC_MAX_PAYLOAD typed of None \<Rightarrow> t | Some out \<Rightarrow> t\<lparr>g_deadline := take 63 out\<rparr>)"

definition run_ipc :: "'s server_call \<Rightarrow> IpcCommand \<Rightarrow> string option \<Rightarrow> tui \<times> 's \<Rightarrow> tui \<times> 's" where
  "run_ipc srv cmd payload ts =
     (let (t, s) = ts; (r, s') = srv cmd payload s
      in (case r of
            None \<Rightarrow> (log_msg 4 msg_no_server t, s')
          | Some resp \<Rightarrow>
              if rs_status resp = ipc_status IPC_OK
              then (log_msg 2 (msg_done @ cstr (rs_data resp)) t, s')
              else (log_msg 4 (msg_failed @ cstr (rs_data resp)) t, s')))"

definition run_item :: "'s server_call \<Rightarrow> MenuItem \<Rightarrow> user_in \<Rightarrow> tui \<times> 's \<Rightarrow> tui \<times> 's" where
  "run_item srv m us ts =
     (case mi_action m of
        ACT_STAGE_WEEK \<Rightarrow> (stage_week (us_typed us) (fst ts), snd ts)
      | ACT_STAGE_SCRIPT \<Rightarrow> (stage_script (us_picked us) (fst ts), snd ts)
      | ACT_DEPLOY \<Rightarrow> deploy srv ts
      | ACT_DL \<Rightarrow> (set_deadline (us_typed us) (fst ts), snd ts)
      | ACT_TSDIST \<Rightarrow> (distribute_testsh (us_system us) (fst ts), snd ts)
      | ACT_IPC \<Rightarrow>
          (case mi_cmd m of
             None \<Rightarrow> ts
           | Some cmd \<Rightarrow>
               if mi_needs_input m
               then (case popup_input IPC_MAX_PAYLOAD (us_typed us) of
                       None \<Rightarrow> ts | Some out \<Rightarrow> run_ipc srv cmd (Some out) ts)
               else run_ipc srv cmd None ts))"

definition on_key :: "'s server_call \<Rightarrow> key \<Rightarrow> user_in \<Rightarrow> tui \<times> 's \<Rightarrow> tui \<times> 's" where
  "on_key srv k us ts =
     (let (t, s) = ts
      in if k = ERR then ts
         else if k = Char (CHR ''q'') \<or> k = KEY_F10 then (t\<lparr>tui_running := False\<rparr>, s)
         else if k = KEY_UP then (t\<lparr>tui_sel := nat ((int (tui_sel t) - 1 + int MENU_CNT) mod int MENU_CNT)\<rparr>, s)
         else if k = KEY_DOWN then (t\<lparr>tui_sel := (tui_sel t + 1) mod MENU_CNT\<rparr>, s)
         else if is_enter k then run_item srv (MENU ! tui_sel t) us ts
         else ts)"

text \<open>The keys of the main loop and the turns of the polling thread, in the order in which they happen.\<close>

datatype tui_event = Key key user_in | Poll

fun tui_step :: "'s server_call \<Rightarrow> tui \<times> 's \<Rightarrow> tui_event \<Rightarrow> tui \<times> 's" where
  "tui_step srv ts (Key k us) = (if tui_running (fst ts) then on_key srv k us ts else ts)"
| "tui_step srv ts Poll = (if tui_running (fst ts) then poll_once srv ts else ts)"

definition tui_start :: "'s server_call \<Rightarrow> 's \<Rightarrow> tui \<times> 's" where
  "tui_start srv s =
     (let (r, s') = srv CMD_GET_TRACKER None s
      in (case r of None \<Rightarrow> tui_init | Some resp \<Rightarrow> tui_init\<lparr>g_snap := parse_snap (rs_data resp)\<rparr>, s'))"

definition tui_main :: "'s server_call \<Rightarrow> tui_event list \<Rightarrow> 's \<Rightarrow> tui \<times> 's" where
  "tui_main srv evs s = foldl (tui_step srv) (tui_start srv s) evs"

section \<open>The server behind the control socket\<close>

lemma length_request [simp]: "length (rq_payload (ipc_request cmd p)) = IPC_MAX_PAYLOAD"
  by (simp add: ipc_request_def length_strncpy split: option.splits)

lemma rq_cmd_request [simp]: "rq_cmd (ipc_request cmd p) = ipc_cmd cmd"
  by (simp add: ipc_request_def)

lemma cstr_nuls: "cstr (replicate n NUL @ [NUL]) = []"
  by (cases n) (simp_all add: cstr_def)

lemma cstr_request: "cstr p = p \<Longrightarrow> length p < IPC_MAX_PAYLOAD \<Longrightarrow> cstr (rq_payload (ipc_request cmd (Some p))) = p"
proof -
  assume p: "cstr p = p" "length p < IPC_MAX_PAYLOAD"
  have "NUL \<notin> set p" using cstr_no_nul [of p] p(1) by simp
  then show ?thesis using p by (simp add: ipc_request_def strncpy_def cstr_append cstr_nuls)
qed

lemma length_answer: "length (rs_data (fst (handle_request e req ctx w))) = IPC_MAX_PAYLOAD"
  by (simp add: handle_request_def on_set_hw_def on_set_students_def on_get_tracker_def on_csv_stat_def
      on_toggle_dist_def Let_def case_prod_beta length_respond del: proto_consts)

lemma recv_exactly:
  assumes "length bs = sizeof_Ipc"
  shows "recv_waitall sizeof_Ipc \<lparr>rx = [bs], rx_reset = False\<rparr> = (int sizeof_Ipc, bs, \<lparr>rx = [[]], rx_reset = False\<rparr>)"
  using assms by (simp add: recv_waitall_def sizeof_Ipc_def) (auto simp: sizeof_Ipc_def)

lemma ctl_call_result:
  "ctl_call e stack cmd p st =
     (Some (fst (handle_request e (ipc_request cmd p) (fst st) (snd st))),
      snd (handle_request e (ipc_request cmd p) (fst st) (snd st)))"
proof -
  let ?req = "enc_IpcRequest (ipc_request cmd p)"
  obtain resp ctx w where h: "handle_request e (ipc_request cmd p) (fst st) (snd st) = (resp, ctx, w)"
    by (cases "handle_request e (ipc_request cmd p) (fst st) (snd st)") auto
  have lr: "length ?req = sizeof_Ipc" by (simp add: enc_IpcRequest_def sizeof_Ipc_def)
  have "length (rs_data resp) = IPC_MAX_PAYLOAD" using length_answer [of e "ipc_request cmd p" "fst st" "snd st"] h by simp
  then have la: "length (enc_IpcResponse resp) = sizeof_Ipc" "dec_IpcResponse (enc_IpcResponse resp) = resp"
    by (simp_all only: dec_enc_IpcResponse) (simp add: enc_IpcResponse_def sizeof_Ipc_def)
  have dec: "dec_IpcRequest (?req @ drop (length ?req) stack) = ipc_request cmd p"
  proof -
    have "dec_IpcRequest (?req @ t) = dec_IpcRequest ?req" for t
      using lr by (simp add: dec_IpcRequest_def chars_at_def field_def nth_append sizeof_Ipc_def)
    then show ?thesis by (simp add: dec_enc_IpcRequest)
  qed
  have pos: "0 < sizeof_Ipc" by (simp add: sizeof_Ipc_def)
  show ?thesis
    using lr la dec h pos by (simp add: ctl_call_def ipc_send_def send_def handle_ctl_client_def recv_exactly
        case_prod_beta)
qed

section \<open>What the dashboard relies on\<close>

definition plain_name :: "string \<Rightarrow> bool" where
  "plain_name week \<longleftrightarrow> cstr week = week \<and> tui_valid_week_name week"

text \<open>A server whose week changes only by an accepted \<open>CMD_SET_HW\<close>, and then to exactly the name sent.\<close>

locale week_server =
  fixes srv :: "IpcCommand \<Rightarrow> string option \<Rightarrow> 's \<Rightarrow> IpcResponse option \<times> 's"
    and week_of :: "'s \<Rightarrow> string"
  assumes set_hw: "plain_name week \<Longrightarrow> srv CMD_SET_HW (Some week) s = (r, s') \<Longrightarrow>
      week_of s' = (if answered r then week else week_of s)"
    and others: "cmd \<noteq> CMD_SET_HW \<Longrightarrow> week_of (snd (srv cmd p s)) = week_of s"
begin

definition staged_ok :: "tui \<Rightarrow> bool" where
  "staged_ok t \<longleftrightarrow> tui_sel t < MENU_CNT \<and> (g_staged_week t = [] \<or> plain_name (g_staged_week t))"

lemma stage_week_ok: "staged_ok t \<Longrightarrow> staged_ok (stage_week typed t)"
proof -
  assume t: "staged_ok t"
  have "plain_name (snprintf MAX_WEEK_NAME (cut_at r out))" if "tui_valid_week_name (cut_at r out)" for r out
  proof -
    have c: "cstr (cut_at r out) = cut_at r out"
      unfolding cut_at_def by (rule cstr_id) (use cstr_no_nul set_takeWhileD in fastforce)
    then have "length (cut_at r out) < MAX_WEEK_NAME" using that by (auto simp: tui_valid_week_name_def strlen_def Let_def)
    then have "snprintf MAX_WEEK_NAME (cut_at r out) = cut_at r out" by (simp add: snprintf_def)
    then show ?thesis using that c by (simp add: plain_name_def)
  qed
  then show ?thesis
    using t by (auto simp: stage_week_def staged_ok_def log_msg_def Let_def split: option.splits)
qed

lemma deploy_ok:
  assumes "staged_ok (fst ts)"
  shows "staged_ok (fst (deploy srv ts))"
    and "week_of (snd (deploy srv ts)) = week_of (snd ts) \<or> plain_name (week_of (snd (deploy srv ts)))"
proof -
  obtain t s where ts: "ts = (t, s)" by (cases ts)
  obtain r s' where r: "srv CMD_SET_HW (Some (g_staged_week t)) s = (r, s')" by fastforce
  show "staged_ok (fst (deploy srv ts))"
    using assms r by (auto simp: ts deploy_def staged_ok_def log_msg_def Let_def split: option.splits)
  show "week_of (snd (deploy srv ts)) = week_of (snd ts) \<or> plain_name (week_of (snd (deploy srv ts)))"
    using assms r set_hw [OF _ r]
    by (cases "g_staged_week t = []") (auto simp: ts deploy_def staged_ok_def Let_def split: option.splits if_splits)
qed

lemma run_ipc_ok:
  assumes "cmd \<noteq> CMD_SET_HW"
  shows "staged_ok (fst (run_ipc srv cmd p ts)) = staged_ok (fst ts)"
    and "week_of (snd (run_ipc srv cmd p ts)) = week_of (snd ts)"
proof -
  obtain t s where ts: "ts = (t, s)" by (cases ts)
  obtain r s' where r: "srv cmd p s = (r, s')" by fastforce
  show "staged_ok (fst (run_ipc srv cmd p ts)) = staged_ok (fst ts)"
    using r by (auto simp: ts run_ipc_def staged_ok_def log_msg_def Let_def split: option.splits)
  have "week_of s' = week_of s" using others [OF assms, of p s] r by simp
  then show "week_of (snd (run_ipc srv cmd p ts)) = week_of (snd ts)"
    using r by (auto simp: ts run_ipc_def Let_def split: option.splits)
qed

lemma menu_never_sets_hw: "m \<in> set MENU \<Longrightarrow> mi_cmd m \<noteq> Some CMD_SET_HW"
  by (auto simp: MENU_def item_def)

lemma run_item_ok:
  assumes "staged_ok (fst ts)" and "m \<in> set MENU"
  shows "staged_ok (fst (run_item srv m us ts)) \<and>
    (week_of (snd (run_item srv m us ts)) = week_of (snd ts) \<or> plain_name (week_of (snd (run_item srv m us ts))))"
proof (cases "mi_action m")
  case ACT_IPC
  show ?thesis
  proof (cases "mi_cmd m")
    case None
    then show ?thesis using assms ACT_IPC by (simp add: run_item_def)
  next
    case (Some cmd)
    then have "cmd \<noteq> CMD_SET_HW" using menu_never_sets_hw [OF assms(2)] by simp
    then show ?thesis
      using assms ACT_IPC Some by (simp add: run_item_def run_ipc_ok split: option.splits)
  qed
next
  case ACT_DEPLOY
  then show ?thesis using deploy_ok [OF assms(1)] by (simp add: run_item_def)
next
  case ACT_STAGE_WEEK
  then show ?thesis using stage_week_ok [OF assms(1)] by (simp add: run_item_def)
qed (use assms in \<open>auto simp: run_item_def stage_script_def set_deadline_def distribute_testsh_def
       staged_ok_def log_msg_def Let_def split: option.splits\<close>)

lemma poll_ok:
  "staged_ok (fst (poll_once srv ts)) = staged_ok (fst ts)" "week_of (snd (poll_once srv ts)) = week_of (snd ts)"
proof -
  obtain t s where ts: "ts = (t, s)" by (cases ts)
  obtain r s1 where r: "srv CMD_GET_TRACKER None s = (r, s1)" by fastforce
  obtain cr s2 where cr: "srv CMD_GET_CSV_STAT None s1 = (cr, s2)" by fastforce
  have "week_of s1 = week_of s" "week_of s2 = week_of s1"
    using others [of CMD_GET_TRACKER None s] others [of CMD_GET_CSV_STAT None s1] r cr by simp_all
  then show "staged_ok (fst (poll_once srv ts)) = staged_ok (fst ts)" "week_of (snd (poll_once srv ts)) = week_of (snd ts)"
    using r cr by (auto simp: ts poll_once_def staged_ok_def Let_def)
qed

definition tui_inv :: "'s \<Rightarrow> tui \<times> 's \<Rightarrow> bool" where
  "tui_inv s0 ts \<longleftrightarrow> staged_ok (fst ts) \<and> (week_of (snd ts) = week_of s0 \<or> plain_name (week_of (snd ts)))"

lemma key_ok: "tui_inv s0 ts \<Longrightarrow> tui_inv s0 (on_key srv k us ts)"
proof -
  assume inv: "tui_inv s0 ts"
  obtain t s where ts: "ts = (t, s)" by (cases ts)
  have cnt: "0 < MENU_CNT" by (simp add: MENU_CNT_def MENU_def)
  have "nat ((int (tui_sel t) - 1 + int MENU_CNT) mod int MENU_CNT) < MENU_CNT"
    using cnt by (metis nat_int nat_less_iff of_nat_0_less_iff pos_mod_bound pos_mod_sign zless_nat_eq_int_zless)
  moreover have "MENU ! tui_sel t \<in> set MENU"
    using inv by (simp add: tui_inv_def staged_ok_def ts MENU_CNT_def)
  ultimately show ?thesis
    using inv run_item_ok [of ts "MENU ! tui_sel t" us] cnt
    by (auto simp: ts on_key_def tui_inv_def staged_ok_def)
qed

lemma tui_step_ok: "tui_inv s0 ts \<Longrightarrow> tui_inv s0 (tui_step srv ts ev)"
  by (cases ev) (simp add: key_ok, simp add: poll_ok tui_inv_def)

lemma tui_main_ok: "tui_inv s0 (tui_main srv evs s0)"
proof -
  have step: "foldl (tui_step srv) ts evs = ts' \<Longrightarrow> tui_inv s0 ts \<Longrightarrow> tui_inv s0 ts'" for ts ts'
    by (induction evs arbitrary: ts) (auto simp: tui_step_ok)
  have "week_of (snd (srv CMD_GET_TRACKER None s0)) = week_of s0" by (rule others) simp
  then have "tui_inv s0 (tui_start srv s0)"
    by (auto simp: tui_start_def tui_inv_def staged_ok_def tui_init_def MENU_CNT_def MENU_def
        case_prod_beta split: option.splits)
  then show ?thesis using step by (simp add: tui_main_def)
qed

end

section \<open>The server provides it\<close>

lemma set_hw_arg_plain:
  assumes "plain_name week"
  shows "set_hw_arg (rq_payload (ipc_request cmd (Some week))) = week" and "valid_week week" and "cstr week = week"
proof -
  have w: "cstr week = week" "length week < 32" "week \<noteq> []"
    "list_all (\<lambda>c. isalnum c \<or> c = CHR ''_'' \<or> c = CHR ''-'') week"
    using assms by (auto simp: plain_name_def tui_valid_week_name_def strlen_def Let_def)
  then have "cstr (rq_payload (ipc_request cmd (Some week))) = week"
    by (intro cstr_request) (simp_all add: IPC_MAX_PAYLOAD_def)
  moreover have "takeWhile (\<lambda>c. c \<notin> set [CHR '' '', CHR 0x0D, CHR 0x0A]) week = week"
    using w(4) by (intro takeWhile_eq_all_conv [THEN iffD2]) (auto simp: list_all_iff isalnum_def isdigit_def)
  ultimately show "set_hw_arg (rq_payload (ipc_request cmd (Some week))) = week"
    using w by (simp add: set_hw_arg_def cut_at_def)
  show "valid_week week" "cstr week = week" using w by (simp_all add: valid_week_def strlen_def)
qed

lemma ctl_call_set_hw:
  assumes "plain_name week"
  shows "ctl_call e stack CMD_SET_HW (Some week) st =
    (Some (respond IPC_OK (''OK|week='' @ week)), ctx_set_hw e week (fst st) (snd st))"
proof -
  note w = set_hw_arg_plain [OF assms]
  have "current_hw (fst (ctx_set_hw e week (fst st) (snd st))) = week"
    using set_hw_valid(1) [OF w(2)] w(3) by simp
  moreover have "week \<noteq> []" using w(2) by (auto simp: valid_week_def strlen_def cstr_def)
  ultimately show ?thesis
    using w by (simp add: ctl_call_result handle_request_def on_set_hw_def case_prod_beta)
qed

interpretation ctl: week_server "ctl_call e stack" "\<lambda>st. current_hw (fst st)"
proof
  fix week s r s'
  assume w: "plain_name week" "ctl_call e stack CMD_SET_HW (Some week) s = (r, s')"
  have "current_hw (fst (ctx_set_hw e week (fst s) (snd s))) = week"
    using set_hw_valid(1) set_hw_arg_plain(2,3) [OF w(1)] by metis
  then show "current_hw (fst s') = (if answered r then week else current_hw (fst s))"
    using ctl_call_set_hw [OF w(1), of e stack s] w(2) by (auto simp: answered_def respond_def)
next
  fix cmd p s
  assume "cmd \<noteq> CMD_SET_HW"
  then have "rq_cmd (ipc_request cmd p) \<noteq> ipc_cmd CMD_SET_HW" by (cases cmd) (simp_all add: ipc_request_def)
  then show "current_hw (fst (snd (ctl_call e stack cmd p s))) = current_hw (fst s)"
    by (simp add: ctl_call_result other_commands_frame)
qed

section \<open>Properties\<close>

text \<open>C34: whatever keys are pressed and whatever is typed, the dashboard stays in order: the
  selection is a menu item, the staged week is empty or a name of letters, digits, \<open>_\<close> and \<open>-\<close> of at
  most 31 characters, and the server's week is the one it had before the dashboard was started
  or such a name.\<close>

theorem dashboard_stays_in_order:
  "let (t, (ctx, w)) = tui_main (ctl_call e stack) evs (ctx0, w0)
   in tui_sel t < 12 \<and> (g_staged_week t = [] \<or> tui_valid_week_name (g_staged_week t)) \<and>
      (current_hw ctx = current_hw ctx0 \<or> tui_valid_week_name (current_hw ctx))"
  using ctl.tui_main_ok [of "(ctx0, w0)" e stack evs]
  by (auto simp: ctl.tui_inv_def ctl.staged_ok_def MENU_CNT_def MENU_def plain_name_def split: prod.splits)

text \<open>C32: staging and deploying a week. A valid name that is typed and then deployed, over the
  control socket's bytes, switches the server to exactly that week with the full effect of
  \<open>ctx_set_hw\<close>; the dashboard reports it, takes over the staged script and clears the staging area.
  A name the dashboard rejects is not staged and does not reach the server.\<close>

theorem staged_week_reaches_server:
  assumes "cstr week = week" and "length week < IPC_MAX_PAYLOAD" and "week \<noteq> []"
    and "set week \<inter> {CHR 0x0D, CHR 0x0A} = {}" and "g_staged_week t = []"
  shows "let (t', st') = deploy (ctl_call e stack) (stage_week week t, (ctx, w))
         in if tui_valid_week_name week
            then st' = ctx_set_hw e week ctx w \<and> current_hw (fst st') = week \<and> submitted_count (fst st') = 0 \<and>
                 g_staged_week t' = [] \<and> g_staged_testsh t' = [] \<and>
                 g_testsh t' = (if g_staged_testsh t \<noteq> [] then g_staged_testsh t else g_testsh t) \<and>
                 tui_log t' = tui_log t @ [(2, ''[STAGING] Target week staged.''),
                    (2, ''[SUCCESS] Week applied to server: OK|week='' @ week)]
            else st' = (ctx, w) \<and> g_staged_week t' = [] \<and> g_testsh t' = g_testsh t"
proof -
  have pop: "length week \<le> IPC_MAX_PAYLOAD - 1 \<Longrightarrow> popup_input IPC_MAX_PAYLOAD week = Some week"
    using assms(1,3) by (simp add: popup_input_def Let_def)
  have cut: "cut_at [CHR 0x0D, CHR 0x0A] week = week"
    unfolding cut_at_def assms(1)
    by (intro takeWhile_eq_all_conv [THEN iffD2]) (use assms(4) in auto)
  have len: "length week \<le> IPC_MAX_PAYLOAD - 1" using assms(2) by simp
  show ?thesis
  proof (cases "tui_valid_week_name week")
    case True
    then have p: "plain_name week" "length week < 32"
      using assms(1) by (auto simp: plain_name_def tui_valid_week_name_def strlen_def Let_def)
    have "NUL \<notin> set (''OK|week='' @ week)" using cstr_no_nul [of week] assms(1) by simp
    then have "cstr (rs_data (respond IPC_OK (''OK|week='' @ week))) = ''OK|week='' @ week"
      using p(2) by (intro cstr_respond) (simp_all add: IPC_MAX_PAYLOAD_def)
    moreover have "snprintf MAX_WEEK_NAME week = week" using p(2) by (simp add: snprintf_def)
    moreover have "rs_status (respond IPC_OK x) = ipc_status IPC_OK" for x by (simp add: respond_def)
    ultimately show ?thesis
      using True assms(3) ctl_call_set_hw [OF p(1), of e stack "(ctx, w)"] set_hw_valid [OF set_hw_arg_plain(2) [OF p(1)]]
      by (simp add: stage_week_def pop [OF len] cut deploy_def log_msg_def assms(1))
  next
    case False
    then show ?thesis
      using assms(5) by (simp add: stage_week_def pop [OF len] cut deploy_def log_msg_def)
  qed
qed

theorem staged_week_reaches_server_witness:
  "let e = \<lparr>env_open = \<lambda>_. 5, env_mkdir = \<lambda>_. True, env_write = \<lambda>t. int (length t), env_now = 7,
            env_localtime = \<lambda>_. ''t''\<rparr>;
       w = \<lparr>os_files = \<lambda>_. None, os_dirs = [], os_fds = \<lambda>_. None\<rparr>
   in current_hw (fst (snd (deploy (ctl_call e []) (stage_week ''week_4'' tui_init, (demo_table, w))))) = ''week_4'' \<and>
      snd (deploy (ctl_call e []) (stage_week ''week 4'' tui_init, (demo_table, w))) = (demo_table, w)"
proof -
  have v: "tui_valid_week_name ''week_4''" "\<not> tui_valid_week_name ''week 4''"
    by (simp_all add: tui_valid_week_name_def strlen_def cstr_def isalnum_def isdigit_def)
  have c: "cstr ''week_4'' = ''week_4''" "cstr ''week 4'' = ''week 4''" by (simp_all add: cstr_def)
  have t: "g_staged_week tui_init = []" by (simp add: tui_init_def)
  have h: "length ''week_4'' < IPC_MAX_PAYLOAD" "''week_4'' \<noteq> []" "set ''week_4'' \<inter> {CHR 0x0D, CHR 0x0A} = {}"
    by (simp_all add: IPC_MAX_PAYLOAD_def)
  have "current_hw (fst (snd (deploy (ctl_call e []) (stage_week ''week_4'' tui_init, (demo_table, w))))) = ''week_4''" for e w
    using staged_week_reaches_server [OF c(1) h t, of e "[]" demo_table w]
    unfolding Let_def case_prod_beta if_P [OF v(1)] by blast
  moreover have "snd (deploy (ctl_call e []) (stage_week ''week 4'' tui_init, (demo_table, w))) = (demo_table, w)" for e w
    using staged_week_reaches_server [OF c(2) _ _ _ t, of e "[]" demo_table w] v
    by (simp add: Let_def case_prod_beta IPC_MAX_PAYLOAD_def)
  ultimately show ?thesis by (simp only: Let_def)
qed

text \<open>Three items of the dashboard's menu do nothing. Saving the results file is a command the
  server does not know, and is always answered with an error; pausing and resuming are reported
  as done, yet leave the server, and with it every later submission, unchanged.\<close>

theorem menu_items_without_effect:
  "run_item (ctl_call e stack) (MENU ! 10) us (t, st) = (log_msg 4 (msg_failed @ ''ERR|unknown command'') t, st) \<and>
   run_item (ctl_call e stack) (MENU ! 7) us (t, st) = (log_msg 2 (msg_done @ ''OK (legacy ignored)'') t, st) \<and>
   run_item (ctl_call e stack) (MENU ! 8) us (t, st) = (log_msg 2 (msg_done @ ''OK (legacy ignored)'') t, st)"
proof -
  have c: "cstr (rs_data (respond s ''ERR|unknown command'')) = ''ERR|unknown command''"
    "cstr (rs_data (respond s ''OK (legacy ignored)'')) = ''OK (legacy ignored)''" for s
    by (rule cstr_respond; simp add: IPC_MAX_PAYLOAD_def)+
  have m: "mi_action (MENU ! 10) = ACT_IPC" "mi_cmd (MENU ! 10) = Some CMD_EXPORT_CSV" "\<not> mi_needs_input (MENU ! 10)"
    "mi_action (MENU ! 7) = ACT_IPC" "mi_cmd (MENU ! 7) = Some CMD_PAUSE" "\<not> mi_needs_input (MENU ! 7)"
    "mi_action (MENU ! 8) = ACT_IPC" "mi_cmd (MENU ! 8) = Some CMD_RESUME" "\<not> mi_needs_input (MENU ! 8)"
    by (simp_all add: MENU_def item_def)
  have s: "rs_status (respond x y) = ipc_status x" for x y by (simp add: respond_def)
  show ?thesis
    by (simp add: m run_item_def run_ipc_def ctl_call_result handle_request_def c s)
qed

end
