(* ===== verification/Client_Submit.thy ===== *)
theory Client_Submit
  imports Grading Crc
begin

text \<open>
  The submission mode of \<^verbatim>\<open>client/client.c\<close>: the login prompt, reading and sending a source file,
  the result card, the status bar and the result list. Standard input is the text still to be
  read; the file system calls of \<open>send_source\<close> have their outcomes in the record \<open>client_env\<close>;
  \<open>read\<close> and \<open>send\<close> may be interrupted, be short, or fail. Korean messages are left out.
\<close>

section \<open>Login\<close>

text \<open>\<open>fgets (buf, n, stdin)\<close>: up to \<open>n - 1\<close> characters, through the first newline; \<open>None\<close> at the end.\<close>

definition fgets :: "nat \<Rightarrow> string \<Rightarrow> (string \<times> string) option" where
  "fgets n s =
     (if s = [] then None
      else let line = takeWhile (\<lambda>c. c \<noteq> CHR 0x0A) (take (n - 1) s);
               k = (if length line < min (n - 1) (length s) then Suc (length line) else length line)
           in Some (take k s, drop k s))"

lemma fgets_shorter: "2 \<le> n \<Longrightarrow> fgets n s = Some (b, s') \<Longrightarrow> length s' < length s"
  by (cases s; cases "n - 1") (auto simp: fgets_def Let_def split: if_splits)

definition valid_login :: "nat \<Rightarrow> string \<Rightarrow> bool" where
  "valid_login max_len buf \<longleftrightarrow>
     \<not> (strlen buf < 7 \<or> max_len \<le> strlen buf) \<and> list_all (\<lambda>c. \<not> (code c < 48 \<or> 57 < code c)) (cstr buf)"

text \<open>The loop ends only with a valid id. At the end of standard input it never ends: \<open>None\<close>.\<close>

function prompt_student_id :: "nat \<Rightarrow> string \<Rightarrow> (string \<times> string) option" where
  "prompt_student_id max_len stdin =
     (case fgets 64 stdin of
        None \<Rightarrow> None
      | Some (line, stdin') \<Rightarrow>
          let buf = cut_at [CHR 0x0D, CHR 0x0A] line
          in if valid_login max_len buf then Some (take (max_len - 1) buf, stdin')
             else prompt_student_id max_len stdin')"
  by pat_completeness auto
termination
  by (relation "measure (\<lambda>(max_len, stdin). length stdin)") (auto dest: fgets_shorter [rotated])

declare prompt_student_id.simps [simp del]

section \<open>The status bar\<close>

record client_status =
  st_week :: string
  st_submitted :: u16
  st_total :: u16
  last_result :: string
  last_exec_ms :: u32
  my_submit_count :: u16

definition status_init :: client_status where
  "status_init =
     \<lparr>st_week = ''week_1'', st_submitted = 0, st_total = 0, last_result = ''---'', last_exec_ms = 0,
      my_submit_count = 0\<rparr>"

definition pad_to :: "nat \<Rightarrow> string \<Rightarrow> string" where
  "pad_to n s = s @ replicate (n - length s) CHR '' ''"

definition status_left :: "client_status \<Rightarrow> string" where
  "status_left st =
     (let pct = (if 0 < st_total st then unat (st_submitted st) * 100 div unat (st_total st) else 0)
      in snprintf 128 ('' Mini CI  |  '' @ st_week st @ ''  |  '' @ dec_w (st_submitted st) @ '' / ''
           @ dec_w (st_total st) @ '' ('' @ dec pct @ ''%)''))"

definition status_right :: "client_status \<Rightarrow> string" where
  "status_right st =
     (let try_str = (if my_submit_count st = 0 then ''--'' else snprintf 16 (''#'' @ dec_w (my_submit_count st)))
      in snprintf 64 (''Try: '' @ pad_to 5 try_str @ '' | Result: '' @ pad_to 4 (last_result st) @ ''  ''
           @ dec_w (last_exec_ms st) @ ''ms ''))"

definition draw_status_bar :: "nat \<Rightarrow> client_status \<Rightarrow> (int \<times> string) list" where
  "draw_status_bar cols st =
     (let left = status_left st; right = status_right st; rx = int cols - int (length right) - 1
      in (0, left) # (if int (length left) + 2 < rx then [(rx, right)] else []))"

definition client_gnames :: "string list" where
  "client_gnames = [''AC'', ''WA'', ''TLE'', ''RE'', ''CE'']"

definition shown_grade :: "byte \<Rightarrow> string" where
  "shown_grade r = client_gnames ! (if r < 5 then unat r else 4)"

definition on_result_received :: "ResultHeader \<Rightarrow> client_status \<Rightarrow> client_status" where
  "on_result_received r st =
     st\<lparr>st_week := take (MAX_WEEK_NAME - 1) (cstr (rh_week_name r)),
        st_submitted := rh_submitted_count r, st_total := rh_total_students r,
        last_result := take 7 (shown_grade (rh_result r)),
        last_exec_ms := rh_exec_time_ms r, my_submit_count := rh_student_submit_count r\<rparr>"

section \<open>The result card\<close>

definition safe_copy :: "string \<Rightarrow> nat \<Rightarrow> string" where
  "safe_copy src dest_size =
     (if dest_size = 0 then []
      else if dest_size \<le> 4 then snprintf dest_size (cstr src)
      else if dest_size \<le> strlen src then take (dest_size - 4) (cstr src) @ ''...''
      else cstr src)"

text \<open>What follows the last \<open>/\<close> or \<open>\\<close> of a path.\<close>

definition base_name :: "string \<Rightarrow> string" where
  "base_name path =
     (let b = strrchr path (CHR ''/''); w = strrchr path (CHR 0x5C);
          p = (case w of None \<Rightarrow> b | Some j \<Rightarrow> (case b of None \<Rightarrow> w | Some i \<Rightarrow> if i < j then w else b))
      in case p of None \<Rightarrow> path | Some i \<Rightarrow> drop (Suc i) path)"

definition msg_security :: string where
  "msg_security = map char_of [235 :: nat, 179, 180, 236, 149, 136]"

definition card_title :: "ResultHeader \<Rightarrow> string" where
  "card_title r =
     (let safe_msg = cstr (rh_message r);
          title = (if rh_result r = grade_code GRADE_AC then ''ACCEPTED''
                   else if rh_result r = grade_code GRADE_WA then ''WRONG ANSWER''
                   else if rh_result r = grade_code GRADE_TLE then ''TIME LIMIT EXCEEDED''
                   else if rh_result r = grade_code GRADE_RE then ''RUNTIME ERROR''
                   else if rh_result r = grade_code GRADE_CE then ''COMPILE ERROR''
                   else ''UNKNOWN'')
      in if list_ex (strstr safe_msg) [msg_security, ''SIGKILL'', ''SIGSYS'', ''seccomp'', ''execve'', ''forbidden'']
         then ''SECURITY VIOLATION'' else title)"

definition CARD_FIELD_W :: nat where
  "CARD_FIELD_W = 40"

definition card_rule :: string where
  "card_rule = ''  +'' @ replicate 48 CHR ''-'' @ ''+''"

definition card_row :: "string \<Rightarrow> string \<Rightarrow> string" where
  "card_row label value_text = ''  | '' @ label @ pad_to CARD_FIELD_W value_text @ '' |''"

definition print_result_card :: "ResultHeader \<Rightarrow> string \<Rightarrow> string list" where
  "print_result_card r filename =
     [card_rule,
      ''  | '' @ pad_to 46 (card_title r) @ '' |'',
      card_rule,
      card_row ''Week  '' (safe_copy (rh_week_name r) (CARD_FIELD_W + 1)),
      card_row ''File  '' (safe_copy (base_name filename) (CARD_FIELD_W + 1)),
      card_row ''Time  '' (snprintf (CARD_FIELD_W + 1) (dec_w (rh_exec_time_ms r) @ '' ms'')),
      card_rule,
      ''  Memo:'', ''  '' @ cstr (rh_message r)]"

section \<open>Progress lines and the editor\<close>

definition progress_start :: "nat \<Rightarrow> nat \<Rightarrow> string \<Rightarrow> string" where
  "progress_start step n_steps msg = ''  ['' @ dec step @ ''/'' @ dec n_steps @ ''] '' @ msg @ ''... ''"

definition word_done :: string where
  "word_done = map char_of [236 :: nat, 153, 132, 235, 163, 140]"

definition word_failed :: string where
  "word_failed = map char_of [236 :: nat, 139, 164, 237, 140, 168]"

text \<open>\<open>ESC [ 1 ; n m\<close> around the word on a terminal.\<close>

definition coloured :: "bool \<Rightarrow> string \<Rightarrow> string \<Rightarrow> string" where
  "coloured tty colour word =
     (if tty then [CHR 0x1B] @ ''['' @ colour @ ''m'' @ word @ [CHR 0x1B] @ ''[0m'' else word) @ [CHR 0x0A]"

definition progress_done :: "bool \<Rightarrow> string" where
  "progress_done tty = coloured tty ''1;32'' word_done"

text \<open>What goes to standard output and to standard error.\<close>

definition progress_fail :: "bool \<Rightarrow> string \<Rightarrow> string \<times> string" where
  "progress_fail tty reason =
     (coloured tty ''1;31'' word_failed,
      if cstr reason \<noteq> [] then replicate 8 CHR '' '' @ cstr reason @ [CHR 0x0A] else [])"

definition editor_args :: "string \<Rightarrow> nat \<Rightarrow> string list" where
  "editor_args filepath line_number =
     [''cmd.exe'', ''/c'', ''start'', ''/wait'', ''wsl'', ''vi'', snprintf 32 (''+'' @ dec line_number), filepath]"

section \<open>Sending a source file\<close>

datatype read_result = Interrupted | Got "byte list" | Failed

record client_env =
  ce_open :: bool
  ce_stat :: "nat option"
  ce_malloc :: bool
  ce_reads :: "read_result list"
  ce_socket :: bool
  ce_inet :: bool
  ce_connect :: bool

text \<open>The read loop; a read returns at most what it is asked for. No more results is the end of file.\<close>

fun read_file :: "nat \<Rightarrow> read_result list \<Rightarrow> byte list \<Rightarrow> byte list" where
  "read_file fsize [] acc = acc"
| "read_file fsize (r # rs) acc =
     (if fsize \<le> length acc then acc
      else case r of
        Interrupted \<Rightarrow> read_file fsize rs acc
      | Failed \<Rightarrow> acc
      | Got bs \<Rightarrow> if bs = [] then acc else read_file fsize rs (acc @ take (fsize - length acc) bs))"

text \<open>A negative result of \<open>send\<close> stands for its \<open>errno\<close>.\<close>

definition EINTR :: int where
  "EINTR = 4"

lemma send_failed: "(n, l') = send bs l \<Longrightarrow> n < 0 \<Longrightarrow> length (tx l') < length (tx l)"
  by (cases "tx l") (auto simp: send_def split: if_splits)

function send_retry :: "byte list \<Rightarrow> link \<Rightarrow> byte list \<times> link" where
  "send_retry bs l =
     (if bs = [] then ([], l)
      else case send bs l of (n, l') \<Rightarrow>
        if n = - EINTR then send_retry bs l'
        else if n \<le> 0 then (bs, l')
        else send_retry (drop (nat n) bs) l')"
  by pat_completeness auto
termination
  by (relation "measures [\<lambda>(bs, l). length bs, \<lambda>(bs, l). length (tx l)]")
    (auto simp: EINTR_def dest: send_failed)

declare send_retry.simps [simp del]

definition submit_header :: "string \<Rightarrow> string \<Rightarrow> byte list \<Rightarrow> SubmitHeader" where
  "submit_header student_id filepath payload =
     \<lparr>magic = MAGIC_NUMBER, version = PROTO_VERSION, pkt_type = client_pkt PKT_SUBMIT,
      header_size = of_nat sizeof_SubmitHeader,
      sh_student_id = strncpy (replicate MAX_STUDENT_ID NUL) student_id (MAX_STUDENT_ID - 1),
      sh_filename = strncpy (replicate MAX_FILENAME NUL) (base_name filepath) (MAX_FILENAME - 1),
      sh_file_size = of_nat (length payload), sh_checksum = crc32_buf payload\<rparr>"

definition zero_result :: ResultHeader where
  "zero_result = dec_ResultHeader (replicate sizeof_ResultHeader 0)"

record submission_io =
  io_link :: link
  io_status :: client_status
  io_card :: "string list"

text \<open>\<open>send_source\<close>: its return value, what is in \<open>out_res\<close> afterwards, and its effects.\<close>

definition send_source ::
  "client_env \<Rightarrow> string \<Rightarrow> string \<Rightarrow> sock \<Rightarrow> ResultHeader \<Rightarrow> submission_io \<Rightarrow> int \<times> ResultHeader \<times> submission_io" where
  "send_source ce student_id filepath s out io =
     (if \<not> ce_open ce then (-1, out, io)
      else case ce_stat ce of None \<Rightarrow> (-1, out, io)
      | Some fsize \<Rightarrow>
        if fsize = 0 \<or> 1024 * 1024 < fsize then (-1, out, io)
        else if \<not> ce_malloc ce then (-1, out, io)
        else let payload = read_file fsize (ce_reads ce) []
        in if length payload \<noteq> fsize then (-1, out, io)
        else if \<not> ce_socket ce \<or> \<not> ce_inet ce \<or> \<not> ce_connect ce then (-1, out, io)
        else let (rest, l1) = send_retry (enc_SubmitHeader (submit_header student_id filepath payload)) (io_link io)
        in if rest \<noteq> [] then (-1, out, io\<lparr>io_link := l1\<rparr>)
        else let (rest', l2) = send_retry payload l1
        in if rest' \<noteq> [] then (-1, out, io\<lparr>io_link := l2\<rparr>)
        else let (rn, got, s') = recv_waitall sizeof_ResultHeader s;
                 res = dec_ResultHeader (got @ replicate (sizeof_ResultHeader - length got) 0)
        in if rn \<noteq> int sizeof_ResultHeader then (-1, res, io\<lparr>io_link := l2\<rparr>)
        else (0, res, io\<lparr>io_link := l2, io_status := on_result_received res (io_status io),
                          io_card := print_result_card res filepath\<rparr>))"

section \<open>The result list\<close>

definition MAX_FILES :: nat where
  "MAX_FILES = 50"

definition num_files_of :: "string list \<Rightarrow> nat" where
  "num_files_of args = (if MAX_FILES < length args then MAX_FILES else length args)"

text \<open>The batch: every file is sent on a connection of its own; the return value is not looked at.\<close>

fun submit_all ::
  "string \<Rightarrow> (string \<times> client_env \<times> sock \<times> link) list \<Rightarrow> client_status \<Rightarrow> ResultHeader list \<times> client_status" where
  "submit_all sid [] st = ([], st)"
| "submit_all sid ((path, ce, s, l) # fs) st =
     (let (ret, res, io) = send_source ce sid path s zero_result \<lparr>io_link = l, io_status = st, io_card = []\<rparr>;
          (results, st') = submit_all sid fs (io_status io)
      in (res # results, st'))"

definition list_name :: "string \<Rightarrow> string" where
  "list_name arg = (case strrchr arg (CHR ''/'') of None \<Rightarrow> arg | Some i \<Rightarrow> drop (Suc i) arg)"

definition list_row :: "string \<Rightarrow> ResultHeader \<Rightarrow> string" where
  "list_row arg r =
     pad_to 32 (list_name arg) @ '' : '' @ pad_to 4 (shown_grade (rh_result r)) @ ''  '' @ dec_w (rh_exec_time_ms r) @ ''ms''"

text \<open>The detail panel: the message cut at its newlines by \<open>strtok\<close>, which skips empty pieces, as far as
  there are rows.\<close>

fun strtok_all :: "char \<Rightarrow> string \<Rightarrow> string \<Rightarrow> string list" where
  "strtok_all d cur [] = (if cur = [] then [] else [cur])"
| "strtok_all d cur (c # cs) =
     (if c = d then (if cur = [] then strtok_all d [] cs else cur # strtok_all d [] cs)
      else strtok_all d (cur @ [c]) cs)"

definition detail_lines :: "nat \<Rightarrow> ResultHeader \<Rightarrow> (nat \<times> string) list" where
  "detail_lines max_y r =
     (let toks = strtok_all (CHR 0x0A) [] (take 127 (cstr (rh_message r)))
      in zip [3..<max_y div 2 - 1] toks)"

datatype ui_key = UiUp | UiDown | UiEnter | UiQuit | UiOther

text \<open>The list: the file selected, the results, the status bar, and the editors started. With a key come
  the outcomes of sending the file again, if the editor has changed it (\<open>st_mtime\<close>).\<close>

record ui_state =
  ui_selected :: nat
  ui_results :: "ResultHeader list"
  ui_status :: client_status
  ui_edits :: "string list list"

definition ui_key_step ::
  "string \<Rightarrow> string list \<Rightarrow> ui_key \<Rightarrow> (client_env \<times> sock \<times> link) option \<Rightarrow> ui_state \<Rightarrow> ui_state" where
  "ui_key_step sid files k resend st =
     (let i = ui_selected st in
      if k = UiUp \<and> 0 < i then st\<lparr>ui_selected := i - 1\<rparr>
      else if k = UiDown \<and> int i < int (length files) - 1 then st\<lparr>ui_selected := i + 1\<rparr>
      else if k = UiEnter then
        let st1 = st\<lparr>ui_edits := ui_edits st @ [editor_args (files ! i) 1]\<rparr>
        in (case resend of
              None \<Rightarrow> st1
            | Some (ce, s, l) \<Rightarrow>
                let (ret, res, io) = send_source ce sid (files ! i) s (ui_results st ! i)
                                       \<lparr>io_link = l, io_status = ui_status st, io_card = []\<rparr>
                in st1\<lparr>ui_results := (ui_results st)[i := res], ui_status := io_status io\<rparr>)
      else st)"

fun ui_loop ::
  "string \<Rightarrow> string list \<Rightarrow> (ui_key \<times> (client_env \<times> sock \<times> link) option) list \<Rightarrow> ui_state \<Rightarrow> ui_state" where
  "ui_loop sid files [] st = st"
| "ui_loop sid files ((k, resend) # ks) st =
     (if k = UiQuit then st else ui_loop sid files ks (ui_key_step sid files k resend st))"

text \<open>How the arguments decide what the client does.\<close>

datatype client_mode = Download | Usage | Submit "string list"

definition client_mode_of :: "string list \<Rightarrow> client_mode" where
  "client_mode_of argv =
     (if 2 \<le> length argv \<and> argv ! 1 = ''--get'' then Download
      else if length argv < 2 then Usage
      else Submit (take (num_files_of (drop 1 argv)) (drop 1 argv)))"

text \<open>The submission mode: one connection for every file, then the list. \<open>None\<close>: the prompt does not end.\<close>

definition submit_mode ::
  "string list \<Rightarrow> string \<Rightarrow> (client_env \<times> sock \<times> link) list \<Rightarrow>
   (ui_key \<times> (client_env \<times> sock \<times> link) option) list \<Rightarrow> ui_state option" where
  "submit_mode files stdin sends ks =
     (case prompt_student_id MAX_STUDENT_ID stdin of
        None \<Rightarrow> None
      | Some (sid, stdin') \<Rightarrow>
          let (results, st) = submit_all sid (zip files sends) status_init
          in Some (ui_loop sid files ks
                     \<lparr>ui_selected = 0, ui_results = results, ui_status = st, ui_edits = []\<rparr>))"

definition ui_ok :: "string list \<Rightarrow> ui_state \<Rightarrow> bool" where
  "ui_ok files st \<longleftrightarrow> ui_selected st < length files \<and> length (ui_results st) = length files"

lemma ui_step_ok: "ui_ok files st \<Longrightarrow> ui_ok files (ui_key_step sid files k resend st)"
  by (auto simp: ui_ok_def ui_key_step_def Let_def case_prod_beta split: option.splits)

lemma ui_loop_ok: "ui_ok files st \<Longrightarrow> ui_ok files (ui_loop sid files ks st)"
  by (induction sid files ks st rule: ui_loop.induct) (simp_all add: ui_step_ok)

lemma submit_all_length: "length (fst (submit_all sid fs st)) = length fs"
  by (induction fs arbitrary: st) (auto simp: case_prod_beta)

text \<open>A session of the list: the index never leaves the list, whatever keys are pressed, and only files of
  the command line are opened in an editor.\<close>

lemma ui_edits_listed:
  "ui_ok files st \<Longrightarrow> list_all (\<lambda>a. last a \<in> set files) (ui_edits st) \<Longrightarrow>
   list_all (\<lambda>a. last a \<in> set files) (ui_edits (ui_loop sid files ks st))"
proof (induction sid files ks st rule: ui_loop.induct)
  case (2 sid files k resend ks st)
  have "ui_selected st < length files" using "2.prems"(1) by (simp add: ui_ok_def)
  then have "list_all (\<lambda>a. last a \<in> set files) (ui_edits (ui_key_step sid files k resend st))"
    using "2.prems"(2) by (auto simp: ui_key_step_def editor_args_def Let_def case_prod_beta split: option.splits)
  with 2 show ?case by (simp add: ui_step_ok)
qed simp

lemma session_in_range:
  assumes "submit_mode files stdin sends ks = Some st" and "files \<noteq> []" and "length sends = length files"
  shows "ui_ok files st" and "list_all (\<lambda>a. last a \<in> set files) (ui_edits st)"
proof -
  obtain sid stdin' where "prompt_student_id MAX_STUDENT_ID stdin = Some (sid, stdin')"
    using assms(1) by (auto simp: submit_mode_def split: option.splits)
  moreover obtain results cs where r: "submit_all sid (zip files sends) status_init = (results, cs)" by fastforce
  ultimately have st: "st = ui_loop sid files ks \<lparr>ui_selected = 0, ui_results = results, ui_status = cs, ui_edits = []\<rparr>"
    using assms(1) by (simp add: submit_mode_def)
  have "length results = length files"
    using submit_all_length [of sid "zip files sends" status_init] r assms(3) by simp
  then have ok: "ui_ok files \<lparr>ui_selected = 0, ui_results = results, ui_status = cs, ui_edits = []\<rparr>"
    using assms(2) by (simp add: ui_ok_def)
  show "ui_ok files st" using ui_loop_ok [OF ok] st by simp
  show "list_all (\<lambda>a. last a \<in> set files) (ui_edits st)" using ui_edits_listed [OF ok] st by simp
qed

text \<open>Standard input in the pieces \<open>fgets\<close> delivers.\<close>

function pieces :: "string \<Rightarrow> string list" where
  "pieces s = (case fgets 64 s of None \<Rightarrow> [] | Some (b, s') \<Rightarrow> b # pieces s')"
  by pat_completeness auto
termination
  by (relation "measure length") (auto dest: fgets_shorter [rotated])

declare pieces.simps [simp del]

lemma cstr_cut_at [simp]: "cstr (cut_at r s) = cut_at r s"
  unfolding cut_at_def by (rule cstr_id) (use cstr_no_nul set_takeWhileD in fastforce)

lemma valid_login_iff:
  "cstr buf = buf \<Longrightarrow> valid_login 16 buf \<longleftrightarrow> 7 \<le> length buf \<and> length buf \<le> 15 \<and> list_all isdigit buf"
  by (auto simp: valid_login_def strlen_def isdigit_def list_all_iff)

lemma login_first_valid:
  "map_option fst (prompt_student_id 16 s) = find (valid_login 16) (map (cut_at [CHR 0x0D, CHR 0x0A]) (pieces s))"
proof (induction s rule: pieces.induct)
  case (1 s)
  show ?case
  proof (cases "fgets 64 s")
    case None
    then show ?thesis by (simp add: prompt_student_id.simps pieces.simps)
  next
    case (Some p)
    then obtain b s' where b: "fgets 64 s = Some (b, s')" by (cases p) simp
    let ?buf = "cut_at [CHR 0x0D, CHR 0x0A] b"
    have pc: "pieces s = b # pieces s'" using b by (subst pieces.simps) simp
    show ?thesis
    proof (cases "valid_login 16 ?buf")
      case True
      then have "take 15 ?buf = ?buf" using valid_login_iff [of ?buf] by simp
      then show ?thesis using b True by (subst prompt_student_id.simps) (simp add: pc)
    next
      case False
      then have "prompt_student_id 16 s = prompt_student_id 16 s'"
        using b by (subst prompt_student_id.simps) simp
      then show ?thesis using 1 [OF b refl] False by (simp add: pc)
    qed
  qed
qed

section \<open>What is sent\<close>

lemma send_retry_sent: "send_retry bs l = (rest, l') \<Longrightarrow> sent l' @ rest = sent l @ bs"
proof (induction bs l arbitrary: rest l' rule: send_retry.induct)
  case (1 bs l)
  show ?case
  proof (cases "bs = []")
    case True
    then show ?thesis using 1(3) by (simp add: send_retry.simps)
  next
    case False
    obtain n l1 where n: "send bs l = (n, l1)" by (cases "send bs l")
    have p: "sent l1 = sent l @ take (nat n) bs" using send_prefix [OF n] by simp
    consider (eintr) "n = - EINTR" | (stop) "n \<noteq> - EINTR" "n \<le> 0" | (more) "n \<noteq> - EINTR" "0 < n" by linarith
    then show ?thesis
    proof cases
      case eintr
      then have "send_retry bs l = send_retry bs l1" using n False by (subst send_retry.simps) simp
      then show ?thesis using 1(1) [OF False n [symmetric] eintr] 1(3) p eintr by (simp add: EINTR_def)
    next
      case stop
      then have "send_retry bs l = (bs, l1)" using n False by (subst send_retry.simps) simp
      then show ?thesis using 1(3) p stop by simp
    next
      case more
      then have "send_retry bs l = send_retry (drop (nat n) bs) l1" using n False by (subst send_retry.simps) simp
      then show ?thesis using 1(2) [OF False n [symmetric]] more 1(3) p by simp
    qed
  qed
qed

lemma wf_submit_header [simp]: "wf_SubmitHeader (submit_header sid path payload)"
  by (simp add: wf_SubmitHeader_def submit_header_def length_strncpy)

lemma submit_header_size: "length payload \<le> 1048576 \<Longrightarrow> unat (sh_file_size (submit_header sid path payload)) = length payload"
proof -
  assume "length payload \<le> 1048576"
  then have "length payload < 2 ^ 32" by (rule le_less_trans) simp
  then show ?thesis by (simp add: submit_header_def unat_of_nat take_bit_nat_eq_self)
qed

lemma cstr_nul_first: "cstr (replicate n NUL @ NUL # t) = []"
  by (cases n) (simp_all add: cstr_def)

lemma submit_header_id:
  assumes "cstr sid = sid" and "length sid \<le> 15"
  shows "cstr (sid_of (submit_header sid path payload)) = sid"
proof -
  have "NUL \<notin> set sid" using cstr_no_nul [of sid] assms(1) by simp
  then show ?thesis
    using assms by (simp add: sid_of_def submit_header_def strncpy_def cstr_append cstr_nul_first)
qed

text \<open>What a run of \<open>send_source\<close> that got as far as waiting for the reply has done.\<close>

lemma send_source_uploaded:
  assumes "send_source ce sid path s out io = (0, res, io')"
  obtains source where "ce_stat ce = Some (length source)" and "source = read_file (length source) (ce_reads ce) []"
    and "0 < length source" and "length source \<le> 1048576"
    and "sent (io_link io') = sent (io_link io) @ enc_SubmitHeader (submit_header sid path source) @ source"
    and "res = dec_ResultHeader (take sizeof_ResultHeader (pending s))"
    and "sizeof_ResultHeader \<le> length (pending s)" and "io_status io' = on_result_received res (io_status io)"
proof -
  obtain fsize where f: "ce_stat ce = Some fsize" "fsize \<noteq> 0" "fsize \<le> 1024 * 1024"
    using assms by (auto simp: send_source_def split: if_splits option.splits)
  let ?p = "read_file fsize (ce_reads ce) []"
  obtain rest l1 where r1: "send_retry (enc_SubmitHeader (submit_header sid path ?p)) (io_link io) = (rest, l1)"
    by fastforce
  obtain rest' l2 where r2: "send_retry ?p l1 = (rest', l2)" by fastforce
  obtain rn got s' where r3: "recv_waitall sizeof_ResultHeader s = (rn, got, s')" by (metis prod_cases3)
  have ok: "length ?p = fsize" "rest = []" "rest' = []" "rn = int sizeof_ResultHeader"
    using assms f r1 r2 r3 by (auto simp: send_source_def Let_def split: if_splits)
  have got: "got = take sizeof_ResultHeader (pending s)" "rn = (if got = [] then rx_end s else int (length got))"
    using recv_waitall_got(1) [of sizeof_ResultHeader s] recv_waitall_result [of sizeof_ResultHeader s] r3 by simp_all
  then have full: "length got = sizeof_ResultHeader"
    using ok(4) by (auto simp: rx_end_def sizeof_ResultHeader_def split: if_splits)
  have out: "res = dec_ResultHeader got" "io_link io' = l2" "io_status io' = on_result_received res (io_status io)"
    using assms f r1 r2 r3 ok full by (auto simp: send_source_def Let_def split: if_splits)
  show ?thesis
  proof (rule that [of ?p])
    show "ce_stat ce = Some (length ?p)" using f(1) ok(1) by simp
    show "?p = read_file (length ?p) (ce_reads ce) []" using ok(1) by simp
    show "0 < length ?p" "length ?p \<le> 1048576" using ok(1) f(2,3) by simp_all
    show "sent (io_link io') = sent (io_link io) @ enc_SubmitHeader (submit_header sid path ?p) @ ?p"
      using send_retry_sent [OF r1] send_retry_sent [OF r2] ok out by simp
    show "res = dec_ResultHeader (take sizeof_ResultHeader (pending s))" using out got by simp
    show "sizeof_ResultHeader \<le> length (pending s)" using full got(1) by (metis length_take min.absorb_iff2 min.commute nat_le_linear)
    show "io_status io' = on_result_received res (io_status io)" by (rule out(3))
  qed
qed

section \<open>Properties\<close>

text \<open>C21: the prompt ends exactly when it has been given a valid id. It returns the first piece of
  standard input, as \<open>fgets\<close> cuts it up, that consists of 7 to 15 digits; without one it asks for
  ever, also after the end of the input.\<close>

theorem login_returns_first_valid_id:
  "map_option fst (prompt_student_id MAX_STUDENT_ID stdin) =
   find (\<lambda>sid. 7 \<le> length sid \<and> length sid \<le> 15 \<and> list_all isdigit sid) (map (cut_at [CHR 0x0D, CHR 0x0A]) (pieces stdin))"
proof -
  have "find (valid_login 16) (map (cut_at r) xs)
      = find (\<lambda>sid. 7 \<le> length sid \<and> length sid \<le> 15 \<and> list_all isdigit sid) (map (cut_at r) xs)" for r xs
    by (induction xs) (simp_all add: valid_login_iff)
  then show ?thesis using login_first_valid [of stdin] by simp
qed

text \<open>C4: client and server together. When \<open>send_source\<close> succeeds, what it has put on the
  connection makes the server, under any segmentation, compile and grade exactly the bytes of
  the file, record the verdict for exactly the student who logged in, and reply to that student's
  header, which carries the file's length and checksum.\<close>

theorem submitted_source_reaches_server:
  assumes "send_source ce sid path s out io = (0, res, io')" and "sent (io_link io) = []"
    and "prompt_student_id MAX_STUDENT_ID stdin = Some (sid, stdin')"
    and "pending sv = sent (io_link io')" and "writes_all jg"
  shows "\<exists>source h. 0 < length source \<and> source = read_file (length source) (ce_reads ce) [] \<and>
     unat (sh_file_size h) = length source \<and> sh_checksum h = crc32_buf source \<and>
     cstr (sid_of h) = sid \<and> valid_id (sid_of h) \<and>
     handle_client jg now e T d wd_start wd_cmp wd_rec sv l =
       (let (grade, ms, kb) = grade_source jg T wd_cmp (Some source)
        in build_and_send_result now e h grade ms kb (strncpy (replicate MAX_WEEK_NAME NUL) (current_hw (wd_ctx wd_start)) MAX_WEEK_NAME)
             wd_rec l)"
proof -
  obtain source where src: "source = read_file (length source) (ce_reads ce) []" "0 < length source"
      "length source \<le> 1048576"
      "sent (io_link io') = enc_SubmitHeader (submit_header sid path source) @ source"
    using send_source_uploaded [OF assms(1)] assms(2) by auto
  let ?h = "submit_header sid path source"
  have "find (valid_login 16) (map (cut_at [CHR 0x0D, CHR 0x0A]) (pieces stdin)) = Some sid"
    using login_first_valid [of stdin] assms(3) by simp
  then obtain b where "valid_login 16 sid" "sid = cut_at [CHR 0x0D, CHR 0x0A] b"
    by (auto simp: find_Some_iff)
  then have id: "cstr sid = sid" "7 \<le> length sid" "length sid \<le> 15"
    using valid_login_iff [of sid] by auto
  have hid: "cstr (sid_of ?h) = sid" by (rule submit_header_id [OF id(1,3)])
  have size: "unat (sh_file_size ?h) = length source" by (rule submit_header_size [OF src(3)])
  obtain s2 where s2: "pending s2 = source"
    "handle_client jg now e T d wd_start wd_cmp wd_rec sv l =
       handle_submit jg now e T (strncpy (replicate MAX_WEEK_NAME NUL) (current_hw (wd_ctx wd_start)) MAX_WEEK_NAME) ?h wd_cmp wd_rec s2 l"
  proof (rule handle_client_submit)
    show "pending sv = enc_SubmitHeader ?h @ source" using assms(4) src(4) by simp
    show "wf_SubmitHeader ?h" by (rule wf_submit_header)
    show "pkt_type ?h \<noteq> client_pkt PKT_GET_FILES" by (simp add: submit_header_def)
  qed
  have "receive_source jg (unat (sh_file_size ?h)) s2 = Some source"
    using receive_source_got [OF assms(5)] s2(1) size by simp
  then have "handle_client jg now e T d wd_start wd_cmp wd_rec sv l =
       (let (grade, ms, kb) = grade_source jg T wd_cmp (Some source)
        in build_and_send_result now e ?h grade ms kb
             (strncpy (replicate MAX_WEEK_NAME NUL) (current_hw (wd_ctx wd_start)) MAX_WEEK_NAME) wd_rec l)"
    using s2(2) assms(5) by (simp add: handle_submit_def writes_all_def)
  moreover have "valid_id (sid_of ?h)" using hid id(2,3) by (auto simp: valid_id_def)
  moreover have "sh_checksum ?h = crc32_buf source" by (simp add: submit_header_def)
  ultimately show ?thesis using src(1,2) size hid by blast
qed

definition demo_client :: client_env where
  "demo_client =
     \<lparr>ce_open = True, ce_stat = Some 3, ce_malloc = True, ce_reads = [Got [1], Interrupted, Got [2, 3]],
      ce_socket = True, ce_inet = True, ce_connect = True\<rparr>"

definition demo_io :: submission_io where
  "demo_io = \<lparr>io_link = \<lparr>sent = [], tx = []\<rparr>, io_status = status_init, io_card = []\<rparr>"

theorem submitted_source_reaches_server_witness:
  "let (r, res, io) = send_source demo_client ''20240123'' ''hw.c'' \<lparr>rx = [replicate 329 0], rx_reset = False\<rparr> zero_result demo_io;
       wd = demo_world ''w1'' ''42''
   in r = 0 \<and> (\<exists>source h. cstr (sid_of h) = ''20240123'' \<and>
     handle_client demo_judge 7 demo_os_env 2 demo_dist0 wd wd wd \<lparr>rx = [sent (io_link io)], rx_reset = False\<rparr> \<lparr>sent = [], tx = []\<rparr>
       = (let (grade, ms, kb) = grade_source demo_judge 2 wd (Some source)
          in build_and_send_result 7 demo_os_env h grade ms kb (strncpy (replicate 32 NUL) ''w1'' 32) wd \<lparr>sent = [], tx = []\<rparr>))"
proof -
  let ?s = "\<lparr>rx = [replicate 329 0], rx_reset = False\<rparr>"
  obtain r res io where sc: "send_source demo_client ''20240123'' ''hw.c'' ?s zero_result demo_io = (r, res, io)"
    by (metis prod_cases3)
  have snd0: "send_retry bs \<lparr>sent = t, tx = []\<rparr> = ([], \<lparr>sent = t @ bs, tx = []\<rparr>)" for bs t
    by (cases "bs = []") (simp_all add: send_retry.simps send_def EINTR_def)
  have "recv_waitall sizeof_ResultHeader ?s = (329, replicate 329 0, \<lparr>rx = [[]], rx_reset = False\<rparr>)"
    by (simp add: recv_waitall_def sizeof_ResultHeader_def)
  then have r: "r = 0"
    using sc by (simp add: send_source_def demo_client_def demo_io_def snd0 sizeof_ResultHeader_def Let_def)
  have p: "prompt_student_id MAX_STUDENT_ID (''20240123'' @ [CHR 0x0A]) = Some (''20240123'', [])"
    by (subst prompt_student_id.simps) (simp add: fgets_def cut_at_def cstr_def valid_login_def strlen_def)
  have wa: "writes_all demo_judge" by (simp add: writes_all_def demo_judge_def)
  have "\<exists>source h. cstr (sid_of h) = ''20240123'' \<and>
     handle_client demo_judge 7 demo_os_env 2 demo_dist0 wd wd wd \<lparr>rx = [sent (io_link io)], rx_reset = False\<rparr> \<lparr>sent = [], tx = []\<rparr>
       = (let (grade, ms, kb) = grade_source demo_judge 2 wd (Some source)
          in build_and_send_result 7 demo_os_env h grade ms kb (strncpy (replicate 32 NUL) (current_hw (wd_ctx wd)) 32) wd \<lparr>sent = [], tx = []\<rparr>)" for wd
    using submitted_source_reaches_server [OF sc [unfolded r] _ p _ wa, of "\<lparr>rx = [sent (io_link io)], rx_reset = False\<rparr>"
        7 demo_os_env 2 demo_dist0 wd wd wd "\<lparr>sent = [], tx = []\<rparr>"]
    by (auto simp: demo_io_def pending_def)
  from this [of "demo_world ''w1'' ''42''"] show ?thesis
    unfolding sc Let_def prod.case using r by (simp add: demo_world_def)
qed

text \<open>C40: a submission that fails is listed as accepted. Whatever goes wrong before a byte of the
  reply has come, from an unreadable file to a server that is down, \<open>send_source\<close> fails, but the
  list shows the zeros it leaves in the result: grade AC and 0 ms.\<close>

theorem failed_submission_listed_as_AC:
  assumes "pending s = []"
  shows "fst (send_source ce sid path s zero_result io) = -1 \<and>
         list_row path (hd (fst (submit_all sid ((path, ce, s, l) # fs) st)))
           = pad_to 32 (list_name path) @ '' : AC    0ms''"
proof -
  have z: "zero_result = dec_ResultHeader (replicate sizeof_ResultHeader 0)" by (simp add: zero_result_def)
  have rx: "fst (recv_waitall sizeof_ResultHeader s) \<le> 0" "fst (snd (recv_waitall sizeof_ResultHeader s)) = []"
    using recv_waitall_result [of sizeof_ResultHeader s] recv_waitall_got(1) [of sizeof_ResultHeader s] assms
    by (simp_all add: rx_end_def)
  have res: "\<exists>io'. send_source ce sid path s zero_result io = (-1, zero_result, io')" for io
  proof (cases "recv_waitall sizeof_ResultHeader s")
    case (fields rn got s')
    then have "rn \<noteq> int sizeof_ResultHeader" "got = []" using rx by (auto simp: sizeof_ResultHeader_def)
    with fields show ?thesis
      by (auto simp: send_source_def Let_def z case_prod_beta split: option.splits)
  qed
  have "replicate 4 (0 :: byte) = [0, 0, 0, 0]" by (simp add: numeral_eq_Suc)
  then have "rh_exec_time_ms zero_result = 0" "rh_result zero_result = 0"
    by (simp_all add: zero_result_def dec_ResultHeader_def sizeof_ResultHeader_def field_def of_be32_def)
  moreover have "dec 0 = ''0''" by (simp add: dec.simps) (code_simp)
  moreover have "pad_to 4 ''AC'' = ''AC  ''" by (simp add: pad_to_def numeral_eq_Suc)
  ultimately have row: "list_row path zero_result = pad_to 32 (list_name path) @ '' : AC    0ms''"
    by (simp add: list_row_def shown_grade_def client_gnames_def dec_w_def)
  obtain io' where "send_source ce sid path s zero_result \<lparr>io_link = l, io_status = st, io_card = []\<rparr> = (-1, zero_result, io')"
    using res by blast
  then have "hd (fst (submit_all sid ((path, ce, s, l) # fs) st)) = zero_result"
    by (simp add: case_prod_beta)
  moreover have "fst (send_source ce sid path s zero_result io) = -1" using res [of io] by auto
  ultimately show ?thesis using row by simp
qed

theorem failed_submission_listed_as_AC_witness:
  "let (results, st) = submit_all ''20240123''
         [(''hw/ex1.c'', demo_client\<lparr>ce_connect := False\<rparr>, \<lparr>rx = [], rx_reset = False\<rparr>, \<lparr>sent = [], tx = []\<rparr>)] status_init
   in list_row ''hw/ex1.c'' (hd results) = ''ex1.c'' @ replicate 27 CHR '' '' @ '' : AC    0ms''"
proof -
  have "list_name ''hw/ex1.c'' = ''ex1.c''" by (simp add: list_name_def)
  moreover have "pending \<lparr>rx = [], rx_reset = False\<rparr> = []" by (simp add: pending_def)
  ultimately show ?thesis
    using failed_submission_listed_as_AC [of "\<lparr>rx = [], rx_reset = False\<rparr>" "demo_client\<lparr>ce_connect := False\<rparr>"
        "''20240123''" "''hw/ex1.c''" demo_io "\<lparr>sent = [], tx = []\<rparr>" "[]" status_init]
    by (simp add: case_prod_beta pad_to_def)
qed

lemma safe_copy_length: "4 < n \<Longrightarrow> length (safe_copy src n) < n"
  by (auto simp: safe_copy_def strlen_def)

lemma card_title_length: "length (card_title r) \<le> 19"
  by (simp add: card_title_def Let_def)

text \<open>The result card is a rectangle. Whatever the packet and the path, every row of the box is 52
  bytes wide: over-long names are cut and end in three dots.\<close>

theorem result_card_is_rectangular:
  "list_all (\<lambda>row. length row = 52) (take 7 (print_result_card r path))"
proof -
  have "length (safe_copy src 41) \<le> 40" for src using safe_copy_length [of 41 src] by simp
  moreover have "length (snprintf 41 src) \<le> 40" for src by (simp add: snprintf_def)
  moreover have "length (card_title r) \<le> 46" using card_title_length [of r] by simp
  ultimately show ?thesis
    by (simp add: print_result_card_def card_rule_def card_row_def pad_to_def CARD_FIELD_W_def)
qed

text \<open>The client looks for a security violation in the message of the packet, which the server of
  \<open>Grading\<close> never fills: the title is never shown.\<close>

lemma security_title_never_shown: "card_title (result_header h g ms kb week n t c) \<noteq> ''SECURITY VIOLATION''"
proof -
  have "cstr (rh_message (result_header h g ms kb week n t c)) = []"
    by (simp add: result_header_def cstr_def)
  moreover have "\<not> strstr [] x" if "x \<noteq> []" for x using that by (simp add: strstr_def)
  ultimately show ?thesis by (simp add: card_title_def msg_security_def)
qed

end
