(* ===== verification/Watch.thy ===== *)
theory Watch
  imports Prelude
begin

text \<open>
  The upload watcher, \<^verbatim>\<open>inotify_watch.c\<close>: it waits for changes of the students' files and, 300 ms after
  the last change of a burst, runs the client on all of them. The results of the system calls are
  arguments, and so are the times at which files change and how long each run of the client takes.
  The state has the clock, the changes the process has not read yet, and the time for which it set
  its timer; \<open>epoll_wait\<close> sleeps until a change is there or that time has come.
\<close>

section \<open>Start\<close>

definition MAX_FILES_watch :: nat where
  "MAX_FILES_watch = 64"

definition DEBOUNCE_MS :: nat where
  "DEBOUNCE_MS = 300"

record WatchEntry =
  wd :: int
  wpath :: string

text \<open>Every file with what \<open>inotify_add_watch\<close> returned for it.\<close>

fun add_watches :: "(string \<times> int) list \<Rightarrow> WatchEntry list" where
  "add_watches [] = []"
| "add_watches ((f, r) # fs) =
     (if r = -1 then add_watches fs else \<lparr>wd = r, wpath = take 255 (cstr f)\<rparr> # add_watches fs)"

record watch_sys =
  wy_inotify :: bool
  wy_add :: "string \<Rightarrow> int"
  wy_timerfd :: bool
  wy_epoll :: bool
  wy_fork :: bool

text \<open>\<open>Inl\<close> is an exit status, \<open>Inr\<close> the client, the files and the watches to go on with.\<close>

definition watch_start :: "watch_sys \<Rightarrow> string list \<Rightarrow> int + (string \<times> string list \<times> WatchEntry list)" where
  "watch_start wy argv =
     (if length argv < 3 then Inl 1
      else let client_bin = argv ! 1; files = drop 2 argv
           in if MAX_FILES_watch < length files then Inl 1
              else if \<not> wy_inotify wy then Inl 1
              else let ws = add_watches (map (\<lambda>f. (f, wy_add wy f)) files)
                   in if ws = [] then Inl 1
                      else if \<not> wy_timerfd wy then Inl 1
                      else if \<not> wy_epoll wy then Inl 1
                      else Inr (client_bin, files, ws))"

section \<open>The event loop\<close>

text \<open>
  \<open>unread\<close> are the changes still to be read, with the time and the watch descriptor of each; those after
  \<open>clock\<close> are still to come. \<open>timer\<close> is when the one-shot timer expires, if it is set. \<open>ran\<close> collects when
  the client was started, the file named in the message, and the argument vector.
\<close>

record watch_state =
  changed_file :: string
  timer :: "nat option"
  clock :: nat
  unread :: "(nat \<times> int) list"
  ran :: "(nat \<times> string \<times> string list) list"
  g_running :: bool

definition watch_init :: "(nat \<times> int) list \<Rightarrow> watch_state" where
  "watch_init changes =
     \<lparr>changed_file = [], timer = None, clock = 0, unread = changes, ran = [], g_running = True\<rparr>"

text \<open>What the loop has from \<open>main\<close>; whether \<open>fork\<close> succeeds, and how long the client runs when it is
  started at a given time.\<close>

record watch_env =
  we_fork :: bool
  we_client :: string
  we_files :: "string list"
  we_watches :: "WatchEntry list"
  we_takes :: "nat \<Rightarrow> nat"

text \<open>\<open>run_client\<close> returns when the client has ended.\<close>

definition run_client :: "watch_env \<Rightarrow> watch_state \<Rightarrow> watch_state" where
  "run_client we st =
     (if \<not> we_fork we then st
      else st\<lparr>ran := ran st @ [(clock st, changed_file st, we_client we # we_files we)],
              clock := clock st + we_takes we (clock st)\<rparr>)"

definition arm_debounce :: "watch_state \<Rightarrow> watch_state" where
  "arm_debounce st = st\<lparr>timer := Some (clock st + DEBOUNCE_MS)\<rparr>"

text \<open>The last event whose descriptor is known names the file.\<close>

fun note_changes :: "WatchEntry list \<Rightarrow> int list \<Rightarrow> string \<Rightarrow> string" where
  "note_changes ws [] name = name"
| "note_changes ws (d # ds) name =
     note_changes ws ds (case find (\<lambda>en. wd en = d) ws of Some en \<Rightarrow> take 255 (wpath en) | None \<Rightarrow> name)"

text \<open>How many events of a watched file, 16 bytes each, fit into the buffer; the events one \<open>read\<close> returns.\<close>

definition EVENT_BUF_LEN :: nat where
  "EVENT_BUF_LEN = 10 * (16 + 256)"

definition readable :: "watch_state \<Rightarrow> (nat \<times> int) list" where
  "readable st = take (EVENT_BUF_LEN div 16) (takeWhile (\<lambda>c. fst c \<le> clock st) (unread st))"

definition expired :: "watch_state \<Rightarrow> bool" where
  "expired st \<longleftrightarrow> (case timer st of None \<Rightarrow> False | Some x \<Rightarrow> x \<le> clock st)"

datatype watch_fd = Inotify_Fd | Timer_Fd

definition on_event :: "watch_env \<Rightarrow> watch_fd \<Rightarrow> watch_state \<Rightarrow> watch_state" where
  "on_event we fd st =
     (case fd of
        Inotify_Fd \<Rightarrow>
          (let evs = readable st
           in if evs = [] then st
              else arm_debounce (st\<lparr>unread := drop (length evs) (unread st),
                                    changed_file := note_changes (we_watches we) (map snd evs) (changed_file st)\<rparr>))
      | Timer_Fd \<Rightarrow>
          (run_client we (st\<lparr>timer := (if expired st then None else timer st)\<rparr>))\<lparr>changed_file := []\<rparr>)"

text \<open>
  How \<open>epoll_wait\<close> returns: interrupted, with an error, with an interrupt that is the user's, or because
  something is ready; the flag says which descriptor is listed first if both are. The returns with
  nothing ready, once a second, do nothing.
\<close>

datatype wait = Eintr | Broken | Sigint | Ready bool

text \<open>The clock when something is ready.\<close>

definition wake :: "watch_state \<Rightarrow> watch_state" where
  "wake st =
     st\<lparr>clock := (case (unread st, timer st) of
                    ([], None) \<Rightarrow> clock st
                  | ([], Some x) \<Rightarrow> max (clock st) x
                  | (c # cs, None) \<Rightarrow> max (clock st) (fst c)
                  | (c # cs, Some x) \<Rightarrow> max (clock st) (min (fst c) x))\<rparr>"

definition ready_fds :: "bool \<Rightarrow> watch_state \<Rightarrow> watch_fd list" where
  "ready_fds timer_first st =
     (let i = (if readable st = [] then [] else [Inotify_Fd]);
          t = (if expired st then [Timer_Fd] else [])
      in if timer_first then t @ i else i @ t)"

fun watch_loop :: "watch_env \<Rightarrow> wait list \<Rightarrow> watch_state \<Rightarrow> watch_state" where
  "watch_loop we [] st = st"
| "watch_loop we (wt # wts) st =
     (if \<not> g_running st then st
      else case wt of
        Eintr \<Rightarrow> watch_loop we wts st
      | Sigint \<Rightarrow> watch_loop we wts (st\<lparr>g_running := False\<rparr>)
      | Broken \<Rightarrow> st
      | Ready timer_first \<Rightarrow>
          watch_loop we wts (foldl (\<lambda>s fd. on_event we fd s) (wake st) (ready_fds timer_first (wake st))))"

text \<open>\<open>main\<close>: the files are graded once at the start, then after every burst of changes. The result is
  the exit status and the runs.\<close>

definition watch_main ::
  "watch_sys \<Rightarrow> (nat \<Rightarrow> nat) \<Rightarrow> string list \<Rightarrow> (nat \<times> int) list \<Rightarrow> wait list \<Rightarrow>
     int \<times> (nat \<times> string \<times> string list) list" where
  "watch_main wy takes argv changes wts =
     (case watch_start wy argv of
        Inl r \<Rightarrow> (r, [])
      | Inr (client_bin, files, ws) \<Rightarrow>
          let we = \<lparr>we_fork = wy_fork wy, we_client = client_bin, we_files = files, we_watches = ws, we_takes = takes\<rparr>
          in (0, ran (watch_loop we wts (run_client we (watch_init changes)))))"

section \<open>Bursts\<close>

text \<open>
  When the client should run, given the times of the changes, all in order, and the time from which the
  watcher is free: a change is noticed when it happens or, if that is during a run, when the run is
  over; the client runs 300 ms after a notice that no other follows before that.
\<close>

fun burst_runs :: "(nat \<Rightarrow> nat) \<Rightarrow> nat \<Rightarrow> nat list \<Rightarrow> nat list" where
  "burst_runs takes free [] = []"
| "burst_runs takes free [t] = [max free t + 300]"
| "burst_runs takes free (t # u # ts) =
     (let r = max free t + 300
      in if u < r then burst_runs takes free (u # ts) else r # burst_runs takes (r + takes r) (u # ts))"

text \<open>The same, with the clock and the timer of the loop.\<close>

fun runs_from :: "(nat \<Rightarrow> nat) \<Rightarrow> nat \<Rightarrow> nat option \<Rightarrow> nat list \<Rightarrow> nat list" where
  "runs_from takes c None [] = []"
| "runs_from takes c None (t # ts) = runs_from takes (max c t) (Some (max c t + 300)) ts"
| "runs_from takes c (Some x) [] = [x]"
| "runs_from takes c (Some x) (t # ts) =
     (if t < x then runs_from takes (max c t) (Some (max c t + 300)) ts
      else x # runs_from takes (max (x + takes x) t) (Some (max (x + takes x) t + 300)) ts)"

lemma runs_from_bursts: "sorted (t # ts) \<Longrightarrow> runs_from takes c None (t # ts) = burst_runs takes c (t # ts)"
proof (induction takes c "t # ts" arbitrary: t ts rule: burst_runs.induct)
  case (3 takes free t u ts)
  let ?r = "max free t + 300"
  have s: "sorted (u # ts)" "t \<le> u" using 3(3) by simp_all
  have "max (max free t) u = max free u" using s(2) by simp
  then show ?case using 3(1,2) [of ?r] s(1) by (simp add: Let_def)
qed simp

text \<open>The changes that are already there when the timer is set are one burst with the last of them.\<close>

lemma absorb:
  "\<forall>t \<in> set (take k ts). t \<le> c \<Longrightarrow> runs_from takes c (Some (c + 300)) ts = runs_from takes c (Some (c + 300)) (drop k ts)"
proof (induction k arbitrary: ts)
  case (Suc k)
  then show ?case by (cases ts) (simp_all add: max_absorb1)
qed simp

lemma readable_split:
  obtains k where "readable st = take k (unread st)" "\<forall>c \<in> set (take k (unread st)). fst c \<le> clock st"
    "length (readable st) = k" "k \<le> length (unread st)"
proof -
  define m where "m = min (EVENT_BUF_LEN div 16) (length (takeWhile (\<lambda>c. fst c \<le> clock st) (unread st)))"
  have "m \<le> length (unread st)"
    using length_takeWhile_le [of "\<lambda>c. fst c \<le> clock st" "unread st"] unfolding m_def by linarith
  moreover have "readable st = take m (unread st)"
    unfolding readable_def m_def by (subst takeWhile_eq_take) (simp add: min.commute)
  moreover from calculation have "length (readable st) = m" by simp
  moreover have "\<forall>c \<in> set (readable st). fst c \<le> clock st"
    by (auto simp: readable_def dest!: in_set_takeD set_takeWhileD)
  ultimately show ?thesis using that [of m] by simp
qed

lemma readable_first: "unread st = c # cs \<Longrightarrow> (readable st = [] \<longleftrightarrow> clock st < fst c)"
  by (auto simp: readable_def EVENT_BUF_LEN_def)

lemma readable_none: "unread st = [] \<Longrightarrow> readable st = []"
  by (simp add: readable_def)

text \<open>Reading sets the timer anew.\<close>

lemma step_reads:
  assumes "readable st \<noteq> []" and "g_running st"
  obtains k where "0 < k" "k \<le> length (unread st)" "\<forall>t \<in> set (take k (map fst (unread st))). t \<le> clock st"
    "unread (on_event we Inotify_Fd st) = drop k (unread st)"
    "timer (on_event we Inotify_Fd st) = Some (clock st + 300)"
    "clock (on_event we Inotify_Fd st) = clock st" "ran (on_event we Inotify_Fd st) = ran st"
    "g_running (on_event we Inotify_Fd st)"
proof -
  obtain k where k: "readable st = take k (unread st)" "\<forall>c \<in> set (take k (unread st)). fst c \<le> clock st"
    "length (readable st) = k" "k \<le> length (unread st)"
    by (rule readable_split)
  have "0 < k" using assms(1) k(3) by (cases k) auto
  then show ?thesis
    using that [of k] k assms by (simp add: on_event_def arm_debounce_def DEBOUNCE_MS_def Let_def take_map)
qed

lemma step_runs:
  assumes "we_fork we" and "timer st = Some x" and "clock st = x"
  shows "unread (on_event we Timer_Fd st) = unread st" "timer (on_event we Timer_Fd st) = None"
    "clock (on_event we Timer_Fd st) = x + we_takes we x"
    "map fst (ran (on_event we Timer_Fd st)) = map fst (ran st) @ [x]"
    "g_running (on_event we Timer_Fd st) = g_running st"
  using assms by (simp_all add: on_event_def run_client_def expired_def)

text \<open>The loop, from any state whose timer lies ahead.\<close>

definition expected :: "watch_env \<Rightarrow> watch_state \<Rightarrow> nat list" where
  "expected we st = runs_from (we_takes we) (clock st) (timer st) (map fst (unread st))"

definition watch_left :: "watch_state \<Rightarrow> nat" where
  "watch_left st = 2 * length (unread st) + (if timer st = None then 0 else 1)"

definition watch_ok :: "watch_env \<Rightarrow> watch_state \<Rightarrow> bool" where
  "watch_ok we st \<longleftrightarrow> we_fork we \<and> g_running st \<and> sorted (map fst (unread st)) \<and>
     (\<forall>x. timer st = Some x \<longrightarrow> clock st < x) \<and> set (expected we st) \<inter> set (map fst (unread st)) = {}"

definition one_round :: "watch_env \<Rightarrow> bool \<Rightarrow> watch_state \<Rightarrow> watch_state" where
  "one_round we timer_first st = foldl (\<lambda>s fd. on_event we fd s) (wake st) (ready_fds timer_first (wake st))"

definition good_round :: "watch_env \<Rightarrow> watch_state \<Rightarrow> watch_state \<Rightarrow> bool" where
  "good_round we st t \<longleftrightarrow> watch_ok we t \<and> watch_left t \<le> watch_left st - 1 \<and>
     map fst (ran t) @ expected we t = map fst (ran st) @ expected we st"

lemma round_reads:
  assumes ok: "watch_ok we st" and r: "readable (wake st) \<noteq> []" and e: "\<not> expired (wake st)"
    and same: "expected we st = runs_from (we_takes we) (clock (wake st)) (Some (clock (wake st) + 300)) (map fst (unread st))"
  shows "good_round we st (one_round we first st)"
proof -
  have w: "g_running (wake st)" "unread (wake st) = unread st" "ran (wake st) = ran st"
    using ok by (simp_all add: wake_def watch_ok_def)
  obtain k where k: "0 < k" "k \<le> length (unread (wake st))" "\<forall>t \<in> set (take k (map fst (unread (wake st)))). t \<le> clock (wake st)"
    "unread (on_event we Inotify_Fd (wake st)) = drop k (unread (wake st))"
    "timer (on_event we Inotify_Fd (wake st)) = Some (clock (wake st) + 300)"
    "clock (on_event we Inotify_Fd (wake st)) = clock (wake st)"
    "ran (on_event we Inotify_Fd (wake st)) = ran (wake st)" "g_running (on_event we Inotify_Fd (wake st))"
    by (rule step_reads [OF r w(1)])
  let ?t = "on_event we Inotify_Fd (wake st)"
  have t: "one_round we first st = ?t" using r e by (simp add: one_round_def ready_fds_def Let_def)
  have ex: "expected we ?t = expected we st"
    using absorb [OF k(3), of "we_takes we"] same k(4-6) w(2) by (simp add: expected_def drop_map)
  have "set (map fst (unread ?t)) \<subseteq> set (map fst (unread st))"
    using k(4) w(2) by (auto dest: in_set_dropD)
  moreover have "sorted (map fst (unread ?t))"
    using ok k(4) w(2) by (simp add: watch_ok_def sorted_wrt_drop drop_map [symmetric])
  moreover have "set (expected we st) \<inter> set (map fst (unread st)) = {}" "we_fork we"
    using ok by (simp_all add: watch_ok_def)
  ultimately have "watch_ok we ?t"
    unfolding watch_ok_def ex k(5,6) using k(8) by (simp add: disjoint_iff subset_iff) blast
  then show ?thesis
    using t ex k w by (simp add: good_round_def watch_left_def)
qed

lemma round_runs:
  assumes ok: "watch_ok we st" and x: "timer st = Some x" and r: "readable (wake st) = []" and c: "clock (wake st) = x"
    and later: "\<forall>t \<in> set (map fst (unread st)). \<not> t < x"
  shows "good_round we st (one_round we first st)"
proof -
  let ?t = "on_event we Timer_Fd (wake st)"
  have f: "we_fork we" and tm: "timer (wake st) = Some x" using ok x by (simp_all add: watch_ok_def wake_def)
  have t: "one_round we first st = ?t" using r c tm by (simp add: one_round_def ready_fds_def expired_def Let_def)
  note after = step_runs [OF f tm c]
  have w: "unread (wake st) = unread st" "ran (wake st) = ran st" "g_running (wake st)"
    using ok by (simp_all add: wake_def watch_ok_def)
  have ex: "expected we st = x # expected we ?t"
    using x later after w by (cases "map fst (unread st)") (simp_all add: expected_def)
  then have "watch_ok we ?t"
    using ok after w unfolding watch_ok_def by auto
  then show ?thesis
    using t ex after w x by (simp add: good_round_def watch_left_def)
qed

lemma round_idle:
  assumes "watch_ok we st" and "unread st = []" and "timer st = None"
  shows "one_round we first st = st"
  using assms by (simp add: one_round_def ready_fds_def wake_def readable_none expired_def)

lemma round_good:
  assumes ok: "watch_ok we st"
  shows "good_round we st (one_round we first st)"
proof (cases "unread st")
  case Nil
  show ?thesis
  proof (cases "timer st")
    case None
    then show ?thesis using ok round_idle [OF ok Nil None] by (simp add: good_round_def watch_left_def Nil)
  next
    case (Some x)
    then have "clock (wake st) = x" "readable (wake st) = []"
      using ok Nil by (auto simp: wake_def watch_ok_def readable_none)
    then show ?thesis using round_runs [OF ok Some] Nil by simp
  qed
next
  case (Cons c cs)
  have w: "unread (wake st) = c # cs" using Cons by (simp add: wake_def)
  show ?thesis
  proof (cases "timer st")
    case None
    then have k: "clock (wake st) = max (clock st) (fst c)" "\<not> expired (wake st)"
      using Cons by (simp_all add: wake_def expired_def)
    then have "readable (wake st) \<noteq> []" using readable_first [OF w] by simp
    moreover have "expected we st = runs_from (we_takes we) (clock (wake st)) (Some (clock (wake st) + 300)) (map fst (unread st))"
      using None Cons k by (simp add: expected_def) (simp add: max_def)
    ultimately show ?thesis using round_reads [OF ok] k(2) by blast
  next
    case (Some x)
    have x: "clock st < x" using ok Some by (simp add: watch_ok_def)
    have ne: "fst c \<noteq> x"
    proof
      assume "fst c = x"
      then have "x \<in> set (expected we st)" using Some Cons by (simp add: expected_def)
      then show False using ok Cons \<open>fst c = x\<close> by (auto simp: watch_ok_def)
    qed
    show ?thesis
    proof (cases "fst c < x")
      case True
      then have k: "clock (wake st) = max (clock st) (fst c)" "\<not> expired (wake st)"
        using Cons Some x by (simp_all add: wake_def expired_def)
      then have "readable (wake st) \<noteq> []" using readable_first [OF w] by simp
      moreover have "expected we st = runs_from (we_takes we) (clock (wake st)) (Some (clock (wake st) + 300)) (map fst (unread st))"
        using Some Cons k True by (simp add: expected_def) (simp add: max_def)
      ultimately show ?thesis using round_reads [OF ok] k(2) by blast
    next
      case False
      then have k: "clock (wake st) = x" using Cons Some x by (simp add: wake_def)
      have "x < fst c" using False ne by simp
      moreover have "\<forall>t \<in> set (map fst (unread st)). fst c \<le> t" using ok Cons by (simp add: watch_ok_def)
      ultimately have "\<forall>t \<in> set (map fst (unread st)). \<not> t < x" by force
      moreover have "readable (wake st) = []" using readable_first [OF w] k \<open>x < fst c\<close> by simp
      ultimately show ?thesis using round_runs [OF ok Some _ k] by blast
    qed
  qed
qed

lemma loop_runs:
  "watch_ok we st \<Longrightarrow> watch_left st \<le> length orders \<Longrightarrow>
   map fst (ran (watch_loop we (map Ready orders) st)) = map fst (ran st) @ expected we st"
proof (induction orders arbitrary: st)
  case Nil
  then have "unread st = []" "timer st = None" by (auto simp: watch_left_def split: if_splits)
  then show ?case by (simp add: expected_def)
next
  case (Cons first orders)
  let ?t = "one_round we first st"
  have g: "good_round we st ?t" by (rule round_good [OF Cons.prems(1)])
  then have t: "watch_ok we ?t" "watch_left ?t \<le> length orders"
    using Cons.prems(2) by (auto simp: good_round_def)
  have "map fst (ran (watch_loop we (map Ready orders) ?t)) = map fst (ran ?t) @ expected we ?t"
    by (rule Cons.IH [OF t])
  moreover have "watch_loop we (map Ready (first # orders)) st = watch_loop we (map Ready orders) ?t"
    using Cons.prems(1) by (simp add: watch_ok_def one_round_def)
  ultimately show ?case using g unfolding good_round_def by metis
qed

definition commands_ok :: "watch_env \<Rightarrow> watch_state \<Rightarrow> bool" where
  "commands_ok we st \<longleftrightarrow> list_all (\<lambda>r. snd (snd r) = we_client we # we_files we) (ran st)"

lemma event_command: "commands_ok we st \<Longrightarrow> commands_ok we (on_event we fd st)"
  by (auto simp: commands_ok_def on_event_def run_client_def arm_debounce_def Let_def split: watch_fd.splits)

lemma events_command: "commands_ok we st \<Longrightarrow> commands_ok we (foldl (\<lambda>s fd. on_event we fd s) st fds)"
  by (induction fds arbitrary: st) (auto intro: event_command)

lemma same_command: "commands_ok we st \<Longrightarrow> commands_ok we (watch_loop we wts st)"
proof (induction wts arbitrary: st)
  case (Cons w wts)
  have "commands_ok we (wake st)" "commands_ok we (st\<lparr>g_running := False\<rparr>)"
    using Cons.prems by (simp_all add: commands_ok_def wake_def)
  then show ?case using Cons events_command by (cases w) simp_all
qed simp

section \<open>Properties\<close>

text \<open>C19: one grading run per burst. Files change at the given times, and a run of the client takes as
  long as it takes. The watcher runs the client once at the start and then once for every burst of
  changes, 300 ms after it has noticed the last: changes that follow one another within that time
  are one burst, changes during a run are noticed when it is over, and none is missed. It always
  runs the client on all files. Two waits per change are enough to get there. Which descriptor
  \<open>epoll_wait\<close> lists first does not matter; left out is only that a change comes in the very
  millisecond in which the timer expires.\<close>

theorem one_run_per_burst:
  assumes "watch_start wy argv = Inr (client_bin, files, ws)" and "wy_fork wy"
    and "sorted (map fst changes)" and "2 * length changes \<le> length orders"
    and "set (burst_runs takes (takes 0) (map fst changes)) \<inter> set (map fst changes) = {}"
  shows "let (status, runs) = watch_main wy takes argv changes (map Ready orders)
         in status = 0 \<and> map fst runs = 0 # burst_runs takes (takes 0) (map fst changes) \<and>
            list_all (\<lambda>r. snd (snd r) = argv ! 1 # drop 2 argv) runs"
proof -
  let ?we = "\<lparr>we_fork = wy_fork wy, we_client = client_bin, we_files = files, we_watches = ws, we_takes = takes\<rparr>"
  let ?st = "run_client ?we (watch_init changes)"
  have st: "ran ?st = [(0, [], client_bin # files)]" "clock ?st = takes 0" "timer ?st = None" "unread ?st = changes"
    "g_running ?st"
    using assms(2) by (simp_all add: run_client_def watch_init_def)
  have ex: "expected ?we ?st = burst_runs takes (takes 0) (map fst changes)"
    using runs_from_bursts [of "fst (hd changes)" "map fst (tl changes)" takes "takes 0"] assms(3) st
    by (cases changes) (simp_all add: expected_def)
  then have "watch_ok ?we ?st" using assms(2,3,5) st by (simp add: watch_ok_def)
  then have "map fst (ran (watch_loop ?we (map Ready orders) ?st)) = 0 # burst_runs takes (takes 0) (map fst changes)"
    using loop_runs [of ?we ?st orders] assms(4) st ex by (simp add: watch_left_def)
  moreover have "commands_ok ?we (watch_loop ?we (map Ready orders) ?st)"
    by (rule same_command) (simp add: commands_ok_def st)
  moreover have "client_bin = argv ! 1" "files = drop 2 argv"
    using assms(1) by (auto simp: watch_start_def Let_def split: if_splits)
  ultimately show ?thesis using assms(1) by (simp add: watch_main_def commands_ok_def Let_def)
qed

text \<open>Each run takes two seconds: the change at 1500 comes before the initial run is over, the one at 4000
  during the run for the first burst.\<close>

theorem one_run_per_burst_witness:
  "map fst (snd (watch_main \<lparr>wy_inotify = True, wy_add = \<lambda>_. 1, wy_timerfd = True, wy_epoll = True, wy_fork = True\<rparr>
      (\<lambda>_. 2000) [''inotify_watch'', ''client_bin'', ''hw.c'']
      [(1500, 1), (2200, 1), (2450, 1), (4000, 1), (9000, 1)] (map Ready (replicate 10 True)))) = [0, 2750, 5050, 9300]"
proof -
  let ?wy = "\<lparr>wy_inotify = True, wy_add = \<lambda>_. 1, wy_timerfd = True, wy_epoll = True, wy_fork = True\<rparr>"
  have "watch_start ?wy [''inotify_watch'', ''client_bin'', ''hw.c'']
      = Inr (''client_bin'', [''hw.c''], [\<lparr>wd = 1, wpath = ''hw.c''\<rparr>])"
    by (simp add: watch_start_def MAX_FILES_watch_def cstr_def)
  from one_run_per_burst [OF this, of "[(1500, 1), (2200, 1), (2450, 1), (4000, 1), (9000, 1)]" "replicate 10 True" "\<lambda>_. 2000"]
  show ?thesis by (simp add: case_prod_beta Let_def)
qed

end
