(* ===== verification/Minici_Ctl.thy ===== *)
theory Minici_Ctl
  imports Server_Main
begin

text \<open>
  The command line tool \<^verbatim>\<open>minici-ctl.c\<close>: it sends a line of text to the control socket and prints
  what comes back until the server closes. The last part puts it together with the control
  handler of the server, each waiting as its \<open>recv\<close> does.
\<close>

section \<open>The tool\<close>

definition RESP_BUF_SIZE :: nat where
  "RESP_BUF_SIZE = 4096"

text \<open>The command buffer for the arguments; \<open>None\<close> where a usage message ends the tool with status 1.\<close>

definition ctl_command :: "string list \<Rightarrow> string option" where
  "ctl_command argv =
     (if length argv < 2 then None
      else if argv ! 1 = ''set-timeout''
      then (if length argv < 3 then None
            else Some (snprintf 256 (''set-timeout '' @ argv ! 2 @ [CHR 0x0A])))
      else Some (snprintf 256 (argv ! 1 @ [CHR 0x0A])))"

lemma recv_shorter:
  "(n, got, s') = recv (RESP_BUF_SIZE - 1) s \<Longrightarrow> \<not> n \<le> 0 \<Longrightarrow> length (pending s') < length (pending s)"
  using plain.read_progress(5) [of "RESP_BUF_SIZE - 1" s n got s'] by (simp add: RESP_BUF_SIZE_def)

text \<open>Each piece received is printed up to its first NUL.\<close>

function print_response :: "sock \<Rightarrow> string list" where
  "print_response s =
     (case recv (RESP_BUF_SIZE - 1) s of (n, got, s') \<Rightarrow>
        if n \<le> 0 then [] else cstr (map char_of_byte got) # print_response s')"
  by pat_completeness auto
termination
  by (relation "measure (\<lambda>s. length (pending s))") (auto dest!: recv_shorter [simplified])

declare print_response.simps [simp del]

definition ctl_main :: "string list \<Rightarrow> bool \<Rightarrow> bool \<Rightarrow> link \<Rightarrow> sock \<Rightarrow> int \<times> string list \<times> link" where
  "ctl_main argv sock_ok connects l s =
     (case ctl_command argv of
        None \<Rightarrow> (1, [], l)
      | Some cmd \<Rightarrow>
          if \<not> sock_ok \<or> \<not> connects then (1, [], l)
          else let (n, l') = send (bytes (cstr cmd)) l
               in if n < 0 then (1, [], l') else (0, print_response s, l'))"

section \<open>The tool and the server\<close>

text \<open>One connection: what is on its way in either direction, whether the tool has it open, and where the
  server is. The server reads once, for a whole request, with \<open>MSG_WAITALL\<close>, answers and closes; the
  tool reads until the server has closed. The answer is sent without \<open>MSG_NOSIGNAL\<close>.\<close>

datatype server_side = Reading | Answered | Dead

record pair =
  to_server :: "byte list"
  to_client :: "byte list"
  client_open :: bool
  srv_side :: server_side

definition reply_link :: "pair \<Rightarrow> link" where
  "reply_link p = \<lparr>sent = [], tx = (if client_open p then [] else [- EPIPE])\<rparr>"

inductive pair_step :: "env \<Rightarrow> byte list \<Rightarrow> pair \<times> ServerContext \<times> os \<Rightarrow> pair \<times> ServerContext \<times> os \<Rightarrow> bool"
  for e stack where
  serve: "srv_side p = Reading \<Longrightarrow> sizeof_Ipc \<le> length (to_server p) \<or> \<not> client_open p \<Longrightarrow>
     handle_ctl_client e stack \<lparr>rx = [to_server p], rx_reset = False\<rparr> (reply_link p) ctx w = (l, ctx', w') \<Longrightarrow>
     pair_step e stack (p, ctx, w)
       (p\<lparr>to_client := sent l, srv_side := (if sigpipe (reply_link p) l then Dead else Answered)\<rparr>, ctx', w')"
| print_piece: "client_open p \<Longrightarrow> to_client p \<noteq> [] \<Longrightarrow>
     pair_step e stack (p, ctx, w) (p\<lparr>to_client := drop (RESP_BUF_SIZE - 1) (to_client p)\<rparr>, ctx, w)"
| leave: "client_open p \<Longrightarrow> to_client p = [] \<Longrightarrow> srv_side p \<noteq> Reading \<Longrightarrow>
     pair_step e stack (p, ctx, w) (p\<lparr>client_open := False\<rparr>, ctx, w)"

inductive_cases pair_stepE: "pair_step e stack (p, ctx, w) t"

definition after_send :: "string \<Rightarrow> pair" where
  "after_send cmd = \<lparr>to_server = bytes (cstr cmd), to_client = [], client_open = True, srv_side = Reading\<rparr>"

text \<open>The user ends the tool from the keyboard.\<close>

definition interrupted :: "pair \<Rightarrow> pair" where
  "interrupted p = p\<lparr>client_open := False\<rparr>"

text \<open>What the server makes of a line of text and a peer that is gone.\<close>

lemma serve_line:
  assumes "length line < sizeof_Ipc" and "line \<noteq> []"
  shows "handle_ctl_client e stack \<lparr>rx = [line], rx_reset = False\<rparr> \<lparr>sent = [], tx = [- EPIPE]\<rparr> ctx w =
    (\<lparr>sent = [], tx = []\<rparr>, snd (handle_request e (dec_IpcRequest (line @ drop (length line) stack)) ctx w))"
proof -
  have "recv_waitall sizeof_Ipc \<lparr>rx = [line], rx_reset = False\<rparr> = (int (length line), line, \<lparr>rx = [], rx_reset = False\<rparr>)"
    using assms by (simp add: recv_waitall_def)
  then show ?thesis
    using assms(2) by (simp add: handle_ctl_client_def send_def EPIPE_def case_prod_beta Let_def)
qed

lemma printable_unknown:
  assumes "32 \<le> code c"
  shows "snd (handle_request e (dec_IpcRequest (byte_of c # rest)) ctx w) = (ctx, w)"
proof -
  have "rq_cmd (dec_IpcRequest (byte_of c # rest)) = byte_of c" by (simp add: dec_IpcRequest_def)
  moreover have "byte_of c \<noteq> k" if "unat k < 32" for k using assms that by (auto simp: unat_byte_of)
  ultimately show ?thesis by (simp add: handle_request_def)
qed

section \<open>Properties\<close>

text \<open>C20: the tool and the server wait for each other, and the way out is the end of the server. Whatever
  the arguments, the line that is sent is shorter than the request the server waits for, so
  after sending it neither side can go on, and the server's main thread accepts nothing more.
  If the tool is then ended, the server takes the line's first letter for a command (no printable one is a
  command, so nothing changes), and its answer to the closed connection kills it.\<close>

theorem command_line_tool_blocks:
  assumes "ctl_command argv = Some cmd" and "cstr cmd \<noteq> []"
  shows "(\<nexists>t. pair_step e stack (after_send cmd, ctx, w) t) \<and>
         (\<exists>t. pair_step e stack (interrupted (after_send cmd), ctx, w) t) \<and>
         (\<forall>t. pair_step e stack (interrupted (after_send cmd), ctx, w) t \<longrightarrow>
            srv_side (fst t) = Dead \<and> (32 \<le> code (hd cmd) \<longrightarrow> snd t = (ctx, w)))"
proof -
  let ?b = "bytes (cstr cmd)"
  have "length cmd \<le> 255"
    using assms(1) by (auto simp: ctl_command_def snprintf_def split: if_splits)
  then have short: "length ?b < sizeof_Ipc"
    using length_takeWhile_le [of "\<lambda>c. c \<noteq> NUL" cmd]
    by (simp add: sizeof_Ipc_def IPC_MAX_PAYLOAD_def cstr_def)
  obtain rest where cmd: "cstr cmd = hd cmd # rest"
    using assms(2) by (cases cmd) (auto simp: cstr_def split: if_splits)
  then have b: "?b = byte_of (hd cmd) # bytes rest" by (simp add: bytes_def)
  have "reply_link (interrupted (after_send cmd)) = \<lparr>sent = [], tx = [- EPIPE]\<rparr>"
    by (simp add: reply_link_def interrupted_def)
  note served = serve_line [OF short, of e stack ctx w, folded this]
  have p: "srv_side (interrupted (after_send cmd)) = Reading" "\<not> client_open (interrupted (after_send cmd))"
    "to_server (interrupted (after_send cmd)) = ?b"
    by (simp_all add: interrupted_def after_send_def)
  have gone: "sigpipe (reply_link (interrupted (after_send cmd))) \<lparr>sent = [], tx = []\<rparr>"
    by (simp add: sigpipe_def reply_link_def interrupted_def)
  have "\<nexists>t. pair_step e stack (after_send cmd, ctx, w) t"
    using short by (auto simp: after_send_def elim!: pair_stepE)
  moreover have "\<exists>t. pair_step e stack (interrupted (after_send cmd), ctx, w) t"
  proof -
    obtain l ctx' w' where "handle_ctl_client e stack \<lparr>rx = [?b], rx_reset = False\<rparr>
        (reply_link (interrupted (after_send cmd))) ctx w = (l, ctx', w')"
      by (metis prod_cases3)
    then show ?thesis using pair_step.serve [OF p(1)] p(2,3) by metis
  qed
  moreover have "srv_side (fst t) = Dead \<and> (32 \<le> code (hd cmd) \<longrightarrow> snd t = (ctx, w))"
    if "pair_step e stack (interrupted (after_send cmd), ctx, w) t" for t
    using that
  proof cases
    case (serve l ctx' w')
    then have "l = \<lparr>sent = [], tx = []\<rparr>"
      "(ctx', w') = snd (handle_request e (dec_IpcRequest (?b @ drop (length ?b) stack)) ctx w)"
      using served p(3) b by simp_all
    then show ?thesis using serve gone printable_unknown [of "hd cmd"] b by simp
  qed (use p(2) in simp_all)
  ultimately show ?thesis by blast
qed

theorem command_line_tool_blocks_witness:
  "let e = \<lparr>env_open = \<lambda>_. 5, env_mkdir = \<lambda>_. True, env_write = \<lambda>t. int (length t),
            env_now = 7, env_localtime = \<lambda>_. ''t''\<rparr>;
       w = \<lparr>os_files = \<lambda>_. None, os_dirs = [], os_fds = \<lambda>_. None\<rparr>;
       ctx = fst (ctx_init e w); cmd = ''pause'' @ [CHR 0x0A]
   in ctl_command [''minici-ctl'', ''pause''] = Some cmd \<and> (\<nexists>t. pair_step e [] (after_send cmd, ctx, w) t) \<and>
      (\<exists>t. pair_step e [] (interrupted (after_send cmd), ctx, w) t \<and> srv_side (fst t) = Dead \<and> snd t = (ctx, w))"
proof -
  let ?cmd = "''pause'' @ [CHR 0x0A]"
  have c: "ctl_command [''minici-ctl'', ''pause''] = Some ?cmd" "cstr ?cmd \<noteq> []" "32 \<le> code (hd ?cmd)"
    by (simp_all add: ctl_command_def snprintf_def cstr_def)
  show ?thesis unfolding Let_def
    using command_line_tool_blocks [OF c(1,2)] c(1,3) by blast
qed

end
