(* ===== verification/Workspace.thy ===== *)
theory Workspace
  imports Prelude "HOL-Library.AList"
begin

text \<open>
  The directory of one submission: \<open>mkdtemp\<close>, the files the worker leaves in it, and its removal at the
  end of \<open>handle_client\<close> by \<open>safe_rmdir\<close>, a walk of \<open>nftw\<close> with \<open>FTW_DEPTH\<close> and \<open>FTW_PHYS\<close>. The file system is
  a tree; a symbolic link is a leaf with its target, and the calls modelled do not follow it.
  Permissions are left out (the server runs as root).
\<close>

section \<open>Files\<close>

datatype node = Regular "byte list" | Symlink string | Directory "(string \<times> node) list"

type_synonym path = "string list"

fun lookup :: "path \<Rightarrow> node \<Rightarrow> node option" where
  "lookup [] nd = Some nd"
| "lookup (c # cs) (Directory es) = (case map_of es c of None \<Rightarrow> None | Some n \<Rightarrow> lookup cs n)"
| "lookup (c # cs) (Regular bs) = None"
| "lookup (c # cs) (Symlink t) = None"

fun is_dir :: "node \<Rightarrow> bool" where
  "is_dir (Directory es) = True"
| "is_dir _ = False"

text \<open>The entry at a path taken out of its directory, if there is one and it is of the right kind.\<close>

fun remove_entry :: "(node \<Rightarrow> bool) \<Rightarrow> path \<Rightarrow> node \<Rightarrow> node option" where
  "remove_entry ok [c] (Directory es) =
     (case map_of es c of
        None \<Rightarrow> None
      | Some n \<Rightarrow> if ok n then Some (Directory (AList.delete c es)) else None)"
| "remove_entry ok (c # d # ds) (Directory es) =
     (case map_of es c of
        None \<Rightarrow> None
      | Some n \<Rightarrow> map_option (\<lambda>n'. Directory (AList.update c n' es)) (remove_entry ok (d # ds) n))"
| "remove_entry ok _ _ = None"

definition sys_unlink :: "path \<Rightarrow> node \<Rightarrow> node option" where
  "sys_unlink = remove_entry (\<lambda>n. \<not> is_dir n)"

definition sys_rmdir :: "path \<Rightarrow> node \<Rightarrow> node option" where
  "sys_rmdir = remove_entry (\<lambda>n. n = Directory [])"

section \<open>The walk\<close>

datatype typeflag = FTW_F | FTW_SL | FTW_D | FTW_DP

text \<open>\<open>FTW_DEPTH\<close>: a directory comes after everything in it. \<open>FTW_PHYS\<close>: a link is visited itself.\<close>

fun visits :: "path \<Rightarrow> node \<Rightarrow> (path \<times> typeflag) list" where
  "visits p (Regular bs) = [(p, FTW_F)]"
| "visits p (Symlink t) = [(p, FTW_SL)]"
| "visits p (Directory es) = concat (map (\<lambda>(c, n). visits (p @ [c]) n) es) @ [(p, FTW_DP)]"

definition safe_remove_cb :: "path \<Rightarrow> typeflag \<Rightarrow> node \<Rightarrow> int \<times> node" where
  "safe_remove_cb p flag fs =
     (case (if flag = FTW_DP \<or> flag = FTW_D then sys_rmdir p fs else sys_unlink p fs) of
        None \<Rightarrow> (-1, fs)
      | Some fs' \<Rightarrow> (0, fs'))"

text \<open>A callback that does not return 0 ends the walk.\<close>

fun nftw_walk :: "(path \<times> typeflag) list \<Rightarrow> node \<Rightarrow> int \<times> node" where
  "nftw_walk [] fs = (0, fs)"
| "nftw_walk ((p, flag) # vs) fs =
     (case safe_remove_cb p flag fs of (r, fs') \<Rightarrow> if r \<noteq> 0 then (r, fs') else nftw_walk vs fs')"

definition safe_rmdir :: "path \<Rightarrow> node \<Rightarrow> int \<times> node" where
  "safe_rmdir p fs =
     (case lookup p fs of
        None \<Rightarrow> (-1, fs)
      | Some n \<Rightarrow> nftw_walk (visits p n) fs)"

section \<open>The life of a workspace\<close>

fun create_entry :: "path \<Rightarrow> node \<Rightarrow> node \<Rightarrow> node option" where
  "create_entry [c] n (Directory es) =
     (if map_of es c = None then Some (Directory (es @ [(c, n)])) else None)"
| "create_entry (c # d # ds) n (Directory es) =
     (case map_of es c of
        None \<Rightarrow> None
      | Some m \<Rightarrow> map_option (\<lambda>m'. Directory (AList.update c m' es)) (create_entry (d # ds) n m))"
| "create_entry _ _ _ = None"

text \<open>The tree with another node at a path that exists.\<close>

fun put_at :: "path \<Rightarrow> node \<Rightarrow> node \<Rightarrow> node" where
  "put_at [] x nd = x"
| "put_at (c # cs) x (Directory es) =
     (case map_of es c of None \<Rightarrow> Directory es | Some n \<Rightarrow> Directory (AList.update c (put_at cs x n) es))"
| "put_at _ x nd = nd"

text \<open>\<open>mkdtemp\<close> with the six characters it picks in place of the template's \<open>XXXXXX\<close>.\<close>

definition work_dir :: "string \<Rightarrow> path" where
  "work_dir picked_name = [''tmp'', ''ci_workspace_'' @ picked_name]"

definition mkdtemp :: "string \<Rightarrow> node \<Rightarrow> node option" where
  "mkdtemp picked_name = create_entry (work_dir picked_name) (Directory [])"

text \<open>What a submission leaves there: the source received, the program if it compiled, the output if it
  was run, and whatever compiler and program may add.\<close>

definition workspace_files :: "byte list \<Rightarrow> byte list option \<Rightarrow> byte list option \<Rightarrow> (string \<times> node) list \<Rightarrow> (string \<times> node) list" where
  "workspace_files source binary outp extra =
     (''source.c'', Regular source)
     # (case binary of None \<Rightarrow> [] | Some b \<Rightarrow> [(''test.out'', Regular b)])
     @ (case outp of None \<Rightarrow> [] | Some bs \<Rightarrow> [(''output.txt'', Regular bs)]) @ extra"

text \<open>\<open>handle_client\<close> as far as the file system goes: \<open>None\<close> where it gives up without a directory.\<close>

definition workspace_run :: "string \<Rightarrow> (string \<times> node) list \<Rightarrow> node \<Rightarrow> (int \<times> node) option" where
  "workspace_run picked_name es fs =
     (case mkdtemp picked_name fs of
        None \<Rightarrow> None
      | Some fs1 \<Rightarrow> Some (safe_rmdir (work_dir picked_name) (put_at (work_dir picked_name) (Directory es) fs1)))"

section \<open>Replacing and removing\<close>

text \<open>The names in a directory are different, all the way down.\<close>

fun wf_node :: "node \<Rightarrow> bool" where
  "wf_node (Directory es) = (distinct (map fst es) \<and> list_all (\<lambda>(c, n). wf_node n) es)"
| "wf_node _ = True"

lemma update_same [simp]: "map_of es c = Some n \<Longrightarrow> AList.update c n es = es"
  by (induction es) auto

lemma map_of_update [simp]: "map_of (AList.update c n es) c = Some n"
  by (simp add: update_conv')

lemma update_twice [simp]: "AList.update c m (AList.update c n es) = AList.update c m es"
  by (induction es) auto

lemma delete_head [simp]: "distinct (c # map fst es) \<Longrightarrow> AList.delete c es = es"
  by (induction es) auto

lemma lookup_put [simp]: "lookup p fs \<noteq> None \<Longrightarrow> lookup p (put_at p x fs) = Some x"
  by (induction p x fs rule: put_at.induct) (auto split: option.splits)

lemma put_put [simp]: "put_at p x (put_at p y fs) = put_at p x fs"
  by (induction p y fs rule: put_at.induct) (auto split: option.splits)

lemma put_same [simp]: "lookup p fs = Some x \<Longrightarrow> put_at p x fs = fs"
  by (induction p fs rule: lookup.induct) (auto split: option.splits)

lemma lookup_child: "lookup p fs = Some (Directory es) \<Longrightarrow> lookup (p @ [c]) fs = map_of es c"
  by (induction p fs rule: lookup.induct) (auto split: option.splits)

lemma remove_child:
  assumes "lookup p fs = Some (Directory es)" and "map_of es c = Some n" and "ok n"
  shows "remove_entry ok (p @ [c]) fs = Some (put_at p (Directory (AList.delete c es)) fs)"
  using assms(1)
proof (induction p fs rule: lookup.induct)
  case (1 nd)
  with assms(2,3) show ?case by simp
next
  case (2 d ds es')
  then obtain m where m: "map_of es' d = Some m" "lookup ds m = Some (Directory es)"
    by (auto split: option.splits)
  then have "remove_entry ok (ds @ [c]) m = Some (put_at ds (Directory (AList.delete c es)) m)"
    using "2.IH" by simp
  then show ?case using m by (cases "ds @ [c]") simp_all
qed simp_all

text \<open>One entry goes as its callback removes it.\<close>

lemma walk_leaf:
  assumes "lookup p fs = Some (Directory es)" and "map_of es c = Some n"
    and "if flag = FTW_DP \<or> flag = FTW_D then n = Directory [] else \<not> is_dir n"
  shows "nftw_walk ((p @ [c], flag) # vs) fs = nftw_walk vs (put_at p (Directory (AList.delete c es)) fs)"
  using remove_child [OF assms(1,2)] assms(3)
  by (auto simp: safe_remove_cb_def sys_rmdir_def sys_unlink_def split: if_splits)

text \<open>A whole subtree goes, whatever is visited afterwards.\<close>

lemma walk_subtree:
  assumes "wf_node n" and "lookup p fs = Some (Directory es)" and "map_of es c = Some n"
  shows "nftw_walk (visits (p @ [c]) n @ vs) fs = nftw_walk vs (put_at p (Directory (AList.delete c es)) fs)"
  using assms
proof (induction n arbitrary: p c es fs vs)
  case (Regular bs)
  then show ?case by (simp add: walk_leaf del: nftw_walk.simps)
next
  case (Symlink t)
  then show ?case by (simp add: walk_leaf del: nftw_walk.simps)
next
  case (Directory sub)
  have at: "lookup (p @ [c]) fs = Some (Directory sub)"
    using lookup_child [OF Directory.prems(2)] Directory.prems(3) by simp
  have children: "nftw_walk (concat (map (\<lambda>(d, n). visits ((p @ [c]) @ [d]) n) xs) @ ws) gs
      = nftw_walk ws (put_at (p @ [c]) (Directory []) gs)"
    if "set xs \<subseteq> set sub" "distinct (map fst xs)" "lookup (p @ [c]) gs = Some (Directory xs)" for xs ws gs
    using that
  proof (induction xs arbitrary: gs)
    case (Cons x xs)
    obtain d m where x: "x = (d, m)" by (cases x)
    have in_sub: "(d, m) \<in> set sub" using Cons.prems(1) x by simp
    have wf: "wf_node m" using Directory.prems(1) in_sub by (auto simp: list_all_iff)
    let ?gs = "put_at (p @ [c]) (Directory xs) gs"
    have del: "AList.delete d (x # xs) = xs" using Cons.prems(2) x by simp
    have "nftw_walk (visits ((p @ [c]) @ [d]) m @ concat (map (\<lambda>(d, n). visits ((p @ [c]) @ [d]) n) xs) @ ws) gs
        = nftw_walk (concat (map (\<lambda>(d, n). visits ((p @ [c]) @ [d]) n) xs) @ ws) ?gs"
      using Directory.IH [OF in_sub _ wf Cons.prems(3)] x del by (simp add: snds.simps)
    also have "\<dots> = nftw_walk ws (put_at (p @ [c]) (Directory []) ?gs)"
      using Cons.IH Cons.prems by simp
    finally show ?case using x by simp
  qed simp
  let ?fs = "put_at (p @ [c]) (Directory []) fs"
  have "nftw_walk (visits (p @ [c]) (Directory sub) @ vs) fs = nftw_walk ((p @ [c], FTW_DP) # vs) ?fs"
    using children [of sub fs "(p @ [c], FTW_DP) # vs"] Directory.prems(1) at by simp
  moreover have "lookup p ?fs = Some (Directory (AList.update c (Directory []) es))"
    using Directory.prems(2,3)
    by (induction p fs rule: lookup.induct) (auto split: option.splits)
  moreover have "put_at p y ?fs = put_at p y fs" for y
    using Directory.prems(2,3)
    by (induction p fs rule: lookup.induct) (auto split: option.splits)
  moreover have "AList.delete c (AList.update c y es) = AList.delete c es" for y
    by (induction es) auto
  ultimately show ?case by (simp add: walk_leaf del: nftw_walk.simps)
qed

lemma create_child:
  "create_entry (p @ [c]) n fs = Some fs' \<Longrightarrow>
   \<exists>es. lookup p fs = Some (Directory es) \<and> map_of es c = None \<and> fs' = put_at p (Directory (es @ [(c, n)])) fs"
proof (induction p fs arbitrary: fs' rule: lookup.induct)
  case (1 nd)
  then show ?case by (cases nd) (auto split: if_splits)
next
  case (2 d ds es)
  obtain e rest where r: "ds @ [c] = e # rest" by (cases "ds @ [c]") auto
  then obtain m m' where m: "map_of es d = Some m" "create_entry (ds @ [c]) n m = Some m'"
      "fs' = Directory (AList.update d m' es)"
    using "2.prems" by (auto split: option.splits)
  then show ?case using "2.IH" [OF m(1,2)] by auto
next
  case (3 d ds bs)
  then show ?case by (cases "ds @ [c]") simp_all
next
  case (4 d ds t)
  then show ?case by (cases "ds @ [c]") simp_all
qed

lemma put_child:
  "lookup p fs = Some (Directory es) \<Longrightarrow> map_of es c \<noteq> None \<Longrightarrow>
   put_at (p @ [c]) x fs = put_at p (Directory (AList.update c x es)) fs"
  by (induction p fs rule: lookup.induct) (auto split: option.splits)

lemma update_new: "map_of es c = None \<Longrightarrow> AList.update c m (es @ [(c, n)]) = es @ [(c, m)]"
  by (induction es) (auto split: if_splits)

lemma delete_new: "map_of es c = None \<Longrightarrow> AList.delete c (es @ [(c, n)]) = es"
  by (induction es) (auto split: if_splits)

section \<open>Property\<close>

text \<open>C10: a submission leaves no trace. Once a workspace could be made, then whatever files,
  directories and symbolic links end up in it, its removal succeeds and the file system is
  again exactly what it was before: nothing is left behind, and nothing outside is touched, the
  targets of links included.\<close>

theorem workspace_leaves_no_trace:
  assumes "mkdtemp picked_name fs \<noteq> None"
    and "wf_node (Directory (workspace_files source binary outp extra))"
  shows "workspace_run picked_name (workspace_files source binary outp extra) fs = Some (0, fs)"
proof -
  let ?es = "workspace_files source binary outp extra" and ?c = "''ci_workspace_'' @ picked_name"
  let ?p = "[''tmp'']"
  have wd: "work_dir picked_name = ?p @ [?c]" by (simp add: work_dir_def)
  obtain fs1 where fs1: "mkdtemp picked_name fs = Some fs1" using assms(1) by blast
  then obtain ts where ts: "lookup ?p fs = Some (Directory ts)" "map_of ts ?c = None"
      "fs1 = put_at ?p (Directory (ts @ [(?c, Directory [])])) fs"
    using create_child [of ?p ?c "Directory []" fs fs1] unfolding mkdtemp_def wd by blast
  let ?fs2 = "put_at (?p @ [?c]) (Directory ?es) fs1"
  have in1: "lookup ?p fs1 = Some (Directory (ts @ [(?c, Directory [])]))" using ts by (simp del: put_at.simps lookup.simps)
  have c1: "map_of (ts @ [(?c, Directory [])]) ?c = Some (Directory [])" using ts(2) by (simp add: map_add_Some_iff)
  have fs2: "?fs2 = put_at ?p (Directory (ts @ [(?c, Directory ?es)])) fs"
    using put_child [OF in1, of ?c "Directory ?es"] c1 update_new [OF ts(2)] ts(3)
    by (simp del: put_at.simps lookup.simps)
  then have in2: "lookup ?p ?fs2 = Some (Directory (ts @ [(?c, Directory ?es)]))"
    using ts(1) by (simp del: put_at.simps lookup.simps)
  have c2: "map_of (ts @ [(?c, Directory ?es)]) ?c = Some (Directory ?es)" using ts(2) by (simp add: map_add_Some_iff)
  have at: "lookup (?p @ [?c]) ?fs2 = Some (Directory ?es)" using lookup_child [OF in2] c2 by metis
  have "nftw_walk (visits (?p @ [?c]) (Directory ?es)) ?fs2 = (0, put_at ?p (Directory ts) ?fs2)"
    using walk_subtree [OF assms(2) in2 c2, of "[]"] delete_new [OF ts(2)]
    by (simp del: put_at.simps lookup.simps visits.simps)
  also have "put_at ?p (Directory ts) ?fs2 = fs"
    unfolding fs2 using ts(1) by (simp del: put_at.simps lookup.simps)
  finally show ?thesis
    using fs1 at unfolding workspace_run_def safe_rmdir_def wd by simp
qed

theorem workspace_leaves_no_trace_witness:
  "let fs = Directory [(''etc'', Directory [(''passwd'', Regular [1])]), (''tmp'', Directory [(''x'', Regular [])])]
   in workspace_run ''a1B2c3''
        (workspace_files [35] (Some [127]) (Some [])
           [(''sub'', Directory [(''up'', Symlink ''/etc''), (''deep'', Directory [(''f'', Regular [0])])])]) fs = Some (0, fs)"
  unfolding Let_def
  by (rule workspace_leaves_no_trace) (simp_all add: mkdtemp_def work_dir_def workspace_files_def)

end
