(* ===== verification/Descriptors.thy ===== *)
theory Descriptors
  imports Sandbox
begin

text \<open>
  The open files of the server and of the processes it starts, from \<^verbatim>\<open>server/server.c\<close>: which files
  \<open>handle_client\<close> opens and closes on each of its paths, and which ones a submitted program finds open.
  A descriptor table is a list of entries; a new file gets the lowest free number, a child process
  gets a copy of the table, and \<open>execv\<close> keeps it, since no file of the server is opened with a
  close-on-exec flag. Calls of \<open>pipe\<close> are taken to succeed. The descriptors behind the monitor are libbpf's and
  left out.
\<close>

section \<open>Descriptor tables\<close>

datatype open_file =
    Std_Stream nat | Results_File | Log_File | Listening_Socket | Control_Socket | Epoll_File
  | Connection nat | Dist_Dir | Dist_File | Source_File | Gcc_Read | Gcc_Write | Input_File | Output_File
  | Sync_Read | Sync_Write | Report_Read | Report_Write | Compared_File

type_synonym fd_table = "open_file option list"

definition fd_at :: "fd_table \<Rightarrow> nat \<Rightarrow> open_file option" where
  "fd_at t n = (if n < length t then t ! n else None)"

fun fd_open :: "open_file \<Rightarrow> fd_table \<Rightarrow> nat \<times> fd_table" where
  "fd_open f [] = (0, [Some f])"
| "fd_open f (None # t) = (0, Some f # t)"
| "fd_open f (Some g # t) = (let (n, t') = fd_open f t in (Suc n, Some g # t'))"

definition fd_close :: "nat \<Rightarrow> fd_table \<Rightarrow> fd_table" where
  "fd_close n t = t[n := None]"

definition fd_put :: "nat \<Rightarrow> open_file \<Rightarrow> fd_table \<Rightarrow> fd_table" where
  "fd_put n f t = (t @ replicate (Suc n - length t) None)[n := Some f]"

definition fd_dup2 :: "nat \<Rightarrow> nat \<Rightarrow> fd_table \<Rightarrow> fd_table" where
  "fd_dup2 a b t = (case fd_at t a of None \<Rightarrow> t | Some f \<Rightarrow> fd_put b f t)"

text \<open>An \<open>open\<close> that may fail, and \<open>if (fd >= 0) close (fd)\<close>.\<close>

definition open_if :: "bool \<Rightarrow> open_file \<Rightarrow> fd_table \<Rightarrow> nat option \<times> fd_table" where
  "open_if ok f t = (if ok then (let (n, t') = fd_open f t in (Some n, t')) else (None, t))"

definition close_if :: "nat option \<Rightarrow> fd_table \<Rightarrow> fd_table" where
  "close_if fd t = (case fd of None \<Rightarrow> t | Some n \<Rightarrow> fd_close n t)"

lemma fd_at_nil [simp]: "fd_at [] n = None"
  by (simp add: fd_at_def)

lemma fd_at_Cons [simp]: "fd_at (x # t) n = (case n of 0 \<Rightarrow> x | Suc m \<Rightarrow> fd_at t m)"
  by (auto simp: fd_at_def split: nat.split)

lemma fd_open_at:
  assumes "fd_open f t = (n, t')"
  shows "fd_at t n = None" and "fd_at t' = (fd_at t)(n := Some f)"
proof -
  have "fd_at t n = None \<and> (\<forall>k. fd_at t' k = ((fd_at t)(n := Some f)) k)"
    using assms
    by (induction f t arbitrary: n t' rule: fd_open.induct) (fastforce split: prod.splits nat.splits)+
  then show "fd_at t n = None" and "fd_at t' = (fd_at t)(n := Some f)" by auto
qed

lemma fd_at_close: "fd_at (fd_close n t) = (fd_at t)(n := None)"
  by (auto simp: fd_at_def fd_close_def)

lemma fd_at_put [simp]: "fd_at (fd_put n f t) = (fd_at t)(n := Some f)"
  by (auto simp: fd_at_def fd_put_def nth_append nth_list_update)

lemma fd_at_dup2: "fd_at (fd_dup2 a b t) = (case fd_at t a of None \<Rightarrow> fd_at t | Some f \<Rightarrow> (fd_at t)(b := Some f))"
  by (simp add: fd_dup2_def split: option.split)

section \<open>The server's files\<close>

text \<open>\<open>main\<close> before its loop: the results file of the first week, the log, the sockets, the epoll instance.\<close>

definition server_files :: "bool \<Rightarrow> bool \<Rightarrow> fd_table" where
  "server_files csv_opens log_opens =
     (let t0 = [Some (Std_Stream 0), Some (Std_Stream 1), Some (Std_Stream 2)];
          t1 = snd (open_if csv_opens Results_File t0);
          t2 = snd (open_if log_opens Log_File t1);
          t3 = snd (fd_open Listening_Socket t2);
          t4 = snd (fd_open Control_Socket t3)
      in snd (fd_open Epoll_File t4))"

section \<open>One connection\<close>

record fd_env =
  fe_header :: bool
  fe_pull :: bool
  fe_rest :: bool
  fe_dist_dir :: bool
  fe_dist_files :: "bool list"
  fe_workdir :: bool
  fe_source :: bool
  fe_compiles :: bool
  fe_input :: bool
  fe_output :: bool
  fe_compares :: bool
  fe_actual :: bool
  fe_expected :: bool

definition opened_and_closed :: "bool \<Rightarrow> open_file \<Rightarrow> fd_table \<Rightarrow> fd_table" where
  "opened_and_closed ok f t = (let (fd, t') = open_if ok f t in close_if fd t')"

text \<open>\<open>handle_file_pull\<close>: the directory is read and closed before the first file is sent; every way out of
  \<open>send_one_file\<close> closes its file, and the first failure is the last one.\<close>

fun send_files_fds :: "bool list \<Rightarrow> fd_table \<Rightarrow> fd_table" where
  "send_files_fds [] t = t"
| "send_files_fds (opens # rest) t =
     (let t' = opened_and_closed opens Dist_File t in if opens then send_files_fds rest t' else t')"

definition pull_fds :: "fd_env \<Rightarrow> fd_table \<Rightarrow> fd_table" where
  "pull_fds fe t =
     (let t' = opened_and_closed (fe_dist_dir fe) Dist_Dir t
      in if fe_dist_dir fe then send_files_fds (fe_dist_files fe) t' else t')"

record launch_fds =
  in_fd :: "nat option"
  out_fd :: "nat option"
  sync_r :: nat
  sync_w :: nat
  report_r :: nat
  report_w :: nat

text \<open>Up to the fork of the wrapper.\<close>

definition open_launch :: "fd_env \<Rightarrow> fd_table \<Rightarrow> launch_fds \<times> fd_table" where
  "open_launch fe t =
     (let (i, t1) = open_if (fe_input fe) Input_File t;
          (j, t2) = open_if (fe_output fe) Output_File t1;
          (sr, t3) = fd_open Sync_Read t2;
          (sw, t4) = fd_open Sync_Write t3;
          (rr, t5) = fd_open Report_Read t4;
          (rw, t6) = fd_open Report_Write t5
      in (\<lparr>in_fd = i, out_fd = j, sync_r = sr, sync_w = sw, report_r = rr, report_w = rw\<rparr>, t6))"

text \<open>\<open>compare_output\<close> opens both files before it looks at either.\<close>

definition compare_fds :: "fd_env \<Rightarrow> fd_table \<Rightarrow> fd_table" where
  "compare_fds fe t =
     (if fe_compares fe
      then let (a, t1) = open_if (fe_actual fe) Compared_File t;
               (b, t2) = open_if (fe_expected fe) Compared_File t1
           in close_if b (close_if a t2)
      else t)"

definition run_fds :: "fd_env \<Rightarrow> fd_table \<Rightarrow> fd_table" where
  "run_fds fe t =
     (let (l, t') = open_launch fe t
      in compare_fds fe
           (fd_close (sync_w l) (fd_close (report_r l)
             (close_if (out_fd l) (close_if (in_fd l) (fd_close (report_w l) (fd_close (sync_r l) t')))))))"

text \<open>A submission: the source, the pipe to the compiler, and the run.\<close>

definition open_gcc :: "fd_env \<Rightarrow> fd_table \<Rightarrow> nat \<times> fd_table" where
  "open_gcc fe t =
     (let (pr, t1) = fd_open Gcc_Read (opened_and_closed (fe_source fe) Source_File t);
          (pw, t2) = fd_open Gcc_Write t1
      in (pr, fd_close pw t2))"

definition submit_fds :: "fd_env \<Rightarrow> fd_table \<Rightarrow> fd_table" where
  "submit_fds fe t =
     (let (pr, t') = open_gcc fe t
      in fd_close pr (if fe_compiles fe then run_fds fe t' else t'))"

definition handle_client_fds :: "fd_env \<Rightarrow> nat \<Rightarrow> fd_table \<Rightarrow> fd_table" where
  "handle_client_fds fe client_sock t =
     (if \<not> fe_header fe then fd_close client_sock t
      else if fe_pull fe
        then (if \<not> fe_rest fe then fd_close client_sock t else fd_close client_sock (pull_fds fe t))
      else if \<not> fe_rest fe \<or> \<not> fe_workdir fe then fd_close client_sock t
      else fd_close client_sock (submit_fds fe t))"

section \<open>The program's files\<close>

text \<open>What the wrapper and the program's process close and replace before \<open>execv\<close>.\<close>

definition program_fds :: "fd_env \<Rightarrow> fd_table \<Rightarrow> fd_table" where
  "program_fds fe t =
     (let (pr, t1) = open_gcc fe t;
          (l, t2) = open_launch fe t1;
          t3 = fd_close (report_r l) (fd_close (sync_w l) t2);
          t4 = fd_close (sync_r l) (fd_close (report_w l) t3);
          t5 = (case in_fd l of None \<Rightarrow> t4 | Some n \<Rightarrow> fd_close n (fd_dup2 n 0 t4))
      in case out_fd l of None \<Rightarrow> t5 | Some n \<Rightarrow> fd_close n (fd_dup2 n 1 t5))"

section \<open>Properties\<close>

lemma open_if_at:
  assumes "open_if ok f t = (fd, t')"
  shows "(case fd of None \<Rightarrow> t' = t | Some n \<Rightarrow> fd_at t n = None \<and> fd_at t' = (fd_at t)(n := Some f))"
  using assms fd_open_at [of f t] by (auto simp: open_if_def split: if_splits prod.splits)

lemma close_if_at:
  "fd_at (close_if fd t) = (case fd of None \<Rightarrow> fd_at t | Some n \<Rightarrow> (fd_at t)(n := None))"
  by (simp add: close_if_def fd_at_close split: option.split)

lemma opened_and_closed_at [simp]: "fd_at (opened_and_closed ok f t) = fd_at t"
proof -
  obtain fd t' where o: "open_if ok f t = (fd, t')" by (cases "open_if ok f t")
  show ?thesis using open_if_at [OF o]
    by (auto simp: opened_and_closed_def o close_if_at split: option.splits)
qed

lemma send_files_at: "fd_at (send_files_fds opens t) = fd_at t"
  by (induction opens t rule: send_files_fds.induct) (auto simp: Let_def)

lemma pull_at: "fd_at (pull_fds fe t) = fd_at t"
  by (simp add: pull_fds_def Let_def send_files_at)

lemma compare_at: "fd_at (compare_fds fe t) = fd_at t"
proof -
  obtain a t1 where 1: "open_if (fe_actual fe) Compared_File t = (a, t1)"
    by (cases "open_if (fe_actual fe) Compared_File t")
  obtain b t2 where 2: "open_if (fe_expected fe) Compared_File t1 = (b, t2)"
    by (cases "open_if (fe_expected fe) Compared_File t1")
  show ?thesis using open_if_at [OF 1] open_if_at [OF 2]
    by (auto simp: compare_fds_def 1 2 close_if_at fun_eq_iff split: option.splits if_splits)
qed

text \<open>\<open>t'\<close> is \<open>t\<close> with the files numbered \<open>ns\<close> opened, each at a number of its own that was free.\<close>

definition adds :: "fd_table \<Rightarrow> nat list \<Rightarrow> fd_table \<Rightarrow> bool" where
  "adds t ns t' \<longleftrightarrow>
     (\<forall>n \<in> set ns. fd_at t n = None \<and> fd_at t' n \<noteq> None) \<and> (\<forall>n. n \<notin> set ns \<longrightarrow> fd_at t' n = fd_at t n)"

abbreviation opt_list :: "nat option \<Rightarrow> nat list" where
  "opt_list fd \<equiv> (case fd of None \<Rightarrow> [] | Some n \<Rightarrow> [n])"

lemma adds_refl: "adds t [] t"
  by (simp add: adds_def)

lemma adds_open: "adds t ns t1 \<Longrightarrow> fd_open f t1 = (n, t2) \<Longrightarrow> adds t (ns @ [n]) t2"
  using fd_open_at [of f t1 n t2] by (auto simp: adds_def)

lemma adds_open_if:
  assumes "adds t ns t1" and "open_if ok f t1 = (fd, t2)"
  shows "adds t (ns @ opt_list fd) t2"
  using assms adds_open by (auto simp: open_if_def split: if_splits prod.splits)

definition clear :: "nat list \<Rightarrow> (nat \<Rightarrow> open_file option) \<Rightarrow> nat \<Rightarrow> open_file option" where
  "clear ns m n = (if n \<in> set ns then None else m n)"

lemma clear_clear: "clear xs (clear ys m) = clear (xs @ ys) m"
  by (auto simp: clear_def fun_eq_iff)

lemma close_clears:
  "fd_at (fd_close n t) = clear [n] (fd_at t)" "fd_at (close_if fd t) = clear (opt_list fd) (fd_at t)"
  by (auto simp: clear_def fun_eq_iff close_if_at fd_at_close split: option.splits)

lemma adds_restore: "adds t ns t' \<Longrightarrow> set xs = set ns \<Longrightarrow> clear xs (fd_at t') = fd_at t"
  by (auto simp: adds_def clear_def fun_eq_iff)

lemma adds_old: "adds t ns t' \<Longrightarrow> fd_at t n = Some f \<Longrightarrow> n \<notin> set ns \<and> fd_at t' n = Some f"
  unfolding adds_def by (metis option.distinct(1))

lemma open_launch_adds:
  assumes "open_launch fe t = (l, t')"
  shows "adds t (opt_list (in_fd l) @ opt_list (out_fd l) @ [sync_r l, sync_w l, report_r l, report_w l]) t'"
proof -
  obtain i t1 where 1: "open_if (fe_input fe) Input_File t = (i, t1)" by (cases "open_if (fe_input fe) Input_File t")
  obtain j t2 where 2: "open_if (fe_output fe) Output_File t1 = (j, t2)" by (cases "open_if (fe_output fe) Output_File t1")
  obtain sr t3 where 3: "fd_open Sync_Read t2 = (sr, t3)" by (cases "fd_open Sync_Read t2")
  obtain sw t4 where 4: "fd_open Sync_Write t3 = (sw, t4)" by (cases "fd_open Sync_Write t3")
  obtain rr t5 where 5: "fd_open Report_Read t4 = (rr, t5)" by (cases "fd_open Report_Read t4")
  obtain rw t6 where 6: "fd_open Report_Write t5 = (rw, t6)" by (cases "fd_open Report_Write t5")
  have "l = \<lparr>in_fd = i, out_fd = j, sync_r = sr, sync_w = sw, report_r = rr, report_w = rw\<rparr>" "t' = t6"
    using assms by (simp_all add: open_launch_def 1 2 3 4 5 6)
  then show ?thesis
    using adds_open [OF adds_open [OF adds_open [OF adds_open [OF adds_open_if [OF adds_open_if [OF adds_refl 1] 2] 3] 4] 5] 6]
    by simp
qed

lemma run_at: "fd_at (run_fds fe t) = fd_at t"
proof -
  obtain l t' where o: "open_launch fe t = (l, t')" by (cases "open_launch fe t")
  have "fd_at (run_fds fe t) =
      clear ([sync_w l] @ [report_r l] @ opt_list (out_fd l) @ opt_list (in_fd l) @ [report_w l] @ [sync_r l]) (fd_at t')"
    by (simp only: run_fds_def o compare_at close_clears clear_clear Let_def prod.case append_assoc)
  also have "\<dots> = fd_at t" by (rule adds_restore [OF open_launch_adds [OF o]]) auto
  finally show ?thesis .
qed

lemma open_gcc_adds:
  assumes "open_gcc fe t = (pr, t')"
  shows "adds t [pr] t'"
proof -
  let ?t = "opened_and_closed (fe_source fe) Source_File t"
  obtain t1 where 1: "fd_open Gcc_Read ?t = (pr, t1)"
    using assms by (auto simp: open_gcc_def split: prod.splits)
  obtain pw t2 where 2: "fd_open Gcc_Write t1 = (pw, t2)" by (cases "fd_open Gcc_Write t1")
  have t': "t' = fd_close pw t2" using assms by (simp add: open_gcc_def 1 2)
  have "adds ?t [pr, pw] t2" "pr \<noteq> pw"
    using adds_open [OF adds_open [OF adds_refl 1] 2] fd_open_at [OF 1] fd_open_at [OF 2] by auto
  then show ?thesis unfolding t' adds_def fd_at_close by auto
qed

text \<open>C14: Whatever happens to a connection, its worker has closed every file it opened for it, and the
  connection, once it is done: its table is the one it began with, without the connection.\<close>

theorem no_descriptor_left:
  assumes "fd_at t client_sock \<noteq> None"
  shows "fd_at (handle_client_fds fe client_sock t) = (fd_at t)(client_sock := None)"
proof -
  obtain pr t' where g: "open_gcc fe t = (pr, t')" by (cases "open_gcc fe t")
  have "fd_at (submit_fds fe t) = clear [pr] (fd_at t')"
    by (simp add: submit_fds_def g close_clears run_at)
  also have "\<dots> = fd_at t" by (rule adds_restore [OF open_gcc_adds [OF g]]) simp
  finally have "fd_at (submit_fds fe t) = fd_at t" .
  then show ?thesis by (simp add: handle_client_fds_def pull_at fd_at_close)
qed

definition all_opens :: fd_env where
  "all_opens =
     \<lparr>fe_header = True, fe_pull = False, fe_rest = True, fe_dist_dir = True, fe_dist_files = [], fe_workdir = True,
      fe_source = True, fe_compiles = True, fe_input = True, fe_output = True, fe_compares = True,
      fe_actual = True, fe_expected = True\<rparr>"

lemma no_descriptor_left_witness:
  "fd_at (handle_client_fds all_opens 8 (server_files True True @ [Some (Connection 1)])) 8 = None"
proof -
  have "fd_at (server_files True True @ [Some (Connection 1)]) 8 \<noteq> None" by code_simp
  then show ?thesis using no_descriptor_left by simp
qed

text \<open>Files that were open before stay open under their number.\<close>

lemma program_keeps_files:
  assumes "fd_at t n = Some f" and "1 < n"
  shows "fd_at (program_fds fe t) n = Some f"
proof -
  obtain pr t1 where g: "open_gcc fe t = (pr, t1)" by (cases "open_gcc fe t")
  obtain l t2 where o: "open_launch fe t1 = (l, t2)" by (cases "open_launch fe t1")
  have 1: "fd_at t1 n = Some f"
    using adds_old [OF open_gcc_adds [OF g] assms(1)] by simp
  then have 2: "fd_at t2 n = Some f" and
    old: "n \<notin> set (opt_list (in_fd l) @ opt_list (out_fd l) @ [sync_r l, sync_w l, report_r l, report_w l])"
    using adds_old [OF open_launch_adds [OF o] 1] by blast+
  let ?t4 = "fd_close (sync_r l) (fd_close (report_w l) (fd_close (report_r l) (fd_close (sync_w l) t2)))"
  let ?move = "\<lambda>fd k t. case fd of None \<Rightarrow> t | Some m \<Rightarrow> fd_close m (fd_dup2 m k t)"
  have 4: "fd_at ?t4 n = Some f" using 2 old by (simp add: close_clears clear_def)
  have move: "fd_at (?move fd k t) n = Some f"
    if "fd_at t n = Some f" "k < 2" "n \<notin> set (opt_list fd)" for fd k t
    using that assms(2) by (cases fd) (auto simp: fd_at_dup2 fd_at_close split: option.splits)
  have "fd_at (?move (out_fd l) 1 (?move (in_fd l) 0 ?t4)) n = Some f"
    using old by (intro move 4) auto
  then show ?thesis
    by (simp only: program_fds_def g o Let_def prod.case)
qed

lemma write_allowed: "seccomp_verdict (SCMP_SYS Sys_write) = SCMP_ACT_ALLOW"
  by (simp add: seccomp_verdict_def seccomp_allowed_def)

text \<open>C12: Every file the server has open when it starts a submission, other than its standard input and output, is
  open in the submitted program under the same number: the results file, the connections of all the
  students being served, the listening and the control socket; and seccomp lets it write to them.\<close>

theorem program_inherits_server_files:
  assumes "fd_at t n = Some f" and "1 < n"
  shows "fd_at (program_fds fe t) n = Some f \<and> seccomp_verdict (SCMP_SYS Sys_write) = SCMP_ACT_ALLOW"
  using program_keeps_files [OF assms] write_allowed by blast

text \<open>The results file is number 3, in a server that was started with its three standard streams.\<close>

lemma program_inherits_server_files_witness:
  "fd_at (program_fds all_opens (server_files True True @ [Some (Connection 1), Some (Connection 2)])) 3 = Some Results_File \<and>
   fd_at (program_fds all_opens (server_files True True @ [Some (Connection 1), Some (Connection 2)])) 9 = Some (Connection 2)"
proof -
  let ?t = "server_files True True @ [Some (Connection 1), Some (Connection 2)]"
  have "fd_at ?t 3 = Some Results_File" "fd_at ?t 9 = Some (Connection 2)" by code_simp+
  then show ?thesis
    using program_inherits_server_files [of ?t 3] program_inherits_server_files [of ?t 9] by simp
qed

end
