(* ===== verification/Locks.thy ===== *)
theory Locks
  imports Prelude
begin

text \<open>
  Threads, locks and shared variables. A thread is the sequence of acquisitions, releases and
  accesses it still has to do and the locks it holds; a mutex is a lock that is only taken
  exclusively, a read-write lock can be shared. The flag \<open>pref\<close> says whether a reader also waits
  for the writers that wait: the standard leaves it open. The locale \<open>lock_discipline\<close> is the
  argument against deadlock and against data races: every operation takes locks in the order of a
  rank, gives them back, and accesses a variable only with the locks that keep its conflicting
  accesses apart. The server and the dashboard provide it in theories of their own. A wait on a
  condition variable is a release and an acquisition.
\<close>

section \<open>Threads\<close>

datatype lock_mode = Shared | Exclusive

text \<open>\<open>Access x True\<close> writes the variable \<open>x\<close>, \<open>Access x False\<close> reads it.\<close>

datatype ('l, 'v) lock_op = Acquire 'l lock_mode | Release 'l | Access 'v bool

record ('l, 'v) thread =
  todo :: "('l, 'v) lock_op list"
  holding :: "('l \<times> lock_mode) list"

definition has_lock :: "('l, 'v) thread \<Rightarrow> 'l \<Rightarrow> bool" where
  "has_lock t l \<longleftrightarrow> l \<in> set (map fst (holding t))"

definition holds_exclusive :: "('l, 'v) thread \<Rightarrow> 'l \<Rightarrow> bool" where
  "holds_exclusive t l \<longleftrightarrow> (l, Exclusive) \<in> set (holding t)"

definition wants_exclusive :: "('l, 'v) thread \<Rightarrow> 'l \<Rightarrow> bool" where
  "wants_exclusive t l \<longleftrightarrow> (case todo t of Acquire k Exclusive # ops \<Rightarrow> k = l | _ \<Rightarrow> False)"

fun may_acquire :: "bool \<Rightarrow> 'l \<Rightarrow> lock_mode \<Rightarrow> ('l, 'v) thread list \<Rightarrow> bool" where
  "may_acquire pref l Exclusive ts = list_all (\<lambda>t. \<not> has_lock t l) ts"
| "may_acquire pref l Shared ts =
     list_all (\<lambda>t. \<not> holds_exclusive t l \<and> \<not> (pref \<and> wants_exclusive t l)) ts"

inductive lock_step :: "bool \<Rightarrow> ('l, 'v) thread list \<Rightarrow> ('l, 'v) thread list \<Rightarrow> bool" for pref :: bool where
  acquires: "i < length ts \<Longrightarrow> todo (ts ! i) = Acquire l m # ops \<Longrightarrow> may_acquire pref l m ts \<Longrightarrow>
     lock_step pref ts (ts[i := \<lparr>todo = ops, holding = (l, m) # holding (ts ! i)\<rparr>])"
| releases: "i < length ts \<Longrightarrow> todo (ts ! i) = Release l # ops \<Longrightarrow>
     lock_step pref ts (ts[i := \<lparr>todo = ops, holding = filter (\<lambda>(k, m). k \<noteq> l) (holding (ts ! i))\<rparr>])"
| accesses: "i < length ts \<Longrightarrow> todo (ts ! i) = Access x w # ops \<Longrightarrow>
     lock_step pref ts (ts[i := \<lparr>todo = ops, holding = holding (ts ! i)\<rparr>])"

definition start_threads :: "('op \<Rightarrow> ('l, 'v) lock_op list) \<Rightarrow> 'op list list \<Rightarrow> ('l, 'v) thread list" where
  "start_threads locks_of jobs = map (\<lambda>xs. \<lparr>todo = concat (map locks_of xs), holding = []\<rparr>) jobs"

definition all_done :: "('l, 'v) thread list \<Rightarrow> bool" where
  "all_done ts \<longleftrightarrow> list_all (\<lambda>t. todo t = [] \<and> holding t = []) ts"

text \<open>Two threads are about to access one variable, the first of them to write it.\<close>

definition racing :: "('l, 'v) thread list \<Rightarrow> 'v \<Rightarrow> bool" where
  "racing ts x \<longleftrightarrow>
     list_ex (\<lambda>i. list_ex (\<lambda>j. i \<noteq> j \<and>
        take 1 (todo (ts ! i)) = [Access x True] \<and>
        (take 1 (todo (ts ! j)) = [Access x True] \<or> take 1 (todo (ts ! j)) = [Access x False]))
       [0..<length ts]) [0..<length ts]"

text \<open>A schedule names the thread that goes next; it fails where that thread is blocked or done.\<close>

definition sched_step :: "bool \<Rightarrow> nat \<Rightarrow> ('l, 'v) thread list \<Rightarrow> ('l, 'v) thread list option" where
  "sched_step pref i ts =
     (if i < length ts then
        (case todo (ts ! i) of
           [] \<Rightarrow> None
         | Acquire l m # ops \<Rightarrow>
             (if may_acquire pref l m ts then Some (ts[i := \<lparr>todo = ops, holding = (l, m) # holding (ts ! i)\<rparr>])
              else None)
         | Release l # ops \<Rightarrow>
             Some (ts[i := \<lparr>todo = ops, holding = filter (\<lambda>(k, m). k \<noteq> l) (holding (ts ! i))\<rparr>])
         | Access x w # ops \<Rightarrow> Some (ts[i := \<lparr>todo = ops, holding = holding (ts ! i)\<rparr>]))
      else None)"

fun run_schedule :: "bool \<Rightarrow> nat list \<Rightarrow> ('l, 'v) thread list \<Rightarrow> ('l, 'v) thread list option" where
  "run_schedule pref [] ts = Some ts"
| "run_schedule pref (i # is) ts = Option.bind (sched_step pref i ts) (run_schedule pref is)"

lemma sched_step_sound: "sched_step pref i ts = Some us \<Longrightarrow> lock_step pref ts us"
  by (auto simp: sched_step_def intro: lock_step.intros split: if_splits list.splits lock_op.splits)

lemma run_schedule_sound:
  "run_schedule pref is ts = Some us \<Longrightarrow> (lock_step pref ^^ length is) ts us"
proof (induction "is" arbitrary: ts)
  case (Cons i "is")
  then obtain vs where "sched_step pref i ts = Some vs" "run_schedule pref is vs = Some us"
    by (auto simp: Option.bind_eq_Some_conv)
  then show ?case using Cons.IH [of vs] sched_step_sound [of pref i ts vs]
    by (auto simp del: relpowp.simps intro: relpowp_Suc_I2)
qed simp

section \<open>The discipline\<close>

text \<open>
  Locks are taken in the order of their rank and all of them given back, and each access is one the
  locks held permit.
\<close>

fun ordered_ops :: "('l \<Rightarrow> nat) \<Rightarrow> (('l \<times> lock_mode) list \<Rightarrow> 'v \<Rightarrow> bool \<Rightarrow> bool) \<Rightarrow> ('l \<times> lock_mode) list \<Rightarrow>
    ('l, 'v) lock_op list \<Rightarrow> bool" where
  "ordered_ops rank ok hs [] = (hs = [])"
| "ordered_ops rank ok hs (Acquire l m # ops) =
     (list_all (\<lambda>h. rank (fst h) < rank l) hs \<and> ordered_ops rank ok ((l, m) # hs) ops)"
| "ordered_ops rank ok hs (Release l # ops) =
     (l \<in> set (map fst hs) \<and> ordered_ops rank ok (filter (\<lambda>(k, m). k \<noteq> l) hs) ops)"
| "ordered_ops rank ok hs (Access x w # ops) = (ok hs x w \<and> ordered_ops rank ok hs ops)"

definition disciplined_threads ::
  "('l \<Rightarrow> nat) \<Rightarrow> (nat \<Rightarrow> ('l \<times> lock_mode) list \<Rightarrow> 'v \<Rightarrow> bool \<Rightarrow> bool) \<Rightarrow> ('l, 'v) thread list \<Rightarrow> bool" where
  "disciplined_threads rank ok ts \<longleftrightarrow>
     (\<forall>i < length ts. ordered_ops rank (ok i) (holding (ts ! i)) (todo (ts ! i)))"

text \<open>A lock held exclusively is held by nobody else.\<close>

definition exclusive_ok :: "('l, 'v) thread list \<Rightarrow> bool" where
  "exclusive_ok ts \<longleftrightarrow>
     (\<forall>i < length ts. \<forall>j < length ts. i \<noteq> j \<longrightarrow> (\<forall>l. holds_exclusive (ts ! i) l \<longrightarrow> \<not> has_lock (ts ! j) l))"

definition lock_weight :: "('l, 'v) thread list \<Rightarrow> nat" where
  "lock_weight ts = sum_list (map (\<lambda>t. length (todo t)) ts)"

lemma ordered_append:
  "ordered_ops rank ok hs xs \<Longrightarrow> ordered_ops rank ok [] ys \<Longrightarrow> ordered_ops rank ok hs (xs @ ys)"
  by (induction rank ok hs xs rule: ordered_ops.induct) auto

lemma ordered_concat: "list_all (ordered_ops rank ok []) xss \<Longrightarrow> ordered_ops rank ok [] (concat xss)"
  by (induction xss) (auto intro: ordered_append)

lemma held_not_done: "ordered_ops rank ok hs ops \<Longrightarrow> h \<in> set hs \<Longrightarrow> ops \<noteq> []"
  by (cases ops) auto

lemma disciplined_step:
  assumes "disciplined_threads rank ok ts" and "lock_step pref ts us"
  shows "disciplined_threads rank ok us"
  using assms(2,1)
  by cases (auto simp: disciplined_threads_def nth_list_update dest: spec)

lemma holds_exclusive_holds: "holds_exclusive t l \<Longrightarrow> has_lock t l"
  by (force simp: holds_exclusive_def has_lock_def)

lemma has_lock_after_acquire:
  "has_lock \<lparr>todo = ops, holding = (k, m) # holding t\<rparr> l \<longleftrightarrow> k = l \<or> has_lock t l"
  "holds_exclusive \<lparr>todo = ops, holding = (k, m) # holding t\<rparr> l \<longleftrightarrow> k = l \<and> m = Exclusive \<or> holds_exclusive t l"
  by (auto simp: has_lock_def holds_exclusive_def)

lemma may_acquire_held: "may_acquire pref l m ts \<Longrightarrow> j < length ts \<Longrightarrow> \<not> holds_exclusive (ts ! j) l"
  by (cases m) (auto simp: list_all_length dest: holds_exclusive_holds)

lemma exclusive_step:
  assumes "exclusive_ok ts" and "lock_step pref ts us"
  shows "exclusive_ok us"
  using assms(2,1)
proof cases
  case (acquires i l m ops)
  have free: "m = Exclusive \<Longrightarrow> j < length ts \<Longrightarrow> \<not> has_lock (ts ! j) l" for j
    using acquires(4) by (auto simp: list_all_length)
  show ?thesis using assms(1) acquires(1,2) free may_acquire_held [OF acquires(4)]
    by (auto simp: exclusive_ok_def nth_list_update has_lock_after_acquire)
qed (auto simp: exclusive_ok_def nth_list_update has_lock_def holds_exclusive_def)

lemma exclusive_run: "(lock_step pref ^^ n) ts us \<Longrightarrow> exclusive_ok ts \<Longrightarrow> exclusive_ok us"
  by (induction n arbitrary: us) (auto intro: exclusive_step)

lemma lock_weight_step:
  assumes "lock_step pref ts us"
  shows "lock_weight us < lock_weight ts"
proof -
  have less: "lock_weight (ts[i := t]) < lock_weight ts"
    if "i < length ts" "todo (ts ! i) = x # todo t" for i t x
  proof -
    have "length (todo (ts ! i)) \<le> lock_weight ts"
      using elem_le_sum_list [of i "map (\<lambda>t. length (todo t)) ts"] that(1) by (simp add: lock_weight_def)
    then show ?thesis using that by (simp add: lock_weight_def map_update sum_list_update)
  qed
  show ?thesis using assms by cases (auto intro: less)
qed

interpretation lock_runs: finite_runs "lock_step pref" "disciplined_threads rank ok" lock_weight
  for pref rank ok
  by unfold_locales (rule disciplined_step, assumption+, rule lock_weight_step)

section \<open>Progress\<close>

definition wanted_rank :: "('l \<Rightarrow> nat) \<Rightarrow> ('l, 'v) thread \<Rightarrow> nat" where
  "wanted_rank rank t = (case todo t of Acquire l m # ops \<Rightarrow> rank l | _ \<Rightarrow> 0)"

lemma blocked_wants:
  assumes "\<nexists>us. lock_step pref ts us" and "i < length ts" and "todo (ts ! i) \<noteq> []"
  shows "\<exists>l m ops. todo (ts ! i) = Acquire l m # ops \<and> \<not> may_acquire pref l m ts"
proof (cases "todo (ts ! i)")
  case (Cons a ops)
  then show ?thesis
    using assms(1) acquires [OF assms(2), of _ _ ops pref] releases [OF assms(2), of _ ops pref]
      accesses [OF assms(2), of _ _ ops pref]
    by (cases a) auto
qed (use assms(3) in simp)

text \<open>Who has_lock a lock that is wanted either goes on or wants one of a higher rank.\<close>

lemma holder_wants_higher:
  assumes disc: "disciplined_threads rank ok ts" and stuck: "\<nexists>us. lock_step pref ts us"
    and j: "j < length ts" "has_lock (ts ! j) l"
  shows "todo (ts ! j) \<noteq> [] \<and> rank l < wanted_rank rank (ts ! j)"
proof -
  have ord: "ordered_ops rank (ok j) (holding (ts ! j)) (todo (ts ! j))"
    using disc j(1) by (simp add: disciplined_threads_def)
  obtain m where m: "(l, m) \<in> set (holding (ts ! j))" using j(2) by (auto simp: has_lock_def)
  then have busy: "todo (ts ! j) \<noteq> []" using ord by (auto dest: held_not_done)
  then obtain k m' ops where "todo (ts ! j) = Acquire k m' # ops"
    using blocked_wants [OF stuck j(1)] by blast
  then show ?thesis using ord m by (auto simp: wanted_rank_def list_all_iff)
qed

lemma blocked_below:
  assumes disc: "disciplined_threads rank ok ts" and stuck: "\<nexists>us. lock_step pref ts us"
    and i: "i < length ts" "todo (ts ! i) \<noteq> []"
  shows "\<exists>j < length ts. todo (ts ! j) \<noteq> [] \<and> wanted_rank rank (ts ! i) < wanted_rank rank (ts ! j)"
proof -
  have held: "\<exists>j < length ts. todo (ts ! j) \<noteq> [] \<and> rank l < wanted_rank rank (ts ! j)"
    if "\<not> may_acquire pref l Exclusive ts" for l
    using that holder_wants_higher [OF disc stuck] by (auto simp: list_all_length)
  obtain l m ops where want: "todo (ts ! i) = Acquire l m # ops" "\<not> may_acquire pref l m ts"
    using blocked_wants [OF stuck i] by blast
  have "\<not> may_acquire pref l Exclusive ts"
  proof (cases m)
    case Shared
    then obtain j where j: "j < length ts" "holds_exclusive (ts ! j) l \<or> wants_exclusive (ts ! j) l"
      using want(2) by (auto simp: list_all_length)
    then show ?thesis
    proof (cases "holds_exclusive (ts ! j) l")
      case False
      then obtain ops' where "todo (ts ! j) = Acquire l Exclusive # ops'"
        using j(2) by (auto simp: wants_exclusive_def split: list.splits lock_op.splits lock_mode.splits)
      then show ?thesis using acquires [OF j(1), of l Exclusive ops' pref] stuck by blast
    qed (auto simp: list_all_length dest: holds_exclusive_holds)
  qed (use want in simp)
  then show ?thesis using held want(1) by (simp add: wanted_rank_def)
qed

lemma lock_progress:
  assumes disc: "disciplined_threads rank ok ts" and stuck: "\<nexists>us. lock_step pref ts us"
  shows "all_done ts"
proof -
  let ?busy = "\<lambda>i. i < length ts \<and> todo (ts ! i) \<noteq> []"
  have "todo (ts ! i) = []" if "i < length ts" for i
  proof (rule ccontr)
    assume "todo (ts ! i) \<noteq> []"
    then have "?busy i" using that by simp
    moreover have "\<forall>j. ?busy j \<longrightarrow> wanted_rank rank (ts ! j) < Suc (Max ((\<lambda>i. wanted_rank rank (ts ! i)) ` {..<length ts}))"
      by (auto simp: less_Suc_eq_le)
    ultimately obtain k where "?busy k" "\<forall>j. ?busy j \<longrightarrow> wanted_rank rank (ts ! j) \<le> wanted_rank rank (ts ! k)"
      using ex_has_greatest_nat [of ?busy i "\<lambda>i. wanted_rank rank (ts ! i)"] by blast
    then show False using blocked_below [OF disc stuck, of k] by force
  qed
  moreover have "holding (ts ! i) = []" if "i < length ts" "todo (ts ! i) = []" for i
    using disc that by (auto simp: disciplined_threads_def dest!: spec [of _ i])
  ultimately show ?thesis by (simp add: all_done_def list_all_length)
qed

text \<open>Conflicting accesses need locks that exclude each other.\<close>

lemma guarded_no_race:
  assumes disc: "disciplined_threads rank ok ts" and excl: "exclusive_ok ts"
    and apart: "\<And>i j hs hs' w. i \<noteq> j \<Longrightarrow> ok i hs x True \<Longrightarrow> ok j hs' x w \<Longrightarrow>
      \<exists>l. (l, Exclusive) \<in> set hs \<and> l \<in> set (map fst hs')"
  shows "\<not> racing ts x"
proof
  assume "racing ts x"
  then obtain i j w where ij: "i < length ts" "j < length ts" "i \<noteq> j"
      "take 1 (todo (ts ! i)) = [Access x True]" "take 1 (todo (ts ! j)) = [Access x w]"
    by (auto simp: racing_def list_ex_iff)
  have "ok k (holding (ts ! k)) x v" if "k < length ts" "take 1 (todo (ts ! k)) = [Access x v]" for k v
    using disc that by (cases "todo (ts ! k)") (auto simp: disciplined_threads_def dest!: spec [of _ k])
  then have "\<exists>l. (l, Exclusive) \<in> set (holding (ts ! i)) \<and> l \<in> set (map fst (holding (ts ! j)))"
    using apart [OF ij(3)] ij by blast
  then show False using excl ij(1-3) by (auto simp: exclusive_ok_def holds_exclusive_def has_lock_def)
qed

section \<open>Operations that keep the discipline\<close>

text \<open>
  \<open>may_do i op\<close> says which thread may run which operation; \<open>safe x\<close> which variables are guarded.
\<close>

locale lock_discipline =
  fixes rank :: "'l \<Rightarrow> nat"
    and ok :: "nat \<Rightarrow> ('l \<times> lock_mode) list \<Rightarrow> 'v \<Rightarrow> bool \<Rightarrow> bool"
    and safe :: "'v \<Rightarrow> bool"
    and may_do :: "nat \<Rightarrow> 'op \<Rightarrow> bool"
    and locks_of :: "'op \<Rightarrow> ('l, 'v) lock_op list"
  assumes ordered: "may_do i op \<Longrightarrow> ordered_ops rank (ok i) [] (locks_of op)"
    and apart: "safe x \<Longrightarrow> i \<noteq> j \<Longrightarrow> ok i hs x True \<Longrightarrow> ok j hs' x w \<Longrightarrow>
      \<exists>l. (l, Exclusive) \<in> set hs \<and> l \<in> set (map fst hs')"
begin

definition permitted :: "'op list list \<Rightarrow> bool" where
  "permitted jobs \<longleftrightarrow> (\<forall>i < length jobs. list_all (may_do i) (jobs ! i))"

lemma start_disciplined: "permitted jobs \<Longrightarrow> disciplined_threads rank ok (start_threads locks_of jobs)"
  by (auto simp: disciplined_threads_def start_threads_def permitted_def list_all_iff
      intro!: ordered_concat ordered)

lemma start_exclusive: "exclusive_ok (start_threads locks_of jobs)"
  by (simp add: exclusive_ok_def start_threads_def holds_exclusive_def)

lemma run_disciplined:
  "permitted jobs \<Longrightarrow> (lock_step pref ^^ n) (start_threads locks_of jobs) ts \<Longrightarrow> disciplined_threads rank ok ts"
  by (rule lock_runs.run_inv [OF _ start_disciplined])

lemma never_stuck:
  assumes "permitted jobs" and "(lock_step pref ^^ n) (start_threads locks_of jobs) ts"
    and "\<nexists>us. lock_step pref ts us"
  shows "all_done ts"
  using run_disciplined [OF assms(1,2)] assms(3) by (rule lock_progress)

lemma mutual_exclusion:
  "(lock_step pref ^^ n) (start_threads locks_of jobs) ts \<Longrightarrow> exclusive_ok ts"
  by (rule exclusive_run [OF _ start_exclusive])

lemma no_race:
  assumes "permitted jobs" and "(lock_step pref ^^ n) (start_threads locks_of jobs) ts" and "safe x"
  shows "\<not> racing ts x"
  using run_disciplined [OF assms(1,2)] mutual_exclusion [OF assms(2)]
  by (rule guarded_no_race) (rule apart [OF assms(3)])

lemma run_length:
  "permitted jobs \<Longrightarrow> (lock_step pref ^^ n) (start_threads locks_of jobs) ts \<Longrightarrow>
   n + lock_weight ts \<le> lock_weight (start_threads locks_of jobs)"
  by (rule lock_runs.run_bounded [OF _ start_disciplined])

lemma run_completes:
  assumes "permitted jobs"
  shows "\<exists>n ts. (lock_step pref ^^ n) (start_threads locks_of jobs) ts \<and> all_done ts"
  using lock_runs.run_ends [OF start_disciplined [OF assms], of pref] never_stuck [OF assms] by blast

end

end
