(* ===== verification/Server_Locks.thy ===== *)
theory Server_Locks
  imports Locks Server_Main
begin

text \<open>
  The locks and shared variables of the server's threads, from \<^verbatim>\<open>server/server.c\<close> and
  \<^verbatim>\<open>server/server_ctx.c\<close>: what each function locks, unlocks, reads and writes, in the order of its
  statements, for the main thread (number 0) and the workers. The theorems say that no execution
  deadlocks, whatever the events and however the threads interleave, and which variables are free
  of data races; the ones that are not are shown racing.
\<close>

section \<open>Locks and variables\<close>

datatype server_lock = HwLock | TrackerLock | CsvLock | StateLock | QMutex | UiMutex

text \<open>
  \<open>Week\<close> stands for \<^verbatim>\<open>current_hw\<close>, \<^verbatim>\<open>ans_path\<close> and \<^verbatim>\<open>submit_dir\<close>; \<open>Counters\<close> for \<^verbatim>\<open>submitted_count\<close>
  and \<^verbatim>\<open>total_students\<close>; \<open>Csv_Stat\<close> for \<^verbatim>\<open>total_records\<close> and \<^verbatim>\<open>last_write_ts\<close>; \<open>Ring\<close> for the slots of the
  queue and its two ends; \<open>Status\<close> for \<^verbatim>\<open>thread_status\<close> and \<^verbatim>\<open>thread_task\<close>; \<open>Screen\<close> for the windows and
  the log file; \<open>Tm_Buffer\<close> for the broken-down time that \<^verbatim>\<open>localtime\<close> returns a pointer to, one object
  of the C library for all threads. \<^verbatim>\<open>timeout_seconds\<close> and \<^verbatim>\<open>g_paused\<close> are atomic; what is set before
  the first worker starts and only read afterwards is left out, and so are the library's own tables
  (the text of an error, the heap, the streams), which it keeps safe itself.
\<close>

datatype server_var =
    Week | Students | Counters | Csv_Fd | Csv_Stat | Dist_Paused | Ring | Q_Count | Status | Screen | Tm_Buffer

type_synonym server_ops = "(server_lock, server_var) lock_op list"

abbreviation rd :: "'v \<Rightarrow> ('l, 'v) lock_op" where "rd x \<equiv> Access x False"
abbreviation wr :: "'v \<Rightarrow> ('l, 'v) lock_op" where "wr x \<equiv> Access x True"

definition locked :: "'l \<Rightarrow> ('l, 'v) lock_op list \<Rightarrow> ('l, 'v) lock_op list" where
  "locked l ops = Acquire l Exclusive # ops @ [Release l]"

definition read_locked :: "'l \<Rightarrow> ('l, 'v) lock_op list \<Rightarrow> ('l, 'v) lock_op list" where
  "read_locked l ops = Acquire l Shared # ops @ [Release l]"

section \<open>The functions\<close>

definition ui_log_ops :: server_ops where
  "ui_log_ops = locked UiMutex [wr Screen]"

definition update_top_win_ops :: "bool \<Rightarrow> server_ops" where
  "update_top_win_ops shown = locked UiMutex (if shown then [rd Status, rd Q_Count, wr Screen] else [])"

definition enqueue_ops :: server_ops where
  "enqueue_ops = locked QMutex [wr Ring, wr Q_Count]"

text \<open>
  Each of the \<open>waits\<close> finds the queue empty, gives the mutex up and takes it again. Their number is
  left open, so every pattern of wake-ups, also spurious ones, is among the executions; that a
  job does wake a worker is not modelled here.
\<close>

definition dequeue_ops :: "nat \<Rightarrow> server_ops" where
  "dequeue_ops waits =
     locked QMutex (concat (replicate waits [rd Q_Count, Release QMutex, Acquire QMutex Exclusive])
       @ [rd Q_Count, wr Ring, wr Q_Count])"

text \<open>
  \<open>ctx_set_hw\<close>: whether an old results file was open and the new one opens. The main thread reads the
  new paths outside the lock, to make the directories and for its log line.
\<close>

definition set_hw_ops :: "bool \<Rightarrow> bool \<Rightarrow> server_ops" where
  "set_hw_ops had_csv opened =
     Acquire HwLock Exclusive # [wr Week, Release HwLock, rd Week]
     @ locked TrackerLock [wr Students, wr Counters]
     @ locked CsvLock (rd Csv_Fd # (if had_csv then [rd Csv_Fd, wr Csv_Fd] else [])
         @ [wr Csv_Fd, rd Csv_Fd] @ (if opened then [wr Csv_Stat] else []))
     @ [rd Week]"

text \<open>\<open>ctx_record_submission\<close>: whether the table is full and whether this is the first accepted one.\<close>

definition record_ops :: "bool \<Rightarrow> bool \<Rightarrow> server_ops" where
  "record_ops full first_ac =
     locked TrackerLock (rd Students # (if full then [] else wr Students #
       (if first_ac then [wr Counters, rd Counters] else [])))"

text \<open>
  The descriptor is looked at, and the time stamp made, before the mutex is taken: \<^verbatim>\<open>localtime\<close> fills the
  shared object and \<^verbatim>\<open>strftime\<close> reads it.
\<close>

definition time_stamp_ops :: server_ops where
  "time_stamp_ops = [wr Tm_Buffer, rd Tm_Buffer]"

datatype csv_outcome = Csv_Closed | Csv_Failed | Csv_Written

definition write_csv_ops :: "csv_outcome \<Rightarrow> server_ops" where
  "write_csv_ops c =
     rd Csv_Fd # (if c = Csv_Closed then []
       else time_stamp_ops @ locked CsvLock (rd Csv_Fd # (if c = Csv_Written then [wr Csv_Stat] else [])))"

datatype record_outcome = Week_Changed | Recorded bool bool csv_outcome

fun build_and_send_ops :: "record_outcome \<Rightarrow> server_ops" where
  "build_and_send_ops Week_Changed =
     read_locked HwLock [rd Week, rd Week] @ locked TrackerLock [rd Counters]"
| "build_and_send_ops (Recorded full first_ac c) =
     read_locked HwLock (rd Week # record_ops full first_ac @ write_csv_ops c) @ locked TrackerLock [rd Counters]"

definition read_week_ops :: server_ops where
  "read_week_ops = read_locked HwLock [rd Week]"

definition get_tracker_ops :: server_ops where
  "get_tracker_ops =
     locked TrackerLock [rd Counters] @ read_week_ops @ locked CsvLock [rd Csv_Stat] @ locked TrackerLock [rd Students]"

text \<open>Whether a row has been written since the last switch.\<close>

definition get_csv_stat_ops :: "bool \<Rightarrow> server_ops" where
  "get_csv_stat_ops written = locked CsvLock [rd Csv_Stat] @ (if written then time_stamp_ops else [])"

section \<open>The threads\<close>

datatype server_op =
    Ui_Log | Update_Top_Win bool | Enqueue | Dequeue nat | Set_Status | Read_Week
  | Send_Result record_outcome | Set_Hw bool bool | Reply_Week | Set_Students | Get_Tracker
  | Get_Csv_Stat bool | Toggle_Dist

fun server_op_ops :: "server_op \<Rightarrow> server_ops" where
  "server_op_ops Ui_Log = ui_log_ops"
| "server_op_ops (Update_Top_Win shown) = update_top_win_ops shown"
| "server_op_ops Enqueue = enqueue_ops"
| "server_op_ops (Dequeue waits) = dequeue_ops waits"
| "server_op_ops Set_Status = [wr Status]"
| "server_op_ops Read_Week = read_week_ops"
| "server_op_ops (Send_Result r) = build_and_send_ops r"
| "server_op_ops (Set_Hw had_csv opened) = set_hw_ops had_csv opened"
| "server_op_ops Reply_Week = [rd Week, rd Week]"
| "server_op_ops Set_Students = locked TrackerLock [wr Counters]"
| "server_op_ops Get_Tracker = get_tracker_ops"
| "server_op_ops (Get_Csv_Stat written) = get_csv_stat_ops written"
| "server_op_ops Toggle_Dist = locked StateLock [rd Dist_Paused, wr Dist_Paused, rd Dist_Paused]"

text \<open>
  How \<open>handle_client\<close> ends: the connection closes early, a download, no workspace, a compile error,
  or a graded run with the number of monitor events its drain prints. The Boolean fields are whether
  the source file opened, whether the monitor failed to attach and whether it exists at all, whether
  the program ended by itself with status 0.
\<close>

datatype client_path =
    No_Header
  | Pull_Closed
  | Pull
  | Submit_Closed
  | No_Workspace
  | Compile_Error bool record_outcome
  | Graded bool bool bool nat bool record_outcome

definition receive_ops :: "bool \<Rightarrow> server_op list" where
  "receive_ops src_open =
     [Ui_Log, Read_Week, Ui_Log] @ (if src_open then [Ui_Log, Ui_Log] else []) @ [Ui_Log, Ui_Log, Ui_Log]"

fun handle_client_ops :: "client_path \<Rightarrow> server_op list" where
  "handle_client_ops No_Header = [Ui_Log, Read_Week]"
| "handle_client_ops Pull_Closed = [Ui_Log, Read_Week]"
| "handle_client_ops Pull = [Ui_Log, Read_Week, Read_Week]"
| "handle_client_ops Submit_Closed = [Ui_Log, Read_Week]"
| "handle_client_ops No_Workspace = [Ui_Log, Read_Week, Ui_Log]"
| "handle_client_ops (Compile_Error src_open r) =
     receive_ops src_open @ [Ui_Log, Ui_Log, Ui_Log, Send_Result r]"
| "handle_client_ops (Graded src_open no_attach skel n_events ended_0 r) =
     receive_ops src_open @ (if no_attach then [Ui_Log] else []) @ [Ui_Log]
     @ (if skel then [Ui_Log] else []) @ [Ui_Log, Ui_Log, Ui_Log] @ replicate n_events Ui_Log
     @ (if ended_0 then [Read_Week] else []) @ [Ui_Log, Send_Result r]"

text \<open>One turn of a worker's loop.\<close>

definition worker_ops :: "bool \<Rightarrow> nat \<times> client_path \<Rightarrow> server_op list" where
  "worker_ops shown job =
     [Set_Status, Update_Top_Win shown, Dequeue (fst job), Set_Status, Set_Status, Update_Top_Win shown]
     @ handle_client_ops (snd job)"

text \<open>
  A control request: the guards are those of the handler; the flags say whether a results file was
  open, whether the new one opens, and whether a row has been written.
\<close>

definition ctl_ops :: "bool \<Rightarrow> bool \<Rightarrow> bool \<Rightarrow> IpcRequest \<Rightarrow> server_op list" where
  "ctl_ops had_csv opened written req =
     (if rq_cmd req = ipc_cmd CMD_SET_HW
      then (if set_hw_arg (rq_payload req) = [] then [] else [Set_Hw had_csv opened, Reply_Week])
      else if rq_cmd req = ipc_cmd CMD_SET_STUDENTS
      then (let n = atoi (rq_payload req) in if n \<le> 0 \<or> n > int MAX_STUDENTS then [] else [Set_Students])
      else if rq_cmd req = ipc_cmd CMD_GET_TRACKER then [Get_Tracker]
      else if rq_cmd req = ipc_cmd CMD_GET_CSV_STAT then [Get_Csv_Stat written]
      else if rq_cmd req = ipc_cmd CMD_TOGGLE_DIST then [Toggle_Dist]
      else [])"

datatype main_event = Accepted | Control bool bool bool IpcRequest

fun main_ops :: "main_event \<Rightarrow> server_op list" where
  "main_ops Accepted = [Enqueue]"
| "main_ops (Control had_csv opened written req) = ctl_ops had_csv opened written req"

text \<open>The main thread sets the status of a worker to idle before it starts it; the workers before it are then running.\<close>

definition start_ops :: "server_op list" where
  "start_ops = replicate NUM_THREADS Set_Status"

definition server_jobs :: "bool \<Rightarrow> main_event list \<Rightarrow> (nat \<times> client_path) list list \<Rightarrow> server_op list list" where
  "server_jobs shown evs jobs =
     (start_ops @ concat (map main_ops evs)) # map (\<lambda>js. concat (map (worker_ops shown) js)) jobs"

definition server_threads ::
  "bool \<Rightarrow> main_event list \<Rightarrow> (nat \<times> client_path) list list \<Rightarrow> (server_lock, server_var) thread list" where
  "server_threads shown evs jobs = start_threads server_op_ops (server_jobs shown evs jobs)"

section \<open>The discipline\<close>

fun server_rank :: "server_lock \<Rightarrow> nat" where
  "server_rank HwLock = 0"
| "server_rank TrackerLock = 1"
| "server_rank CsvLock = 2"
| "server_rank StateLock = 3"
| "server_rank QMutex = 4"
| "server_rank UiMutex = 5"

text \<open>The variables with a lock of their own. The week is written by the main thread only, which may read it freely.\<close>

fun guard_of :: "server_var \<Rightarrow> server_lock option" where
  "guard_of Students = Some TrackerLock"
| "guard_of Counters = Some TrackerLock"
| "guard_of Csv_Stat = Some CsvLock"
| "guard_of Dist_Paused = Some StateLock"
| "guard_of Ring = Some QMutex"
| "guard_of Screen = Some UiMutex"
| "guard_of _ = None"

definition server_access_ok :: "nat \<Rightarrow> (server_lock \<times> lock_mode) list \<Rightarrow> server_var \<Rightarrow> bool \<Rightarrow> bool" where
  "server_access_ok i hs x w =
     (if x = Week then (if w then i = 0 \<and> (HwLock, Exclusive) \<in> set hs else i = 0 \<or> HwLock \<in> set (map fst hs))
      else case guard_of x of Some l \<Rightarrow> (l, Exclusive) \<in> set hs | None \<Rightarrow> True)"

definition guarded_var :: "server_var \<Rightarrow> bool" where
  "guarded_var x \<longleftrightarrow> x = Week \<or> guard_of x \<noteq> None"

fun server_may_do :: "nat \<Rightarrow> server_op \<Rightarrow> bool" where
  "server_may_do i (Set_Hw _ _) = (i = 0)"
| "server_may_do i Reply_Week = (i = 0)"
| "server_may_do i _ = True"

lemmas server_ops_defs =
  ui_log_ops_def update_top_win_ops_def enqueue_ops_def set_hw_ops_def record_ops_def write_csv_ops_def
  read_week_ops_def get_tracker_ops_def get_csv_stat_ops_def time_stamp_ops_def locked_def read_locked_def

lemma dequeue_ordered: "ordered_ops server_rank (server_access_ok i) [] (dequeue_ops waits)"
proof -
  have "ordered_ops server_rank (server_access_ok i) [(QMutex, Exclusive)]
      (concat (replicate waits [rd Q_Count, Release QMutex, Acquire QMutex Exclusive])
        @ [rd Q_Count, wr Ring, wr Q_Count] @ [Release QMutex])"
    by (induction waits) (auto simp: server_access_ok_def)
  then show ?thesis by (simp add: dequeue_ops_def locked_def)
qed

lemma send_result_ordered: "ordered_ops server_rank (server_access_ok i) [] (build_and_send_ops r)"
  by (cases r) (auto simp: server_ops_defs server_access_ok_def)

lemma server_op_ordered:
  "server_may_do i op \<Longrightarrow> ordered_ops server_rank (server_access_ok i) [] (server_op_ops op)"
  by (cases op) (auto simp: dequeue_ordered send_result_ordered server_ops_defs server_access_ok_def)

interpretation server_discipline:
  lock_discipline server_rank server_access_ok guarded_var server_may_do server_op_ops
proof
  show "ordered_ops server_rank (server_access_ok i) [] (server_op_ops op)" if "server_may_do i op" for i op
    using that by (rule server_op_ordered)
  show "\<exists>l. (l, Exclusive) \<in> set hs \<and> l \<in> set (map fst hs')"
    if "guarded_var x" "i \<noteq> j" "server_access_ok i hs x True" "server_access_ok j hs' x w" for x i j hs hs' w
    using that by (cases "x = Week")
      (force simp: guarded_var_def server_access_ok_def image_iff split: if_splits)+
qed

lemma server_permitted: "server_discipline.permitted (server_jobs shown evs jobs)"
proof -
  have receive: "list_all (server_may_do i) (receive_ops b)" for i b
    by (simp add: receive_ops_def)
  have client: "list_all (server_may_do i) (handle_client_ops p)" for i p
    using receive [of i] by (cases p) (auto simp: list_all_iff)
  have worker: "list_all (server_may_do i) (worker_ops shown job)" for i job
    by (simp add: worker_ops_def client)
  have ctl: "list_all (server_may_do 0) (ctl_ops had_csv opened written req)" for had_csv opened written req
    by (simp add: ctl_ops_def Let_def)
  have main: "list_all (server_may_do 0) (main_ops e)" for e
    by (cases e) (simp_all add: ctl)
  have start: "list_all (server_may_do 0) start_ops"
    by (simp add: start_ops_def list_all_iff)
  show ?thesis using worker main start
    by (auto simp: server_discipline.permitted_def server_jobs_def list_all_iff nth_Cons split: nat.splits)
qed

text \<open>C23: The server does not deadlock: in whatever order its main thread and its workers take
  their turns, every state they reach either lets some thread go on or is the end, where all the
  work is done and all locks are given back; no lock that one thread holds exclusively is held by another;
  and a run has at most as many steps as the threads have
  operations. This holds whether or not waiting writers keep readers out.\<close>

theorem server_never_deadlocks:
  assumes "(lock_step pref ^^ n) (server_threads shown evs jobs) ts"
  shows "((\<exists>us. lock_step pref ts us) \<or> all_done ts) \<and> exclusive_ok ts \<and>
    n + lock_weight ts \<le> lock_weight (server_threads shown evs jobs)"
  using server_discipline.never_stuck server_discipline.run_length server_discipline.mutual_exclusion
    server_permitted assms
  unfolding server_threads_def by blast

definition three_threads :: "(server_lock, server_var) thread list" where
  "three_threads = server_threads True [Accepted] [[(1, Pull)], [(0, No_Header)]]"

lemma server_never_deadlocks_witness:
  "let ts = the (run_schedule True [0, 0, 1, 1, 2] three_threads)
   in ((\<exists>us. lock_step True ts us) \<or> all_done ts) \<and> exclusive_ok ts \<and> 5 + lock_weight ts \<le> lock_weight three_threads"
proof -
  have "run_schedule True [0, 0, 1, 1, 2] three_threads \<noteq> None" by code_simp
  then obtain ts where ts: "run_schedule True [0, 0, 1, 1, 2] three_threads = Some ts" by blast
  show ?thesis using server_never_deadlocks [OF run_schedule_sound [OF ts, unfolded three_threads_def]] ts
    by (simp add: three_threads_def)
qed


definition two_workers :: "(server_lock, server_var) thread list" where
  "two_workers = server_threads True [] [[(0, No_Header)], [(0, No_Header)]]"


text \<open>The four are raced for: while the week is set again, a worker looks at the descriptor; while a
  job is queued, a worker prints how many there are; while a worker sets its status, another does
  too; and two workers that record a grade, both readers of the week, fill in the time at once.\<close>

definition set_week_3 :: IpcRequest where
  "set_week_3 = \<lparr>rq_cmd = ipc_cmd CMD_SET_HW, rq_payload = ''week_3'' @ [NUL]\<rparr>"

lemma reaches_race:
  assumes "case run_schedule pref sch ts of Some us \<Rightarrow> racing us x | None \<Rightarrow> False"
  shows "\<exists>n us. (lock_step pref ^^ n) ts us \<and> racing us x"
proof (cases "run_schedule pref sch ts")
  case (Some us)
  then show ?thesis using assms run_schedule_sound [OF Some] by auto
qed (use assms in simp)

lemma csv_fd_races:
  "\<exists>n us. (lock_step True ^^ n) (server_threads False [Control True True True set_week_3]
      [[(0, Compile_Error False (Recorded False False Csv_Closed))]]) us \<and> racing us Csv_Fd"
  by (rule reaches_race [where sch = "replicate 15 0 @ replicate 45 1"]) code_simp

lemma q_count_races:
  "\<exists>n us. (lock_step True ^^ n) (server_threads True [Accepted] [[(0, No_Header)]]) us \<and> racing us Q_Count"
  by (rule reaches_race [where sch = "replicate 4 0 @ [0, 0, 1, 1, 1]"]) code_simp

lemma time_races:
  "\<exists>n us. (lock_step True ^^ n) (server_threads False []
      [[(0, Compile_Error False (Recorded False False Csv_Written))],
       [(0, Compile_Error False (Recorded False False Csv_Written))]]) us \<and> racing us Tm_Buffer"
  by (rule reaches_race [where sch = "replicate 46 1 @ replicate 46 2"]) code_simp

end
