(* ===== verification/Dashboard_Locks.thy ===== *)
theory Dashboard_Locks
  imports Locks Dashboard
begin

text \<open>
  The locks and shared variables of the two threads of the dashboard, from \<^verbatim>\<open>minici-tui.c\<close>: the
  main thread (number 0), which draws and answers the keys, and the poller, which fetches the
  server's state once a second.
\<close>

section \<open>Locks and variables\<close>

datatype tui_lock = UiMu | SnapMu

text \<open>
  \<open>Snapshot\<close> is \<^verbatim>\<open>g_snap\<close>, \<open>Staged\<close> the two staged values, \<open>Deadline\<close> and \<open>Testsh\<close> the displayed ones,
  \<open>Tui_Running\<close> the flag \<^verbatim>\<open>tui_running\<close>, a volatile integer that no mutex guards, \<open>Poll_Efd\<close> the
  descriptor by which the poller wakes the main thread. These are all the static variables the two
  threads share once the poller runs; the menu, the colours and the server's answers are constant
  or local.
\<close>

datatype tui_var = Windows | Snapshot | Staged | Deadline | Testsh | Tui_Running | Poll_Efd

type_synonym tui_ops = "(tui_lock, tui_var) lock_op list"

abbreviation lock_read :: "'v \<Rightarrow> ('l, 'v) lock_op" where "lock_read x \<equiv> Access x False"
abbreviation lock_write :: "'v \<Rightarrow> ('l, 'v) lock_op" where "lock_write x \<equiv> Access x True"

definition under :: "'l \<Rightarrow> ('l, 'v) lock_op list \<Rightarrow> ('l, 'v) lock_op list" where
  "under l ops = Acquire l Exclusive # ops @ [Release l]"

section \<open>The functions\<close>

definition draw_hdr_ops :: tui_ops where
  "draw_hdr_ops = under SnapMu [lock_read Snapshot, lock_read Deadline] @ [lock_write Windows]"

text \<open>A window that is too small is cleared and nothing more.\<close>

definition draw_info_ops :: "bool \<Rightarrow> tui_ops" where
  "draw_info_ops wide =
     lock_write Windows #
     (if wide then under SnapMu [lock_read Snapshot, lock_read Staged, lock_read Staged, lock_read Testsh] @ [lock_write Windows]
      else [])"

definition safe_draw_all_ops :: "bool \<Rightarrow> tui_ops" where
  "safe_draw_all_ops wide = under UiMu (draw_hdr_ops @ draw_info_ops wide)"

definition log_msg_ops :: tui_ops where
  "log_msg_ops = under UiMu [lock_write Windows]"

definition draw_menu_ops :: "bool \<Rightarrow> tui_ops" where
  "draw_menu_ops wide = under UiMu (lock_write Windows # draw_info_ops wide @ [lock_write Windows])"

definition popup_ops :: tui_ops where
  "popup_ops = under UiMu [lock_write Windows]"

text \<open>
  The poller: it looks at the flag at the top of each round; whether the server answers decides
  whether there is something to store. The last look finds the flag cleared. The main thread clears
  it when the dashboard is closed, and looks at the poller's descriptor in every round of its own.
\<close>

definition poll_ops :: "bool \<Rightarrow> tui_ops" where
  "poll_ops answers =
     lock_read Tui_Running # (if answers then under SnapMu [lock_write Snapshot] @ [lock_read Poll_Efd] else [])"

definition last_look_ops :: tui_ops where
  "last_look_ops = [lock_read Tui_Running]"

definition quit_ops :: tui_ops where
  "quit_ops = [lock_write Tui_Running]"

definition wake_ops :: "bool \<Rightarrow> bool \<Rightarrow> tui_ops" where
  "wake_ops woken wide = lock_read Poll_Efd # (if woken then safe_draw_all_ops wide else [])"

definition stage_week_ops :: "bool \<Rightarrow> bool \<Rightarrow> bool \<Rightarrow> tui_ops" where
  "stage_week_ops entered valid wide =
     popup_ops
     @ (if entered then (if valid then under SnapMu [lock_write Staged] else []) @ log_msg_ops else [])
     @ safe_draw_all_ops wide"

definition stage_script_ops :: "bool \<Rightarrow> bool \<Rightarrow> tui_ops" where
  "stage_script_ops chosen wide =
     popup_ops @ (if chosen then under SnapMu [lock_write Staged] else []) @ log_msg_ops @ safe_draw_all_ops wide"

text \<open>Whether a week is staged, and the server's answer: none, or whether it accepts and a script is staged.\<close>

definition deploy_ops :: "bool \<Rightarrow> (bool \<times> bool) option \<Rightarrow> bool \<Rightarrow> tui_ops" where
  "deploy_ops staged answer wide =
     under SnapMu [lock_read Staged]
     @ (case answer of
          Some (True, script) \<Rightarrow>
            if staged then under SnapMu (lock_read Staged #
              (if script then [lock_read Staged, lock_write Testsh] else []) @ [lock_write Staged]) else []
        | _ \<Rightarrow> [])
     @ log_msg_ops @ safe_draw_all_ops wide"

definition set_deadline_ops :: "bool \<Rightarrow> bool \<Rightarrow> tui_ops" where
  "set_deadline_ops entered wide =
     popup_ops @ (if entered then [lock_write Deadline] else []) @ safe_draw_all_ops wide"

text \<open>\<open>distribute_testsh\<close> reads the week of the snapshot, twice, without the mutex.\<close>

definition distribute_ops :: "bool \<Rightarrow> bool \<Rightarrow> tui_ops" where
  "distribute_ops configured wide =
     lock_read Testsh # (if configured then [lock_read Snapshot, lock_read Snapshot, lock_read Testsh, lock_read Testsh] else [])
     @ log_msg_ops @ safe_draw_all_ops wide"

definition run_ipc_ops :: "bool \<Rightarrow> bool \<Rightarrow> bool \<Rightarrow> tui_ops" where
  "run_ipc_ops needs_input entered wide =
     (if needs_input then popup_ops else [])
     @ (if needs_input \<and> \<not> entered then [] else log_msg_ops) @ safe_draw_all_ops wide"

section \<open>The threads\<close>

datatype tui_op =
    Draw_All bool | Wake bool bool | Draw_Menu bool | Get_Key
  | Stage_Week bool bool bool | Stage_Script bool bool | Deploy bool "(bool \<times> bool) option" bool
  | Set_Deadline bool bool | Distribute bool bool | Run_Ipc bool bool bool
  | Poll_Server bool | Last_Look | Quit

fun tui_op_ops :: "tui_op \<Rightarrow> tui_ops" where
  "tui_op_ops (Draw_All wide) = safe_draw_all_ops wide"
| "tui_op_ops (Wake woken wide) = wake_ops woken wide"
| "tui_op_ops (Draw_Menu wide) = draw_menu_ops wide"
| "tui_op_ops Get_Key = [lock_write Windows]"
| "tui_op_ops (Stage_Week entered valid wide) = stage_week_ops entered valid wide"
| "tui_op_ops (Stage_Script chosen wide) = stage_script_ops chosen wide"
| "tui_op_ops (Deploy staged answer wide) = deploy_ops staged answer wide"
| "tui_op_ops (Set_Deadline entered wide) = set_deadline_ops entered wide"
| "tui_op_ops (Distribute configured wide) = distribute_ops configured wide"
| "tui_op_ops (Run_Ipc needs_input entered wide) = run_ipc_ops needs_input entered wide"
| "tui_op_ops (Poll_Server answers) = poll_ops answers"
| "tui_op_ops Last_Look = last_look_ops"
| "tui_op_ops Quit = quit_ops"

definition is_poll :: "tui_op \<Rightarrow> bool" where
  "is_poll op = (case op of Poll_Server _ \<Rightarrow> True | Last_Look \<Rightarrow> True | _ \<Rightarrow> False)"

definition is_distribute :: "tui_op \<Rightarrow> bool" where
  "is_distribute op = (case op of Distribute _ _ \<Rightarrow> True | _ \<Rightarrow> False)"

text \<open>What the main thread does until it is told to quit, and what the poller's rounds find.\<close>

definition tui_jobs :: "tui_op list \<Rightarrow> bool list \<Rightarrow> tui_op list list" where
  "tui_jobs ops polls = [ops @ [Quit], map Poll_Server polls @ [Last_Look]]"

definition tui_threads :: "tui_op list \<Rightarrow> bool list \<Rightarrow> (tui_lock, tui_var) thread list" where
  "tui_threads ops polls = start_threads tui_op_ops (tui_jobs ops polls)"

section \<open>The discipline\<close>

fun tui_rank :: "tui_lock \<Rightarrow> nat" where
  "tui_rank UiMu = 0"
| "tui_rank SnapMu = 1"

text \<open>
  All but the snapshot, the flag and the descriptor is the main thread's own, and the descriptor is
  not written any more. The discipline is \<open>strict\<close> when the snapshot, too, is only accessed under
  its mutex; the item that copies the script does not keep that one. The flag has no guard.
\<close>

definition tui_access_ok :: "bool \<Rightarrow> nat \<Rightarrow> (tui_lock \<times> lock_mode) list \<Rightarrow> tui_var \<Rightarrow> bool \<Rightarrow> bool" where
  "tui_access_ok strict i hs x w =
     (if x = Snapshot then \<not> strict \<or> (SnapMu, Exclusive) \<in> set hs
      else if x = Tui_Running then w \<longrightarrow> i = 0
      else if x = Poll_Efd then \<not> w
      else i = 0)"

definition tui_guarded :: "bool \<Rightarrow> tui_var \<Rightarrow> bool" where
  "tui_guarded strict x \<longleftrightarrow> x \<noteq> Tui_Running \<and> (strict \<or> x \<noteq> Snapshot)"

definition tui_may_do :: "bool \<Rightarrow> nat \<Rightarrow> tui_op \<Rightarrow> bool" where
  "tui_may_do strict i op \<longleftrightarrow> (i = 0 \<or> is_poll op) \<and> \<not> (strict \<and> is_distribute op)"

lemmas tui_ops_defs =
  draw_hdr_ops_def draw_info_ops_def safe_draw_all_ops_def log_msg_ops_def draw_menu_ops_def popup_ops_def
  poll_ops_def stage_week_ops_def stage_script_ops_def deploy_ops_def set_deadline_ops_def distribute_ops_def
  run_ipc_ops_def last_look_ops_def quit_ops_def wake_ops_def under_def

lemma tui_op_ordered:
  "tui_may_do strict i op \<Longrightarrow> ordered_ops tui_rank (tui_access_ok strict i) [] (tui_op_ops op)"
  by (cases op)
     (auto simp: tui_may_do_def is_poll_def is_distribute_def tui_access_ok_def tui_ops_defs split: option.splits bool.splits)

interpretation tui_discipline:
  lock_discipline tui_rank "tui_access_ok strict" "tui_guarded strict" "tui_may_do strict" tui_op_ops for strict
proof
  show "ordered_ops tui_rank (tui_access_ok strict i) [] (tui_op_ops op)" if "tui_may_do strict i op" for i op
    using that by (rule tui_op_ordered)
  show "\<exists>l. (l, Exclusive) \<in> set hs \<and> l \<in> set (map fst hs')"
    if "tui_guarded strict x" "i \<noteq> j" "tui_access_ok strict i hs x True" "tui_access_ok strict j hs' x w"
    for x i j hs hs' w
    using that by (force simp: tui_guarded_def tui_access_ok_def image_iff split: if_splits)
qed

lemma tui_permitted:
  assumes "\<not> (strict \<and> list_ex is_distribute ops)"
  shows "tui_discipline.permitted strict (tui_jobs ops polls)"
  using assms
  by (auto simp: tui_jobs_def tui_discipline.permitted_def tui_may_do_def is_poll_def is_distribute_def list_all_iff
      list_ex_iff nth_Cons split: nat.splits)

text \<open>C33: The dashboard's two threads do not deadlock, whatever is pressed and answered. They race
  for two variables only: for the flag that ends the poller, when the dashboard is closed, and for
  the snapshot of the server's state, when the item that copies the script to the students is
  used. Nothing else is ever accessed by both at once, and without that item the snapshot is not
  either.\<close>

theorem dashboard_threads_sound:
  assumes "(lock_step pref ^^ n) (tui_threads ops polls) ts"
  shows "((\<exists>us. lock_step pref ts us) \<or> all_done ts) \<and>
    (racing ts x \<longrightarrow> x = Tui_Running \<or> x = Snapshot \<and> list_ex is_distribute ops)"
proof -
  have run: "(lock_step pref ^^ n) (start_threads tui_op_ops (tui_jobs ops polls)) ts"
    using assms by (simp add: tui_threads_def)
  have "\<not> racing ts x" if "x \<noteq> Tui_Running" "x \<noteq> Snapshot \<or> \<not> list_ex is_distribute ops"
    using that tui_discipline.no_race [OF tui_permitted run, of _ x] unfolding tui_guarded_def by blast
  then show ?thesis
    using tui_discipline.never_stuck [OF tui_permitted run, of False] by blast
qed

definition copying_threads :: "(tui_lock, tui_var) thread list" where
  "copying_threads = tui_threads [Distribute True True] [True]"

lemma copying_races: "racing (the (run_schedule True [0, 1, 1] copying_threads)) Snapshot"
  by code_simp

lemma dashboard_threads_sound_witness:
  "let ts = the (run_schedule True [0, 1, 1] copying_threads)
   in ((\<exists>us. lock_step True ts us) \<or> all_done ts) \<and> racing ts Snapshot \<and> list_ex is_distribute [Distribute True True]"
proof -
  have "run_schedule True [0, 1, 1] copying_threads \<noteq> None" by code_simp
  then obtain ts where ts: "run_schedule True [0, 1, 1] copying_threads = Some ts" by blast
  show ?thesis
    using dashboard_threads_sound [OF run_schedule_sound [OF ts, unfolded copying_threads_def], of Snapshot]
      copying_races ts by simp
qed

text \<open>Closing the dashboard at once: the main thread is about to clear the flag, the poller to look at it.\<close>

lemma quit_races: "racing (tui_threads [] polls) Tui_Running"
  by (cases polls)
    (simp_all add: racing_def tui_threads_def tui_jobs_def start_threads_def tui_ops_defs)

end
