(* ===== verification/Legacy_Server.thy ===== *)
theory Legacy_Server
  imports Client_Submit
begin

text \<open>
  The single-file server in the repository's root directory, \<^verbatim>\<open>server.c\<close>: one thread per connection, the
  source in one \<open>recv\<close>, compiler and program in a child process, one textual answer. Compiler and
  program are parameters of \<open>legacy_env\<close>, as are the calls that may fail. A process that has entered a new PID name
  space can create one child only in it: the second \<open>fork\<close> after the first child has ended fails
  (pid_namespaces(7)). What the code then reads of its uninitialised variables is \<open>lj_garbage\<close>. \<open>None\<close>
  is a handler that never ends.
\<close>

section \<open>C strings: position of a substring, numbers with scanf\<close>

fun strstr_at :: "string \<Rightarrow> string \<Rightarrow> nat option" where
  "strstr_at s needle =
     (if take (length needle) s = needle then Some 0
      else case s of [] \<Rightarrow> None | _ # cs \<Rightarrow> map_option Suc (strstr_at cs needle))"

declare strstr_at.simps [simp del]

text \<open>\<open>%ld\<close>: white space, a sign, digits; the value saturates, and what follows is still to be read.\<close>

definition scan_ld :: "string \<Rightarrow> (int \<times> string) option" where
  "scan_ld s =
     (let t = dropWhile isspace s;
          neg = (case t of c # _ \<Rightarrow> c = CHR ''-'' | [] \<Rightarrow> False);
          u = (case t of c # r \<Rightarrow> if c = CHR ''-'' \<or> c = CHR ''+'' then r else t | [] \<Rightarrow> []);
          ds = takeWhile isdigit u;
          v = int (digits_val ds)
      in if ds = [] then None
         else Some (if neg then max (- (2 ^ 63)) (- v) else min (2 ^ 63 - 1) v, dropWhile isdigit u))"

definition scan_d :: "string \<Rightarrow> int option" where
  "scan_d s = map_option (\<lambda>(v, r). sint (word_of_int v :: 32 word)) (scan_ld s)"

section \<open>Wait statuses\<close>

definition WIFEXITED :: "u32 \<Rightarrow> bool" where
  "WIFEXITED st \<longleftrightarrow> st AND 0x7F = 0"

definition WEXITSTATUS :: "u32 \<Rightarrow> nat" where
  "WEXITSTATUS st = unat (drop_bit 8 st AND 0xFF)"

definition WIFSIGNALED :: "u32 \<Rightarrow> bool" where
  "WIFSIGNALED st \<longleftrightarrow> st AND 0x7F \<noteq> 0 \<and> st AND 0x7F \<noteq> 0x7F"

definition WTERMSIG :: "u32 \<Rightarrow> nat" where
  "WTERMSIG st = unat (st AND 0x7F)"

definition exit_status :: "nat \<Rightarrow> u32" where
  "exit_status n = push_bit 8 (of_nat n)"

section \<open>The child process\<close>

record legacy_env =
  lj_mkdtemp :: bool
  lj_fopen :: bool
  lj_privileged :: bool
  lj_pipe :: nat
  lj_gcc :: "string option \<Rightarrow> u32 \<times> string"
  lj_run :: "string option \<Rightarrow> (u32 \<times> string \<times> (int \<times> int) \<times> (int \<times> int)) option"
  lj_garbage :: "u32 \<times> (int \<times> int) \<times> (int \<times> int)"
  lj_usage_open :: bool

text \<open>Seconds and microseconds in milliseconds; C division rounds towards zero.\<close>

definition tv_ms :: "int \<times> int \<Rightarrow> int" where
  "tv_ms tv = fst tv * 1000 + (if snd tv < 0 then - (- snd tv div 1000) else snd tv div 1000)"

definition usage_code :: "u32 \<Rightarrow> int" where
  "usage_code st =
     (if WIFSIGNALED st \<and> WTERMSIG st = SIGALRM then 124
      else if WIFEXITED st then int (WEXITSTATUS st)
      else if WIFSIGNALED st then 128 + int (WTERMSIG st)
      else -1)"

definition usage_text :: "int \<Rightarrow> int \<Rightarrow> int \<Rightarrow> string" where
  "usage_text ut st c = dec_int ut @ [CHR 0x0A] @ dec_int st @ [CHR 0x0A] @ dec_int c @ [CHR 0x0A]"

record child_end =
  ch_status :: u32
  ch_pipe :: string
  ch_usage :: "string option"
  ch_output :: "string option"

definition child_done :: "legacy_env \<Rightarrow> string \<Rightarrow> u32 \<times> (int \<times> int) \<times> (int \<times> int) \<Rightarrow> string option \<Rightarrow> child_end" where
  "child_done env err res out =
     (case res of (xs, ut, stt) \<Rightarrow>
       \<lparr>ch_status = exit_status 0, ch_pipe = err,
        ch_usage = (if lj_usage_open env then Some (usage_text (tv_ms ut) (tv_ms stt) (usage_code xs)) else None),
        ch_output = out\<rparr>)"

text \<open>
  Nobody reads the pipe while the compiler writes to it. If it fails the child ends with 125; if it
  succeeds the program runs, unless the name space is gone.
\<close>

definition legacy_child :: "legacy_env \<Rightarrow> string option \<Rightarrow> child_end option" where
  "legacy_child env src =
     (let (st, err) = lj_gcc env src
      in if lj_pipe env < length err then None
         else if WIFEXITED st \<and> WEXITSTATUS st \<noteq> 0
           then Some \<lparr>ch_status = exit_status 125, ch_pipe = err, ch_usage = None, ch_output = None\<rparr>
         else if lj_privileged env then Some (child_done env err (lj_garbage env) None)
         else case lj_run env src of
             None \<Rightarrow> None
           | Some (xs, out, ut, stt) \<Rightarrow> Some (child_done env err (xs, ut, stt) (Some out)))"

section \<open>The answer\<close>

definition LEGACY_BUFFER :: nat where
  "LEGACY_BUFFER = 8192"

text \<open>The first \<open>source.c:\<close> that a number follows.\<close>

lemma strstr_at_bound: "strstr_at s needle = Some i \<Longrightarrow> i + length needle \<le> length s"
proof (induction s arbitrary: i)
  case (Cons c cs)
  then show ?case
    by (subst (asm) strstr_at.simps) (auto split: if_splits dest: arg_cong [where f = length])
qed (subst (asm) strstr_at.simps, auto split: if_splits)

function err_line_of :: "string \<Rightarrow> int" where
  "err_line_of ptr =
     (case strstr_at ptr ''source.c:'' of
        None \<Rightarrow> -1
      | Some i \<Rightarrow>
          (case scan_d (drop (i + 9) ptr) of
             Some n \<Rightarrow> n
           | None \<Rightarrow> err_line_of (drop (i + 9) ptr)))"
  by pat_completeness auto
termination
  by (relation "measure length") (auto dest!: strstr_at_bound)

declare err_line_of.simps [simp del]

definition hint_mark :: string where
  "hint_mark = (map char_of [240 :: nat, 159, 146, 161])"

definition hint_general :: string where
  "hint_general = hint_mark @
     ('' '' @ map char_of [237 :: nat, 158, 140, 237, 138, 184] @ '': '' @ map char_of [236 :: nat, 157,
     188, 235, 176, 152, 236, 160, 129, 236, 157, 184] @ '' '' @ map char_of [235 :: nat, 172, 184, 235,
     178, 149] @ '' '' @ map char_of [236 :: nat, 152, 164, 235, 165, 152, 236, 158, 133, 235, 139, 136,
     235, 139, 164] @ ''. '' @ map char_of [236 :: nat, 131, 129, 236, 132, 184] @ '' '' @ map char_of
     [235 :: nat, 161, 156, 234, 183, 184, 235, 165, 188] @ '' '' @ map char_of [237 :: nat, 153, 149,
     236, 157, 184, 237, 149, 180] @ '' '' @ map char_of [236 :: nat, 163, 188, 236, 132, 184, 236, 154,
     148] @ ''.'')"

definition hint_semicolon :: string where
  "hint_semicolon = hint_mark @
     ('' '' @ map char_of [237 :: nat, 158, 140, 237, 138, 184] @ '': '' @ map char_of [236 :: nat, 164,
     132] @ '' '' @ map char_of [235 :: nat, 129, 157, 236, 151, 144] @ '' '' @ map char_of [236 :: nat,
     132, 184, 235, 175, 184, 236, 189, 156, 235, 161, 160] @ ''(;)'' @ map char_of [236 :: nat, 157,
     180] @ '' '' @ map char_of [235 :: nat, 185, 160, 236, 167, 132] @ '' '' @ map char_of [234 :: nat,
     178, 131] @ '' '' @ map char_of [234 :: nat, 176, 153, 236, 138, 181, 235, 139, 136, 235, 139, 164]
     @ ''!'')"

definition hint_undeclared :: string where
  "hint_undeclared = hint_mark @
     ('' '' @ map char_of [237 :: nat, 158, 140, 237, 138, 184] @ '': '' @ map char_of [236 :: nat, 132,
     160, 236, 150, 184, 235, 144, 152, 236, 167, 128] @ '' '' @ map char_of [236 :: nat, 149, 138, 236,
     157, 128] @ '' '' @ map char_of [235 :: nat, 179, 128, 236, 136, 152, 235, 165, 188] @ '' '' @ map
     char_of [236 :: nat, 130, 172, 236, 154, 169, 237, 150, 136, 236, 138, 181, 235, 139, 136, 235,
     139, 164] @ ''. '' @ map char_of [236 :: nat, 152, 164, 237, 131, 128, 235, 130, 152] @ '' '' @ map
     char_of [235 :: nat, 179, 128, 236, 136, 152] @ '' '' @ map char_of [236 :: nat, 132, 160, 236,
     150, 184, 236, 157, 132] @ '' '' @ map char_of [237 :: nat, 153, 149, 236, 157, 184, 237, 149, 152,
     236, 132, 184, 236, 154, 148] @ ''!'')"

definition hint_bracket :: string where
  "hint_bracket = hint_mark @
     ('' '' @ map char_of [237 :: nat, 158, 140, 237, 138, 184] @ '': '' @ map char_of [234 :: nat, 180,
     132, 237, 152, 184, 234, 176, 128] @ '' '' @ map char_of [236 :: nat, 160, 156, 235, 140, 128, 235,
     161, 156] @ '' '' @ map char_of [235 :: nat, 139, 171, 237, 158, 136, 236, 167, 128] @ '' '' @ map
     char_of [236 :: nat, 149, 138, 236, 149, 152, 236, 138, 181, 235, 139, 136, 235, 139, 164] @ ''!'')"

definition hint_include :: string where
  "hint_include = hint_mark @
     ('' '' @ map char_of [237 :: nat, 158, 140, 237, 138, 184] @ '': '' @ map char_of [237 :: nat, 151,
     164, 235, 141, 148] @ '' '' @ map char_of [237 :: nat, 140, 140, 236, 157, 188] @ ''(#include)'' @
     map char_of [236 :: nat, 157, 180] @ '' '' @ map char_of [235 :: nat, 136, 132, 235, 157, 189, 235,
     144, 152, 236, 151, 136, 234, 177, 176, 235, 130, 152] @ '' '' @ map char_of [237 :: nat, 149, 168,
     236, 136, 152] @ '' '' @ map char_of [236 :: nat, 132, 160, 236, 150, 184, 236, 157, 180] @ '' '' @
     map char_of [236 :: nat, 151, 134, 236, 138, 181, 235, 139, 136, 235, 139, 164] @ ''!'')"

definition expected :: "string \<Rightarrow> string" where
  "expected what = ''expected '' @ [CHR 0x27] @ what @ [CHR 0x27]"

definition friendly_msg :: "string \<Rightarrow> string" where
  "friendly_msg err =
     (if strstr err (expected '','' @ '' or '' @ [CHR 0x27] @ '';'' @ [CHR 0x27]) then hint_semicolon
      else if strstr err ''undeclared'' then hint_undeclared
      else if strstr err (expected '')'') \<or> strstr err (expected ''}'') then hint_bracket
      else if strstr err ''implicit declaration'' then hint_include
      else hint_general)"

definition korean_mark :: string where
  "korean_mark = (''['' @ map char_of [237 :: nat, 149, 156, 234, 181, 173, 236, 150, 180] @ '' '' @ map char_of [236
     :: nat, 151, 144, 235, 159, 172] @ '' '' @ map char_of [234 :: nat, 176, 128, 236, 139, 156, 237,
     153, 148] @ '']'')"

definition msg_failed_at :: string where
  "msg_failed_at = ([CHR 0x0A] @ map char_of [236 :: nat, 187, 180, 237, 140, 140, 236, 157, 188] @ '' '' @ map char_of
     [236 :: nat, 164, 145] @ '' '' @ map char_of [236 :: nat, 151, 144, 235, 159, 172, 234, 176, 128] @
     '' '' @ map char_of [235 :: nat, 176, 156, 236, 131, 157, 237, 150, 136, 236, 138, 181, 235, 139,
     136, 235, 139, 164] @ ''.'' @ [CHR 0x0A] @ map char_of [236 :: nat, 151, 144, 235, 159, 172] @ ''
     '' @ map char_of [235 :: nat, 157, 188, 236, 157, 184] @ '': '')"

definition msg_line :: string where
  "msg_line = (map char_of [235 :: nat, 178, 136] @ '' '' @ map char_of [236 :: nat, 164, 132] @ [CHR 0x0A])"

definition compile_text :: "int \<Rightarrow> string \<Rightarrow> string \<Rightarrow> string" where
  "compile_text line hint err =
     ''COMPILE_ERROR'' @ [CHR 0x0A] @ ''LINE:'' @ dec_int line @ [CHR 0x0A, CHR 0x0A] @ korean_mark
     @ msg_failed_at @ dec_int line @ msg_line @ hint
     @ ([CHR 0x0A] @ [CHR 0x0A] @ map char_of [236 :: nat, 131, 129, 236, 132, 184] @ '' '' @ map char_of
     [235 :: nat, 161, 156, 234, 183, 184] @ '':'' @ [CHR 0x0A]) @ err"

definition timeout_text :: string where
  "timeout_text = ''RUNTIME_ERROR'' @
     ([CHR 0x0A] @ ''['' @ map char_of [236 :: nat, 139, 164, 237, 150, 137] @ '' '' @ map char_of [236
     :: nat, 139, 156, 234, 176, 132] @ '' '' @ map char_of [236 :: nat, 180, 136, 234, 179, 188] @
     '']'' @ [CHR 0x0A] @ map char_of [235 :: nat, 172, 180, 237, 149, 156] @ '' '' @ map char_of [235
     :: nat, 163, 168, 237, 148, 132] @ '' '' @ map char_of [237 :: nat, 152, 185, 236, 157, 128] @ ''
     '' @ map char_of [237 :: nat, 131, 128, 236, 158, 132, 236, 149, 132, 236, 155, 131] @ ''(2'' @ map
     char_of [236 :: nat, 180, 136] @ '')'' @ map char_of [236 :: nat, 157, 180] @ '' '' @ map char_of
     [235 :: nat, 176, 156, 236, 131, 157, 237, 149, 152, 236, 151, 172] @ '' '' @ map char_of [234 ::
     nat, 176, 149, 236, 160, 156] @ '' '' @ map char_of [236 :: nat, 162, 133, 235, 163, 140, 235, 144,
     152, 236, 151, 136, 236, 138, 181, 235, 139, 136, 235, 139, 164] @ ''.'' @ [CHR 0x0A])"

definition success_text :: "string \<Rightarrow> int \<Rightarrow> int \<Rightarrow> int \<Rightarrow> string" where
  "success_text out ut st c =
     ''SUCCESS'' @
     ([CHR 0x0A] @ ''['' @ map char_of [236 :: nat, 139, 164, 237, 150, 137] @ '' '' @ map char_of [236
     :: nat, 153, 132, 235, 163, 140] @ '']'' @ [CHR 0x0A] @ map char_of [234 :: nat, 178, 176, 234,
     179, 188] @ '':'' @ [CHR 0x0A]) @ out
     @ ([CHR 0x0A] @ ''['' @ map char_of [236 :: nat, 158, 144, 236, 155, 144] @ '' '' @ map char_of [236
     :: nat, 130, 172, 236, 154, 169, 235, 159, 137] @ '']'' @ [CHR 0x0A] @ map char_of [236 :: nat,
     130, 172, 236, 154, 169, 236, 158, 144] @ '' CPU '' @ map char_of [236 :: nat, 139, 156, 234, 176,
     132] @ ''(User Time): '') @ dec_int ut
     @ ('' ms'' @ [CHR 0x0A] @ map char_of [236 :: nat, 139, 156, 236, 138, 164, 237, 133, 156] @ '' CPU ''
     @ map char_of [236 :: nat, 139, 156, 234, 176, 132] @ ''(System Time): '') @ dec_int st
     @ ('' ms'' @ [CHR 0x0A] @ map char_of [236 :: nat, 162, 133, 235, 163, 140] @ '' '' @ map char_of [236
     :: nat, 189, 148, 235, 147, 156] @ '': '') @ dec_int c @ [CHR 0x0A]"

text \<open>\<open>fscanf\<close> of the usage file; what it does not reach stays 0.\<close>

definition scan_usage :: "string option \<Rightarrow> int \<times> int \<times> int" where
  "scan_usage f =
     (case f of None \<Rightarrow> (0, 0, 0) | Some txt \<Rightarrow>
       (case scan_ld txt of None \<Rightarrow> (0, 0, 0) | Some (ut, r1) \<Rightarrow>
         (case scan_ld r1 of None \<Rightarrow> (ut, 0, 0) | Some (st, r2) \<Rightarrow>
           (case scan_d r2 of None \<Rightarrow> (ut, st, 0) | Some c \<Rightarrow> (ut, st, c)))))"

definition err_buf_of :: "child_end \<Rightarrow> string" where
  "err_buf_of ch = cstr (take 4095 (ch_pipe ch))"

definition out_buf_of :: "child_end \<Rightarrow> string" where
  "out_buf_of ch = (case ch_output ch of None \<Rightarrow> [] | Some out \<Rightarrow> cstr (take 4095 out))"

definition legacy_text :: "child_end \<Rightarrow> string" where
  "legacy_text ch =
     (if WIFEXITED (ch_status ch) \<and> WEXITSTATUS (ch_status ch) = 125
      then compile_text (err_line_of (err_buf_of ch)) (friendly_msg (err_buf_of ch)) (err_buf_of ch)
      else case scan_usage (ch_usage ch) of (ut, st, c) \<Rightarrow>
        if c = 124 then timeout_text else success_text (out_buf_of ch) ut st c)"

definition legacy_response :: "child_end \<Rightarrow> string" where
  "legacy_response ch = snprintf LEGACY_BUFFER (legacy_text ch)"

definition run_sandboxed_test :: "legacy_env \<Rightarrow> string \<Rightarrow> link \<Rightarrow> link option" where
  "run_sandboxed_test env source l =
     map_option (\<lambda>ch. snd (send (bytes (legacy_response ch)) l))
       (legacy_child env (if lj_fopen env then Some source else None))"

text \<open>One connection: what one \<open>recv\<close> brings is the source, up to its first NUL.\<close>

definition client_handler :: "legacy_env \<Rightarrow> sock \<Rightarrow> link \<Rightarrow> link option" where
  "client_handler env s l =
     (let (read_size, got, s') = recv (LEGACY_BUFFER - 1) s
      in if read_size \<le> 0 then Some l
         else if \<not> lj_mkdtemp env then Some l
         else run_sandboxed_test env (cstr (map char_of_byte got)) l)"

text \<open>
  \<open>main\<close>: what it returns, if it does, and the descriptors it starts a handler for. Only an \<open>accept\<close>
  that returns 0 ends the loop; a failed one (-1) is handed to a thread like any other, and
  \<^verbatim>\<open>pthread_create\<close> never returns a negative value.
\<close>

definition legacy_main :: "bool \<Rightarrow> bool \<Rightarrow> int list \<Rightarrow> int option \<times> int list" where
  "legacy_main socket_ok bind_ok accepts =
     (if \<not> socket_ok \<or> \<not> bind_ok then (Some 1, [])
      else (if 0 \<in> set accepts then Some 0 else None, takeWhile (\<lambda>c. c \<noteq> 0) accepts))"

section \<open>Numbers printed and read back\<close>

lemma scan_ld_range: "scan_ld s = Some (v, r) \<Longrightarrow> - (2 ^ 63) \<le> v \<and> v < 2 ^ 63"
  by (auto simp: scan_ld_def Let_def split: if_splits)

lemma scan_d_range:
  assumes "scan_d s = Some v"
  shows "- (2 ^ 31) \<le> v \<and> v < 2 ^ 31"
proof -
  obtain w :: u32 where "v = sint w" using assms by (auto simp: scan_d_def)
  then show ?thesis using sint_range_size [of w] by (simp add: word_size)
qed

lemma scan_ld_dec_int:
  assumes "- (2 ^ 63) < v" and "v < 2 ^ 63" and "t \<noteq> [] \<Longrightarrow> \<not> isdigit (hd t)"
  shows "scan_ld (dec_int v @ t) = Some (v, t)"
proof -
  have tw: "takeWhile isdigit (dec n @ t) = dec n \<and> dropWhile isdigit (dec n @ t) = t" for n
    using dec_digits [of n] assms(3) by (cases t) (simp_all add: takeWhile_append2 dropWhile_append2)
  show ?thesis
  proof (cases "v < 0")
    case True
    then show ?thesis
      using tw [of "nat (- v)"] assms(1,2) digits_val_dec [of "nat (- v)"]
      by (simp add: dec_int_def scan_ld_def isspace_def)
  next
    case False
    obtain c ds where d: "dec (nat v) = c # ds" by (meson dec_nonempty neq_Nil_conv)
    have c: "isdigit c" using dec_digits [of "nat v"] d by simp
    show ?thesis
      using False tw [of "nat v"] assms(2) digits_val_dec [of "nat v"] d isdigit_not_space [OF c] isdigit_not_sign [OF c]
      by (simp add: dec_int_def scan_ld_def)
  qed
qed

lemma scan_ld_newline: "scan_ld (CHR 0x0A # t) = scan_ld t"
  by (simp add: scan_ld_def isspace_def)

lemma length_dec_int:
  assumes "nat \<bar>v\<bar> < 10 ^ Suc k"
  shows "length (dec_int v) \<le> Suc (Suc k)"
proof (cases "v < 0")
  case True
  then show ?thesis using assms length_dec [of "nat (- v)" k] by (simp add: dec_int_def)
next
  case False
  then show ?thesis using assms length_dec [of "nat v" k] by (simp add: dec_int_def)
qed

text \<open>The usage file is a round trip between the child and its parent.\<close>

lemma scan_usage_text:
  assumes "- (2 ^ 63) < ut" "ut < 2 ^ 63" "- (2 ^ 63) < st" "st < 2 ^ 63" "- (2 ^ 31) \<le> c" "c < 2 ^ 31"
  shows "scan_usage (Some (usage_text ut st c)) = (ut, st, c)"
proof -
  have nl: "\<not> isdigit (CHR 0x0A)" by (simp add: isdigit_def)
  have "sint (word_of_int c :: u32) = c"
    unfolding signed_of_int using assms(5,6) by (simp add: signed_take_bit_int_eq_self)
  then show ?thesis using assms nl
    by (simp add: scan_usage_def usage_text_def scan_ld_dec_int scan_ld_newline scan_d_def)
qed

lemma usage_code_range: "-1 \<le> usage_code st \<and> usage_code st \<le> 255"
proof -
  have "st AND 0x7F \<le> 0x7F" "drop_bit 8 st AND 0xFF \<le> 0xFF" by (rule word_and_le1)+
  then have "uint (st AND 0x7F) \<le> 127" "uint (drop_bit 8 st AND 0xFF) \<le> 255"
    by (simp_all add: word_le_def)
  moreover have "0 \<le> uint (st AND 0x7F)" "0 \<le> uint (drop_bit 8 st AND 0xFF)" by simp_all
  ultimately show ?thesis unfolding usage_code_def WTERMSIG_def WEXITSTATUS_def of_nat_unat by (auto split: if_splits intro: order_trans [of _ 0])
qed

lemma exit_status_fields:
  assumes "n < 256"
  shows "WIFEXITED (exit_status n)" and "WEXITSTATUS (exit_status n) = n"
proof -
  have m: "(0x7F :: u32) = mask 7" "(0xFF :: u32) = mask 8" by (simp_all add: mask_eq_exp_minus_1)
  show "WIFEXITED (exit_status n)" unfolding WIFEXITED_def exit_status_def m
    by (rule bit_word_eqI) (simp add: bit_simps)
  have "drop_bit 8 (push_bit 8 (of_nat n) :: u32) AND mask 8 = of_nat n"
  proof (rule bit_word_eqI)
    fix k :: nat
    assume "k < LENGTH(32)"
    have "\<not> bit n k" if "8 \<le> k"
    proof -
      have "n < 2 ^ k" using assms power_increasing [OF that, of "2 :: nat"] by simp
      then show ?thesis by (simp add: bit_iff_odd)
    qed
    then show "bit (drop_bit 8 (push_bit 8 (of_nat n) :: u32) AND mask 8) k \<longleftrightarrow> bit (of_nat n :: u32) k"
      by (cases "8 \<le> k") (auto simp: bit_simps)
  qed
  then show "WEXITSTATUS (exit_status n) = n" unfolding WEXITSTATUS_def exit_status_def m
    using assms by (simp add: unsigned_of_nat take_bit_nat_eq_self)
qed

section \<open>Every answer fits\<close>

lemmas hint_defs =
  hint_general_def hint_semicolon_def hint_undeclared_def hint_bracket_def hint_include_def

lemma friendly_msg_cases:
  "friendly_msg err \<in> {hint_general, hint_semicolon, hint_undeclared, hint_bracket, hint_include}"
  by (simp add: friendly_msg_def)

lemma length_friendly: "length (friendly_msg err) \<le> 120"
  using friendly_msg_cases [of err] by (auto simp: hint_defs hint_mark_def)

lemma err_line_range: "- (2 ^ 31) \<le> err_line_of s \<and> err_line_of s < 2 ^ 31"
proof (induction s rule: err_line_of.induct)
  case (1 s)
  then show ?case
    by (subst (1 2) err_line_of.simps) (auto split: option.splits dest: scan_d_range)
qed

lemma length_cstr_take: "length (cstr (take n s)) \<le> n"
proof -
  have "length (cstr (take n s)) \<le> length (take n s)" unfolding cstr_def by (rule length_takeWhile_le)
  then show ?thesis by simp
qed

lemma scan_usage_range:
  assumes "scan_usage f = (ut, st, c)"
  shows "\<bar>ut\<bar> \<le> 2 ^ 63 \<and> \<bar>st\<bar> \<le> 2 ^ 63 \<and> \<bar>c\<bar> \<le> 2 ^ 31"
  using assms
  by (fastforce simp: scan_usage_def abs_le_iff split: option.splits prod.splits dest: scan_ld_range scan_d_range)


text \<open>No answer of the single-file server is cut off: with at most 4095 bytes of compiler output or
  program output in it, every answer fits its 8192-byte buffer.\<close>

lemma response_uncut: "legacy_response ch = legacy_text ch \<and> length (legacy_text ch) < LEGACY_BUFFER"
proof -
  let ?e = "err_buf_of ch"
  have err: "length ?e \<le> 4095" unfolding err_buf_of_def by (rule length_cstr_take)
  have out: "length (out_buf_of ch) \<le> 4095"
    unfolding out_buf_of_def using length_cstr_take [of 4095] by (auto split: option.splits)
  have line: "length (dec_int (err_line_of ?e)) \<le> 11"
  proof -
    have "nat \<bar>err_line_of ?e\<bar> < 10 ^ Suc 9" using err_line_range [of ?e] by auto
    then show ?thesis using length_dec_int by fastforce
  qed
  obtain ut st c where u: "scan_usage (ch_usage ch) = (ut, st, c)" by (cases "scan_usage (ch_usage ch)")
  have nums: "length (dec_int ut) \<le> 20" "length (dec_int st) \<le> 20" "length (dec_int c) \<le> 20"
  proof -
    have "nat \<bar>ut\<bar> < 10 ^ Suc 18" "nat \<bar>st\<bar> < 10 ^ Suc 18" "nat \<bar>c\<bar> < 10 ^ Suc 18"
      using scan_usage_range [OF u] by auto
    then show "length (dec_int ut) \<le> 20" "length (dec_int st) \<le> 20" "length (dec_int c) \<le> 20"
      using length_dec_int by fastforce+
  qed
  have "length (compile_text (err_line_of ?e) (friendly_msg ?e) ?e) < LEGACY_BUFFER"
    using err line length_friendly [of ?e] by (simp add: compile_text_def korean_mark_def msg_failed_at_def msg_line_def LEGACY_BUFFER_def)
  moreover have "length (success_text (out_buf_of ch) ut st c) < LEGACY_BUFFER"
    using out nums by (simp add: success_text_def LEGACY_BUFFER_def)
  moreover have "length timeout_text < LEGACY_BUFFER" by (simp add: timeout_text_def LEGACY_BUFFER_def)
  ultimately have len: "length (legacy_text ch) < LEGACY_BUFFER" by (simp add: legacy_text_def u)
  then show ?thesis by (simp add: legacy_response_def snprintf_def)
qed

section \<open>What is answered\<close>

text \<open>Run with the privileges its sandbox needs, the single-file server never runs a program: what it
  does and answers does not depend on what the program would do, and one that compiles is answered with
  a success without output (or with a time-out, if the uninitialised status happens to say so).\<close>

lemma legacy_root_runs_nothing:
  assumes "lj_privileged env"
  shows "client_handler env s l = client_handler (env\<lparr>lj_run := any_run\<rparr>) s l \<and>
    (fst (lj_gcc env src) = 0 \<longrightarrow> legacy_child env src = Some ch \<longrightarrow>
       legacy_text ch = timeout_text \<or> (\<exists>ut st c. legacy_text ch = success_text [] ut st c))"
proof (intro conjI impI)
  show "client_handler env s l = client_handler (env\<lparr>lj_run := any_run\<rparr>) s l"
    using assms
    by (simp add: client_handler_def run_sandboxed_test_def legacy_child_def child_done_def case_prod_beta)
next
  assume "fst (lj_gcc env src) = 0" and "legacy_child env src = Some ch"
  then have ch: "ch = child_done env (snd (lj_gcc env src)) (lj_garbage env) None"
    using assms by (auto simp: legacy_child_def WEXITSTATUS_def case_prod_beta split: if_splits)
  have "WEXITSTATUS (exit_status 0) \<noteq> 125" by (simp add: exit_status_fields)
  then show "legacy_text ch = timeout_text \<or> (\<exists>ut st c. legacy_text ch = success_text [] ut st c)"
    by (auto simp: ch child_done_def legacy_text_def out_buf_of_def case_prod_beta split: prod.splits)
qed

definition demo_legacy :: legacy_env where
  "demo_legacy =
     \<lparr>lj_mkdtemp = True, lj_fopen = True, lj_privileged = False, lj_pipe = 65536,
      lj_gcc = (\<lambda>_. (0, [])), lj_run = (\<lambda>_. Some (11, ''41'', (0, 1000), (0, 0))),
      lj_garbage = (0, (0, 0), (0, 0)), lj_usage_open = True\<rparr>"

lemma legacy_root_runs_nothing_witness:
  "client_handler (demo_legacy\<lparr>lj_privileged := True\<rparr>) \<lparr>rx = [bytes ''x''], rx_reset = False\<rparr> \<lparr>sent = [], tx = []\<rparr>
   = client_handler (demo_legacy\<lparr>lj_privileged := True, lj_run := (\<lambda>_. None)\<rparr>)
       \<lparr>rx = [bytes ''x''], rx_reset = False\<rparr> \<lparr>sent = [], tx = []\<rparr>"
  using legacy_root_runs_nothing [of "demo_legacy\<lparr>lj_privileged := True\<rparr>" _ _ "\<lambda>_. None"]
  by (simp add: demo_legacy_def)

text \<open>Without them, the program's output and usage reach the answer, with 128 and the signal as code.\<close>

lemma legacy_child_runs:
  assumes "lj_gcc env src = (0, err)" and "length err \<le> lj_pipe env" and "\<not> lj_privileged env"
    and "lj_run env src = Some (xs, out, ut, st)" and "lj_usage_open env"
    and "\<bar>tv_ms ut\<bar> < 2 ^ 63" and "\<bar>tv_ms st\<bar> < 2 ^ 63"
  shows "map_option legacy_response (legacy_child env src) =
    Some (if usage_code xs = 124 then timeout_text
          else success_text (cstr (take 4095 out)) (tv_ms ut) (tv_ms st) (usage_code xs))"
proof -
  have ok: "\<not> WEXITSTATUS 0 \<noteq> 0" by (simp add: WEXITSTATUS_def)
  have u: "scan_usage (Some (usage_text (tv_ms ut) (tv_ms st) (usage_code xs))) = (tv_ms ut, tv_ms st, usage_code xs)"
    using assms(6,7) usage_code_range [of xs] by (intro scan_usage_text) (auto simp: abs_less_iff)
  have 0: "WEXITSTATUS (exit_status 0) \<noteq> 125" by (simp add: exit_status_fields)
  show ?thesis using assms ok 0 u
    by (simp add: legacy_child_def child_done_def response_uncut legacy_text_def out_buf_of_def)
qed

end
