(* ===== verification/Legacy_Client.thy ===== *)
theory Legacy_Client
  imports Legacy_Server
begin

text \<open>
  The client of the single-file server, \<^verbatim>\<open>client.c\<close> in the repository's root directory: it sends each file
  on a connection of its own, reads the verdict out of the text of the answer, lists the files with
  errors and opens them in an editor at the line the compiler named. Of its output the facts are
  kept, not the wording. The theory ends with client and server together.
\<close>

section \<open>One answer\<close>

record ErrorRecord =
  er_filename :: string
  er_line :: int

datatype batch_msg =
    Not_Opened string
  | Failed_At string int
  | Hint string
  | Raw_Log "string list"
  | Runtime_Failed string
  | Passed string

record batch =
  bc_errors :: "ErrorRecord list"
  bc_success :: nat
  bc_out :: "batch_msg list"

text \<open>\<^verbatim>\<open>main\<close> returns -1, or writes behind the end of an array.\<close>

datatype batch_fault = Returns_Minus_1 | Array_Overrun

definition say_batch :: "batch_msg \<Rightarrow> batch \<Rightarrow> batch" where
  "say_batch m b = b\<lparr>bc_out := bc_out b @ [m]\<rparr>"

definition push_error :: "string \<Rightarrow> int \<Rightarrow> batch \<Rightarrow> batch_fault + batch" where
  "push_error filename line b =
     (if 100 \<le> length (bc_errors b) then Inl Array_Overrun
      else Inr (b\<lparr>bc_errors := bc_errors b @ [\<lparr>er_filename = take 255 (cstr filename), er_line = line\<rparr>]\<rparr>))"

definition line_of_answer :: "string \<Rightarrow> int" where
  "line_of_answer buffer =
     (case strstr_at buffer ''LINE:'' of
        None \<Rightarrow> -1
      | Some i \<Rightarrow> (case scan_d (drop (i + 5) buffer) of None \<Rightarrow> -1 | Some n \<Rightarrow> n))"

text \<open>The hint: from the lamp after the marker to the end of its line.\<close>

definition hint_of_answer :: "string \<Rightarrow> string option" where
  "hint_of_answer buffer =
     (case strstr_at buffer korean_mark of
        None \<Rightarrow> None
      | Some i \<Rightarrow>
          (case strstr_at (drop i buffer) hint_mark of
             None \<Rightarrow> None
           | Some j \<Rightarrow>
               let start = drop (i + j) buffer
               in if CHR 0x0A \<in> set start then Some (takeWhile (\<lambda>c. c \<noteq> CHR 0x0A) start) else None))"

definition raw_mark :: string where
  "raw_mark = (''['' @ map char_of [236 :: nat, 187, 180, 237, 140, 140, 236, 157, 188, 235, 159, 172] @ '' '' @
     map char_of [236 :: nat, 155, 144, 235, 179, 184] @ '' '' @ map char_of [235 :: nat, 161, 156, 234,
     183, 184] @ '']'')"

text \<open>The compiler's own log, if it stands before the marker.\<close>

definition raw_log_of_answer :: "string \<Rightarrow> string list option" where
  "raw_log_of_answer buffer =
     (case (strstr_at buffer raw_mark, strstr_at buffer korean_mark) of
        (Some k, Some i) \<Rightarrow>
          let p = k + length raw_mark;
              log_begin = (if take 1 (drop p buffer) = [CHR 0x0A] then p + 1 else p)
          in if log_begin < i \<and> i - log_begin < LEGACY_BUFFER
             then Some (strtok_all (CHR 0x0A) [] (take (i - log_begin) (drop log_begin buffer))) else None
      | _ \<Rightarrow> None)"

definition on_compile_error :: "string \<Rightarrow> string \<Rightarrow> batch \<Rightarrow> batch_fault + batch" where
  "on_compile_error filename buffer b =
     (let line = line_of_answer buffer;
          b1 = say_batch (Failed_At filename line) b
      in case hint_of_answer buffer of
           Some h \<Rightarrow>
             if 256 \<le> length h then Inl Array_Overrun
             else let b2 = say_batch (Hint h) b1;
                      b3 = (case raw_log_of_answer buffer of Some ls \<Rightarrow> say_batch (Raw_Log ls) b2 | None \<Rightarrow> b2)
                  in if 0 < line then push_error filename line b3 else Inr b3
         | None \<Rightarrow>
             let b3 = (case raw_log_of_answer buffer of Some ls \<Rightarrow> say_batch (Raw_Log ls) b1 | None \<Rightarrow> b1)
             in if 0 < line then push_error filename line b3 else Inr b3)"

definition on_answer :: "string \<Rightarrow> string \<Rightarrow> batch \<Rightarrow> batch_fault + batch" where
  "on_answer filename buffer b =
     (if take 13 buffer = ''COMPILE_ERROR'' then on_compile_error filename buffer b
      else if take 13 buffer = ''RUNTIME_ERROR'' then push_error filename 0 (say_batch (Runtime_Failed filename) b)
      else Inr ((say_batch (Passed filename) b)\<lparr>bc_success := bc_success b + 1\<rparr>))"

section \<open>The batch\<close>

record batch_file =
  bf_name :: string
  bf_content :: "string option"
  bf_socket :: bool
  bf_connect :: bool
  bf_link :: link
  bf_answer :: sock

text \<open>What is sent of a file: its first 8191 bytes, up to the first NUL.\<close>

definition bytes_sent :: "string \<Rightarrow> byte list" where
  "bytes_sent content = bytes (cstr (take (LEGACY_BUFFER - 1) content))"

definition check_file :: "batch_file \<Rightarrow> batch \<Rightarrow> batch_fault + batch" where
  "check_file f b =
     (case bf_content f of
        None \<Rightarrow> Inr (say_batch (Not_Opened (bf_name f)) b)
      | Some content \<Rightarrow>
          if \<not> bf_socket f \<or> \<not> bf_connect f then Inl Returns_Minus_1
          else let (n, l') = send (bytes_sent content) (bf_link f);
                   (read_size, got, s') = recv (LEGACY_BUFFER - 1) (bf_answer f)
               in if 0 < read_size then on_answer (bf_name f) (cstr (map char_of_byte got)) b else Inr b)"

fun check_all :: "batch_file list \<Rightarrow> batch \<Rightarrow> batch_fault + batch" where
  "check_all [] b = Inr b"
| "check_all (f # fs) b = (case check_file f b of Inl e \<Rightarrow> Inl e | Inr b' \<Rightarrow> check_all fs b')"

section \<open>The menu\<close>

definition editor_cmd :: "ErrorRecord \<Rightarrow> string" where
  "editor_cmd e =
     snprintf 512
       ((''cmd.exe /c start wsl --exec bash -c '' @ [CHR 0x22] @ ''vi -c '' @ [CHR 0x27] @ ''set number'' @
     [CHR 0x27] @ '' '')
        @ (if 0 < er_line e then ''+'' @ dec_int (er_line e) @ '' '' else [])
        @ er_filename e @ [CHR 0x22])"

text \<open>\<open>strtok\<close> with several separators.\<close>

fun tokens :: "string \<Rightarrow> string \<Rightarrow> string \<Rightarrow> string list" where
  "tokens ds cur [] = (if cur = [] then [] else [cur])"
| "tokens ds cur (c # cs) =
     (if c \<in> set ds then (if cur = [] then tokens ds [] cs else cur # tokens ds [] cs)
      else tokens ds (cur @ [c]) cs)"

definition chosen :: "ErrorRecord list \<Rightarrow> string \<Rightarrow> string list" where
  "chosen errs tok =
     (let choice = atoi tok
      in if 1 \<le> choice \<and> choice \<le> int (length errs) then [editor_cmd (errs ! nat (choice - 1))] else [])"

text \<open>The commands given to the shell until Q or the end of the input.\<close>

function menu_loop :: "ErrorRecord list \<Rightarrow> string \<Rightarrow> string list" where
  "menu_loop errs stdin =
     (case fgets 256 stdin of
        None \<Rightarrow> []
      | Some (line, stdin') \<Rightarrow>
          if take 1 line \<in> {''Q'', ''q''} then []
          else (if take 1 line \<in> {''A'', ''a''} then map editor_cmd errs
                else concat (map (chosen errs) (tokens [CHR '' '', CHR '','', CHR 0x0A] [] (cstr line))))
               @ menu_loop errs stdin')"
  by pat_completeness auto
termination
  by (relation "measure (\<lambda>(errs, stdin). length stdin)") (auto dest: fgets_shorter [rotated])

declare menu_loop.simps [simp del]

text \<open>\<open>main\<close>: the status it returns and the commands it ran; an overrun has no result.\<close>

definition batch_init :: batch where
  "batch_init = \<lparr>bc_errors = [], bc_success = 0, bc_out = []\<rparr>"

definition legacy_client :: "batch_file list \<Rightarrow> string \<Rightarrow> (int \<times> string list) option" where
  "legacy_client files stdin =
     (if files = [] then Some (1, [])
      else case check_all files batch_init of
        Inl Returns_Minus_1 \<Rightarrow> Some (-1, [])
      | Inl Array_Overrun \<Rightarrow> None
      | Inr b \<Rightarrow> Some (0, if bc_errors b = [] then [] else menu_loop (bc_errors b) stdin))"

section \<open>Searching\<close>

lemma strstr_at_here: "strstr_at (needle @ s) needle = Some 0"
  by (subst strstr_at.simps) simp

lemma strstr_at_skip:
  assumes "needle = c # cs" and "c \<notin> set p"
  shows "strstr_at (p @ s) needle = map_option (\<lambda>i. length p + i) (strstr_at s needle)"
  using assms(2)
proof (induction p)
  case (Cons a p)
  then show ?case
    by (subst strstr_at.simps) (cases "strstr_at s needle"; auto simp: assms(1))
qed (cases "strstr_at s needle"; simp)

lemma strstr_at_found:
  "needle = c # cs \<Longrightarrow> c \<notin> set p \<Longrightarrow> strstr_at (p @ needle @ s) needle = Some (length p)"
  by (subst strstr_at_skip, assumption+) (simp only: strstr_at_here option.map, simp)

lemma dec_int_chars: "set (dec_int v) \<subseteq> insert (CHR ''-'') {c. isdigit c}"
  using dec_digits by (auto simp: dec_int_def)

lemma not_in_dec_int: "\<not> isdigit c \<Longrightarrow> c \<noteq> CHR ''-'' \<Longrightarrow> c \<notin> set (dec_int v)"
  using dec_int_chars [of v] by auto

lemma scan_d_dec_int:
  assumes "- (2 ^ 31) \<le> v" and "v < 2 ^ 31" and "t \<noteq> [] \<Longrightarrow> \<not> isdigit (hd t)"
  shows "scan_d (dec_int v @ t) = Some v"
proof -
  have "sint (word_of_int v :: u32) = v"
    unfolding signed_of_int using assms(1,2) by (simp add: signed_take_bit_int_eq_self)
  then show ?thesis using scan_ld_dec_int [of v t] assms by (simp add: scan_d_def)
qed

section \<open>Reading the server's answers\<close>

text \<open>The three parts of a compile answer the client looks at.\<close>

definition answer_head :: "int \<Rightarrow> string" where
  "answer_head line =
     ''COMPILE_ERROR'' @ [CHR 0x0A] @ ''LINE:'' @ dec_int line @ [CHR 0x0A, CHR 0x0A]"

definition answer_middle :: "int \<Rightarrow> string" where
  "answer_middle line = msg_failed_at @ dec_int line @ msg_line"

lemma compile_text_parts:
  "\<exists>rest. compile_text line hint err = answer_head line @ korean_mark @ answer_middle line @ hint @ CHR 0x0A # rest"
  by (simp add: compile_text_def answer_head_def answer_middle_def)

lemma head_without_bracket: "CHR ''['' \<notin> set (answer_head line)"
proof -
  have "\<not> isdigit (CHR ''['')" by code_simp
  then show ?thesis using not_in_dec_int [of "CHR ''[''" line] by (simp add: answer_head_def)
qed

lemma middle_without_lamp: "CHR 0xF0 \<notin> set (korean_mark @ answer_middle line)"
proof -
  have "\<not> isdigit (CHR 0xF0)" "CHR 0xF0 \<notin> set korean_mark" "CHR 0xF0 \<notin> set msg_failed_at"
    "CHR 0xF0 \<notin> set msg_line"
    by code_simp+
  then show ?thesis using not_in_dec_int [of "CHR 0xF0" line] by (simp add: answer_middle_def)
qed

lemma newline_no_digit: "\<not> isdigit (CHR 0x0A)"
  by code_simp

lemma line_of_compile_text:
  assumes "- (2 ^ 31) \<le> line" and "line < 2 ^ 31"
  shows "line_of_answer (compile_text line hint err) = line"
proof -
  obtain rest where r: "compile_text line hint err =
      (''COMPILE_ERROR'' @ [CHR 0x0A]) @ ''LINE:'' @ (dec_int line @ CHR 0x0A # rest)"
    by (simp add: compile_text_def)
  have "strstr_at (compile_text line hint err) ''LINE:'' = Some 14"
    unfolding r by (simp add: strstr_at.simps)
  moreover have "drop 19 (compile_text line hint err) = dec_int line @ CHR 0x0A # rest"
    unfolding r by simp
  ultimately show ?thesis
    using scan_d_dec_int [OF assms, of "CHR 0x0A # rest"] newline_no_digit by (simp add: line_of_answer_def)
qed

lemma hint_of_compile_text:
  assumes "hint = hint_mark @ h" and "CHR 0x0A \<notin> set h"
  shows "hint_of_answer (compile_text line hint err) = Some hint"
proof -
  obtain rest where r: "compile_text line hint err =
      answer_head line @ korean_mark @ answer_middle line @ hint @ CHR 0x0A # rest"
    using compile_text_parts by blast
  obtain cs where k: "korean_mark = CHR ''['' # cs" by (simp add: korean_mark_def)
  have m: "hint_mark = CHR 0xF0 # tl hint_mark" unfolding hint_mark_def by code_simp
  have at: "strstr_at (compile_text line hint err) korean_mark = Some (length (answer_head line))"
    unfolding r using strstr_at_found [OF k head_without_bracket] by simp
  have at': "strstr_at ((korean_mark @ answer_middle line) @ hint_mark @ h @ CHR 0x0A # rest) hint_mark =
      Some (length (korean_mark @ answer_middle line))"
    by (rule strstr_at_found [OF m middle_without_lamp])
  have "CHR 0x0A \<notin> set hint_mark" by code_simp
  then have nl: "CHR 0x0A \<notin> set hint" using assms by simp
  have "takeWhile (\<lambda>c. c \<noteq> CHR 0x0A) (hint @ CHR 0x0A # rest) = hint"
    using nl by (subst takeWhile_append2) auto
  then show ?thesis using at at' r unfolding assms(1) by (simp add: hint_of_answer_def)
qed

text \<open>The server never sends the marker of the raw log before the other one: that part of the client is never used.\<close>

lemma no_raw_log: "raw_log_of_answer (compile_text line hint err) = None"
proof -
  obtain rest where r: "compile_text line hint err = answer_head line @ korean_mark @ rest"
    using compile_text_parts [of line hint err] by auto
  obtain cs where k: "korean_mark = CHR ''['' # cs" by (simp add: korean_mark_def)
  have m: "raw_mark = CHR ''['' # tl raw_mark" by (simp add: raw_mark_def)
  have "strstr_at (compile_text line hint err) korean_mark = Some (length (answer_head line))"
    unfolding r by (rule strstr_at_found [OF k head_without_bracket])
  moreover have "length (answer_head line) \<le> j" if "strstr_at (compile_text line hint err) raw_mark = Some j" for j
    using that unfolding r strstr_at_skip [OF m head_without_bracket] by auto
  ultimately show ?thesis by (fastforce simp: raw_log_of_answer_def Let_def split: option.splits)
qed

section \<open>Client and server together\<close>

text \<open>A file checked by a server it can reach: the server's answer arrives in one piece.\<close>

definition checked_by :: "legacy_env \<Rightarrow> string \<Rightarrow> string \<Rightarrow> batch \<Rightarrow> (batch_fault + batch) option" where
  "checked_by env name content b =
     map_option
       (\<lambda>l. check_file
          \<lparr>bf_name = name, bf_content = Some content, bf_socket = True, bf_connect = True,
           bf_link = \<lparr>sent = [], tx = []\<rparr>, bf_answer = \<lparr>rx = [sent l], rx_reset = False\<rparr>\<rparr> b)
       (client_handler env \<lparr>rx = [bytes_sent content], rx_reset = False\<rparr> \<lparr>sent = [], tx = []\<rparr>)"

lemma newline_char: "CHR 0x0A = char_of (n :: nat) \<longleftrightarrow> n mod 256 = 10"
proof -
  have "CHR 0x0A = char_of (10 :: nat)" by code_simp
  moreover have "char_of (10 :: nat) = char_of n \<longleftrightarrow> (of_char (char_of (10 :: nat)) :: nat) = of_char (char_of n)"
    by (simp only: of_char_eq_iff)
  ultimately show ?thesis unfolding of_char_of by auto
qed

lemma friendly_msg_mark: "\<exists>h. friendly_msg err = hint_mark @ h \<and> CHR 0x0A \<notin> set h"
  using friendly_msg_cases [of err] by (auto simp: hint_defs newline_char)

lemma char_of_bytes: "map char_of_byte (bytes s) = s"
  by simp

lemma one_burst:
  assumes "s \<noteq> []" and "length s \<le> n"
  shows "recv n \<lparr>rx = [bytes s], rx_reset = False\<rparr> = (int (length s), bytes s, \<lparr>rx = [[]], rx_reset = False\<rparr>)"
  using assms by (simp add: recv_def bytes_def)

text \<open>One exchange with the child's end \<open>ch\<close>: the client acts on the text of the answer.\<close>

lemma checked_by_answer:
  assumes "cstr (take 8191 content) \<noteq> []" and "lj_mkdtemp env"
    and "legacy_child env (if lj_fopen env then Some (cstr (take 8191 content)) else None) = Some ch"
    and "legacy_text ch \<noteq> []" and "NUL \<notin> set (legacy_text ch)"
  shows "checked_by env name content b = Some (on_answer name (legacy_text ch) b)"
proof -
  let ?src = "cstr (take 8191 content)"
  have uncut: "legacy_response ch = legacy_text ch" "length (legacy_text ch) \<le> 8191"
    using response_uncut [of ch] by (simp_all add: LEGACY_BUFFER_def)
  have run: "run_sandboxed_test env ?src \<lparr>sent = [], tx = []\<rparr> = Some \<lparr>sent = bytes (legacy_text ch), tx = []\<rparr>"
    unfolding run_sandboxed_test_def assms(3) by (simp add: send_def uncut)
  have "length ?src \<le> 8191" by (rule length_cstr_take)
  then have "client_handler env \<lparr>rx = [bytes ?src], rx_reset = False\<rparr> \<lparr>sent = [], tx = []\<rparr> =
      Some \<lparr>sent = bytes (legacy_text ch), tx = []\<rparr>"
    using assms(1,2) run one_burst [OF assms(1), of 8191] by (simp add: client_handler_def LEGACY_BUFFER_def)
  then show ?thesis
    using one_burst [OF assms(4) uncut(2)] assms(4,5)
    by (simp add: checked_by_def check_file_def bytes_sent_def LEGACY_BUFFER_def send_def cstr_id)
qed

lemma dec_int_no_nul: "NUL \<notin> set (dec_int v)"
proof -
  have "\<not> isdigit NUL" by (simp add: isdigit_def)
  then show ?thesis by (rule not_in_dec_int) simp
qed

lemma nul_char: "NUL = char_of (n :: nat) \<longleftrightarrow> n mod 256 = 0"
proof -
  have "NUL = char_of (0 :: nat)" by code_simp
  moreover have "char_of (0 :: nat) = char_of n \<longleftrightarrow> (of_char (char_of (0 :: nat)) :: nat) = of_char (char_of n)"
    by (simp only: of_char_eq_iff)
  ultimately show ?thesis unfolding of_char_of by auto
qed

lemma answers_without_nul:
  "NUL \<notin> set (friendly_msg err)"
  "NUL \<notin> set err \<Longrightarrow> NUL \<notin> set (compile_text line (friendly_msg e) err)"
  "NUL \<notin> set out \<Longrightarrow> NUL \<notin> set (success_text out ut st c)"
  "NUL \<notin> set timeout_text"
proof -
  show hint: "NUL \<notin> set (friendly_msg err)" for err
    using friendly_msg_cases [of err] by (auto simp: hint_defs hint_mark_def nul_char)
  show "NUL \<notin> set err \<Longrightarrow> NUL \<notin> set (compile_text line (friendly_msg e) err)"
    using hint [of e] dec_int_no_nul
    by (simp add: compile_text_def korean_mark_def msg_failed_at_def msg_line_def nul_char)
  show "NUL \<notin> set out \<Longrightarrow> NUL \<notin> set (success_text out ut st c)"
    using dec_int_no_nul by (simp add: success_text_def nul_char)
  show "NUL \<notin> set timeout_text"
    by (simp add: timeout_text_def nul_char)
qed

text \<open>C39: When a file does not compile, the student is shown the first line number the compiler gave and
  the hint for its message, and the file enters the list of errors with that line: both survive the
  trip through the text of the answer.\<close>

theorem compile_error_reaches_student:
  assumes "cstr (take 8191 content) \<noteq> []" and "lj_mkdtemp env" and "lj_fopen env"
    and "lj_gcc env (Some (cstr (take 8191 content))) = (st, diag)" and "length diag \<le> lj_pipe env"
    and "WIFEXITED st" and "WEXITSTATUS st \<noteq> 0"
    and "length (bc_errors b) < 100"
  shows "let err = cstr (take 4095 diag); line = err_line_of err
    in checked_by env name content b =
         Some (Inr (b\<lparr>bc_out := bc_out b @ [Failed_At name line, Hint (friendly_msg err)],
                       bc_errors := bc_errors b @
                         (if 0 < line then [\<lparr>er_filename = take 255 (cstr name), er_line = line\<rparr>] else [])\<rparr>))"
proof -
  let ?e = "cstr (take 4095 diag)" and ?l = "err_line_of (cstr (take 4095 diag))"
  let ?t = "compile_text ?l (friendly_msg ?e) ?e"
  let ?ch = "\<lparr>ch_status = exit_status 125, ch_pipe = diag, ch_usage = None, ch_output = None\<rparr>"
  have child: "legacy_child env (if lj_fopen env then Some (cstr (take 8191 content)) else None) = Some ?ch"
    using assms(3-7) by (simp add: legacy_child_def)
  have t: "legacy_text ?ch = ?t" by (simp add: legacy_text_def exit_status_fields err_buf_of_def)
  have "NUL \<notin> set ?t" by (rule answers_without_nul) (rule cstr_no_nul)
  moreover have "take 13 ?t = ''COMPILE_ERROR''" "?t \<noteq> []" by (simp_all add: compile_text_def)
  ultimately have ans: "checked_by env name content b = Some (on_compile_error name ?t b)"
    using checked_by_answer [OF assms(1,2) child, of name b] unfolding t by (simp add: on_answer_def)
  have line: "line_of_answer ?t = ?l" using err_line_range [of ?e] by (simp add: line_of_compile_text)
  have hint: "hint_of_answer ?t = Some (friendly_msg ?e)"
    using friendly_msg_mark [of ?e] hint_of_compile_text by metis
  show ?thesis
    using assms(8) length_friendly [of ?e]
    by (simp add: Let_def ans on_compile_error_def line hint no_raw_log say_batch_def push_error_def)
qed

definition missing_semicolon :: string where
  "missing_semicolon = ''source.c:3:13: error: '' @ expected '','' @ '' or '' @ [CHR 0x27] @ '';'' @ [CHR 0x27]"

lemma compile_error_reaches_student_witness:
  "let env = demo_legacy\<lparr>lj_gcc := (\<lambda>_. (exit_status 1, missing_semicolon))\<rparr>
   in checked_by env ''ex1.c'' ''int x'' batch_init =
     Some (Inr \<lparr>bc_errors = [\<lparr>er_filename = ''ex1.c'', er_line = 3\<rparr>], bc_success = 0,
                bc_out = [Failed_At ''ex1.c'' 3, Hint hint_semicolon]\<rparr>)"
proof -
  have "err_line_of (cstr (take 4095 missing_semicolon)) = 3" by code_simp
  moreover have "friendly_msg (cstr (take 4095 missing_semicolon)) = hint_semicolon"
  proof -
    have "strstr (cstr (take 4095 missing_semicolon)) (expected '','' @ '' or '' @ [CHR 0x27] @ '';'' @ [CHR 0x27])"
      by code_simp
    then show ?thesis by (simp add: friendly_msg_def)
  qed
  ultimately show ?thesis
    using compile_error_reaches_student [of "''int x''" "demo_legacy\<lparr>lj_gcc := (\<lambda>_. (exit_status 1, missing_semicolon))\<rparr>"
        "exit_status 1" missing_semicolon batch_init "''ex1.c''"]
    by (simp add: demo_legacy_def exit_status_fields batch_init_def cstr_def missing_semicolon_def expected_def)
qed

text \<open>The batch counts every program that compiles and ends as passed, whatever it prints and however it
  ends, by a crash or with an error status; only one whose code is 124, for a time-out or of its own, is
  an error.\<close>

theorem only_timeouts_fail:
  assumes "cstr (take 8191 content) \<noteq> []" and "lj_mkdtemp env" and "lj_fopen env"
    and "lj_gcc env (Some (cstr (take 8191 content))) = (0, diag)" and "length diag \<le> lj_pipe env"
    and "\<not> lj_privileged env" and "lj_usage_open env"
    and "lj_run env (Some (cstr (take 8191 content))) = Some (xs, out, ut, st)"
    and "\<bar>tv_ms ut\<bar> < 2 ^ 63" and "\<bar>tv_ms st\<bar> < 2 ^ 63"
  shows "checked_by env name content b =
    Some (if usage_code xs = 124
          then push_error name 0 (say_batch (Runtime_Failed name) b)
          else Inr (b\<lparr>bc_success := bc_success b + 1, bc_out := bc_out b @ [Passed name]\<rparr>))"
proof -
  let ?src = "Some (cstr (take 8191 content))"
  let ?ans = "if usage_code xs = 124 then timeout_text
    else success_text (cstr (take 4095 out)) (tv_ms ut) (tv_ms st) (usage_code xs)"
  have "map_option legacy_response (legacy_child env ?src) = Some ?ans"
    using legacy_child_runs [of env ?src diag xs out ut st] assms by simp
  then obtain ch where ch: "legacy_child env ?src = Some ch" "legacy_text ch = ?ans"
    using response_uncut by auto
  have "NUL \<notin> set ?ans" using answers_without_nul(3) [OF cstr_no_nul] answers_without_nul(4) by simp
  moreover have "?ans \<noteq> []" by (simp add: timeout_text_def success_text_def)
  ultimately have "checked_by env name content b = Some (on_answer name ?ans b)"
    using checked_by_answer [OF assms(1,2), of ch name b] ch assms(3) by simp
  moreover have "take 13 (success_text p q r c) \<noteq> ''COMPILE_ERROR''" "take 13 (success_text p q r c) \<noteq> ''RUNTIME_ERROR''"
    for p q r c by (simp_all add: success_text_def)
  moreover have "take 13 timeout_text = ''RUNTIME_ERROR''" by (simp add: timeout_text_def)
  ultimately show ?thesis by (simp add: on_answer_def say_batch_def)
qed

text \<open>A segmentation fault.\<close>

lemma only_timeouts_fail_witness:
  "checked_by demo_legacy ''ex1.c'' ''int x'' batch_init =
     Some (Inr \<lparr>bc_errors = [], bc_success = 1, bc_out = [Passed ''ex1.c'']\<rparr>)"
proof -
  have "usage_code 11 \<noteq> 124" by code_simp
  then show ?thesis
    using only_timeouts_fail [of "''int x''" demo_legacy "[]" 11 "''41''" "(0, 1000)" "(0, 0)" "''ex1.c''" batch_init]
    by (simp add: demo_legacy_def batch_init_def cstr_def tv_ms_def)
qed

section \<open>Batch and menu\<close>

text \<open>Every file is counted at most once.\<close>

lemma push_error_counts:
  "push_error name line b = Inr b' \<Longrightarrow> length (bc_errors b') = Suc (length (bc_errors b)) \<and> bc_success b' = bc_success b"
  by (auto simp: push_error_def split: if_splits)

lemma say_batch_counts [simp]:
  "bc_errors (say_batch m b) = bc_errors b" "bc_success (say_batch m b) = bc_success b"
  by (simp_all add: say_batch_def)

lemma on_answer_counts:
  assumes "on_answer name buffer b = Inr b'"
  shows "length (bc_errors b') + bc_success b' \<le> Suc (length (bc_errors b) + bc_success b)"
  using assms
  by (auto simp: on_answer_def on_compile_error_def Let_def split: if_splits option.splits dest!: push_error_counts)

lemma check_all_counts:
  "check_all fs b = Inr b' \<Longrightarrow>
   length (bc_errors b') + bc_success b' \<le> length fs + length (bc_errors b) + bc_success b"
proof (induction fs arbitrary: b)
  case (Cons f fs)
  then obtain b1 where b1: "check_file f b = Inr b1" "check_all fs b1 = Inr b'"
    by (auto split: sum.splits)
  have "length (bc_errors b1) + bc_success b1 \<le> Suc (length (bc_errors b) + bc_success b)"
    using b1(1) by (auto simp: check_file_def case_prod_beta Let_def split: option.splits if_splits dest: on_answer_counts)
  then show ?case using Cons.IH [OF b1(2)] by simp
qed simp

text \<open>The menu only opens files of the list.\<close>

lemma menu_opens_listed: "set (menu_loop errs stdin) \<subseteq> set (map editor_cmd errs)"
proof (induction errs stdin rule: menu_loop.induct)
  case (1 errs stdin)
  have chosen: "set (chosen errs tok) \<subseteq> set (map editor_cmd errs)" for tok
    by (auto simp: chosen_def Let_def nat_less_iff)
  have chosen': "set (concat (map (chosen errs) toks)) \<subseteq> set (map editor_cmd errs)" for toks
    using chosen by auto
  show ?case
  proof (cases "fgets 256 stdin")
    case None
    then show ?thesis by (simp add: menu_loop.simps)
  next
    case (Some p)
    obtain line rest where p: "p = (line, rest)" by (cases p)
    show ?thesis
    proof (cases "take 1 line \<in> {''Q'', ''q''}")
      case True
      then show ?thesis using Some p by (simp add: menu_loop.simps [of errs stdin])
    next
      case False
      then have "set (menu_loop errs rest) \<subseteq> set (map editor_cmd errs)" using 1 Some p by blast
      then show ?thesis using Some p False chosen'
        by (simp add: menu_loop.simps [of errs stdin] del: set_concat set_map)
    qed
  qed
qed

end
