(* ===== verification/Buffers.thy ===== *)
theory Buffers
  imports Server_Steps
begin

text \<open>
  The fixed-size buffers of the server. \<open>snprintf\<close> cuts what does not fit, but \<open>ctx_write_csv\<close> then writes as
  many bytes as the uncut row would have had, and the listing of \<open>CMD_GET_TRACKER\<close> advances its position by the
  uncut length of each entry: both are safe only as long as nothing is cut. That is an invariant of the running
  server of \<open>Server_Steps\<close>.
\<close>

section \<open>The texts of the context\<close>

definition bounded_ctx :: "ServerContext \<Rightarrow> bool" where
  "bounded_ctx ctx \<longleftrightarrow> length (current_hw ctx) < MAX_WEEK_NAME \<and>
     (\<forall>r \<in> set (students ctx). length (sr_id r) < MAX_STUDENT_ID)"

definition texts_bounded :: "sys \<Rightarrow> bool" where
  "texts_bounded s \<longleftrightarrow> bounded_ctx (ctx_of s)"

lemma bounded_paths: "bounded_ctx ctx \<Longrightarrow> bounded_ctx (set_hw_paths week ctx)"
  by (auto simp: bounded_ctx_def set_hw_paths_def)

lemma bounded_reset: "bounded_ctx ctx \<Longrightarrow> bounded_ctx (set_hw_reset_tracker ctx)"
  by (auto simp: bounded_ctx_def set_hw_reset_tracker_def empty_slot_def)

lemma bounded_record_at: "bounded_ctx ctx \<Longrightarrow> i < length (students ctx) \<Longrightarrow> bounded_ctx (fst (record_at now i g ctx))"
  by (auto simp: bounded_ctx_def record_at_def Let_def note_grade_def count_attempt_def dest!: set_update_subset_insert [THEN subsetD])

lemma bounded_record:
  assumes "bounded_ctx ctx"
  shows "bounded_ctx (fst (ctx_record_submission now ctx sid g))"
proof -
  have "bounded_ctx (ctx\<lparr>students := (students ctx)[i := new_record r sid]\<rparr>)" for i r
    using assms
    by (auto simp: bounded_ctx_def new_record_def dest!: set_update_subset_insert [THEN subsetD])
  then show ?thesis
    using assms bounded_record_at find_student_index find_free_index
    by (auto simp: ctx_record_submission_def split: option.split)
qed

lemma bounded_frame:
  "current_hw c' = current_hw c \<Longrightarrow> students c' = students c \<Longrightarrow> bounded_ctx c' = bounded_ctx c"
  by (simp add: bounded_ctx_def)

interpretation buffers: safe_system "sys_step e" "\<lambda>_. True" texts_bounded
proof
  fix s t
  assume s: "texts_bounded s" and st: "sys_step e s t"
  from st show "texts_bounded t"
  proof cases
    case (command req)
    then show ?thesis
      using s bounded_frame [of "fst (snd (handle_request e req (ctx_of s) (os_of s)))" "ctx_of s"]
        other_commands_frame [of req e "ctx_of s" "os_of s"] by (simp add: texts_bounded_def)
  next
    case (switch_csv week ctx' w')
    then show ?thesis
      using s bounded_frame [of ctx' "ctx_of s"] switch_csv_frame(1,4) [of e week "ctx_of s" "os_of s"]
      by (simp add: texts_bounded_def)
  next
    case (write_csv i sock task_hw sid g ms kb ctx' w')
    then show ?thesis
      using s bounded_frame [of ctx' "ctx_of s"] write_csv_frame(1,3) [of e "ctx_of s" sid g ms kb task_hw "os_of s"]
      by (simp add: texts_bounded_def worker_change)
  qed (use s in \<open>simp_all add: texts_bounded_def bounded_paths bounded_reset bounded_record worker_change\<close>)
qed

lemma bounded_init: "texts_bounded (sys_init e w)"
proof -
  have v: "valid_week ''week_1''" by (simp add: valid_week_def strlen_def cstr_def)
  show ?thesis
    using set_hw_valid(1,5) [OF v]
    by (simp add: texts_bounded_def sys_init_def ctx_init_def bounded_ctx_def empty_slot_def cstr_def)
qed

section \<open>Rows and listings\<close>

lemma grade_str_short: "length (grade_str g) \<le> 3"
  by (cases g) simp_all

lemma row_short:
  assumes "length (env_localtime e (env_now e)) < 32" and "length (cstr sid) \<le> 144" and "length (cstr week) \<le> 31"
  shows "length (csv_line e sid g ms kb week) < 512"
  using assms grade_str_short [of g] length_dec_u32 [of ms] length_dec_u32 [of kb]
  by (simp add: csv_line_def)

lemma entry_short:
  assumes "length (sr_id r) < MAX_STUDENT_ID"
  shows "length (tracker_entry r) \<le> 20"
proof -
  have "length (grade_name b) \<le> 3" for b
  proof (cases "b < 5")
    case True
    then have "unat b < 5" by (simp add: word_less_nat_alt)
    then have "unat b \<in> {0, 1, 2, 3, 4}" by auto
    then show ?thesis using True by (auto simp: grade_name_def gnames_def)
  qed (simp add: grade_name_def)
  from this [of "best_result r"] assms show ?thesis by (simp add: tracker_entry_def)
qed

text \<open>Whole entries only, and all of them within the array.\<close>

lemma listing_whole:
  assumes "\<forall>r \<in> set rs. length (sr_id r) < MAX_STUDENT_ID" and "pos < IPC_MAX_PAYLOAD"
  shows "\<exists>k. list_students rs pos = concat (map tracker_entry (take k rs)) \<and> pos + length (list_students rs pos) < IPC_MAX_PAYLOAD"
  using assms
proof (induction rs arbitrary: pos)
  case (Cons r rs)
  show ?case
  proof (cases "pos < IPC_MAX_PAYLOAD - 24 \<and> sr_id r \<noteq> []")
    case False
    then show ?thesis using Cons.prems(2) by (intro exI [of _ 0]) auto
  next
    case True
    have len: "length (tracker_entry r) \<le> 20" using Cons.prems(1) by (simp add: entry_short)
    then have "pos + length (tracker_entry r) < IPC_MAX_PAYLOAD" using True by (simp add: IPC_MAX_PAYLOAD_def)
    then obtain k where "list_students rs (pos + length (tracker_entry r)) = concat (map tracker_entry (take k rs)) \<and>
        pos + length (tracker_entry r) + length (list_students rs (pos + length (tracker_entry r))) < IPC_MAX_PAYLOAD"
      using Cons.IH Cons.prems(1) by force
    then show ?thesis using True len by (intro exI [of _ "Suc k"]) (auto simp: IPC_MAX_PAYLOAD_def)
  qed
qed simp

section \<open>Property\<close>

text \<open>C29: no text is cut on the running server. In every interleaving of the main thread and the workers, the
  row of a well-formed submission is shorter than the 512 bytes of its buffer, the answer to
  \<open>CMD_GET_TRACKER\<close> consists of whole entries and ends before the end of its array, and the path of the
  week's files is complete.\<close>

theorem texts_fit_buffers:
  assumes "runs (sys_step e) (\<lambda>_. True) (sys_init e w) s" and "wf_SubmitHeader h"
    and "length (env_localtime e (env_now e)) < 32"
    and "line = tracker_line (submitted_count (ctx_of s)) (total_students (ctx_of s))
           (take (MAX_WEEK_NAME - 1) (cstr (current_hw (ctx_of s)))) (total_records (csv (ctx_of s)))"
  shows "length (csv_line e (sid_of h) g ms kb (note_week (ctx_of s))) < 512 \<and>
     (\<exists>k. list_students (students (ctx_of s)) (length line) = concat (map tracker_entry (take k (students (ctx_of s))))) \<and>
     length line + length (list_students (students (ctx_of s)) (length line)) < IPC_MAX_PAYLOAD \<and>
     dist_dir_of (ctx_of s) = DIST_ROOT @ ''/'' @ current_hw (ctx_of s)"
proof -
  let ?c = "ctx_of s"
  have "texts_bounded s" by (rule buffers.runs_safe [OF assms(1) bounded_init])
  then have c: "length (current_hw ?c) < MAX_WEEK_NAME" "\<forall>r \<in> set (students ?c). length (sr_id r) < MAX_STUDENT_ID"
    by (simp_all add: texts_bounded_def bounded_ctx_def)
  have "length (cstr (sid_of h)) \<le> 144"
    using length_cstr [of "sid_of h"] assms(2) by (simp add: sid_of_def wf_SubmitHeader_def)
  moreover have hw: "length (cstr (current_hw ?c)) \<le> 31" using c(1) length_cstr [of "current_hw ?c"] by simp
  then have "cstr (note_week ?c) = cstr (current_hw ?c)" by (simp add: note_week_def strncpy_def Let_def cstr_no_nul)
  with hw have "length (cstr (note_week ?c)) \<le> 31" by simp
  ultimately have row: "length (csv_line e (sid_of h) g ms kb (note_week ?c)) < 512"
    by (intro row_short assms(3))
  have "length line < IPC_MAX_PAYLOAD"
    unfolding assms(4) using length_dec_u16 [of "submitted_count ?c"] length_dec_u16 [of "total_students ?c"]
      length_dec_u32 [of "total_records (csv ?c)"] by (simp add: tracker_line_def IPC_MAX_PAYLOAD_def)
  from listing_whole [OF c(2) this] row c(1) show ?thesis
    by (auto simp: dist_dir_of_def snprintf_def DIST_ROOT_def)
qed

text \<open>The first grade of the first week has just been recorded.\<close>

theorem texts_fit_buffers_witness:
  "length (csv_line demo_os_env (sid_of demo_header) GRADE_TLE 5000 65536 (note_week (ctx_of demo_recording))) < 512 \<and>
   dist_dir_of (ctx_of demo_recording) = DIST_ROOT @ ''/week_1''"
proof -
  have r: "runs (sys_step demo_os_env) (\<lambda>_. True) (sys_init demo_os_env demo_os) demo_recording"
    by (rule runs_any [OF demo_runs_uncrowded])
  have "current_hw (ctx_of demo_recording) = ''week_1''" by (simp add: demo_defs record_frame demo_week)
  then show ?thesis
    using texts_fit_buffers [OF r _ _ refl, of demo_header GRADE_TLE 5000 65536]
    by (simp add: wf_SubmitHeader_def demo_header_def demo_os_env_def)
qed

end
