(* ===== verification/Forged_Result.thy ===== *)
theory Forged_Result
  imports Client_Submit Descriptors
begin

text \<open>
  What the open files of \<open>Descriptors\<close> mean for the students: the submitted program, the worker that grades it
  (\<open>Grading\<close>) and the client that waits for the result (\<open>Client_Submit\<close>) at one connection. The program runs
  before the worker replies, and the client takes the first packet it gets.
\<close>

section \<open>A write of the submitted program\<close>

text \<open>\<open>write (n, bs)\<close> in the program that \<open>handle_client\<close> starts from the table \<open>t\<close>, as far as the connection
  numbered \<open>c\<close> is concerned.\<close>

definition program_write :: "fd_env \<Rightarrow> fd_table \<Rightarrow> nat \<Rightarrow> nat \<Rightarrow> byte list \<Rightarrow> link \<Rightarrow> link" where
  "program_write fe t n c bs l =
     (if fd_at (program_fds fe t) n = Some (Connection c) \<and> seccomp_verdict (SCMP_SYS Sys_write) = SCMP_ACT_ALLOW
      then snd (send bs l) else l)"

section \<open>Property\<close>

text \<open>C13: a submission can award itself a grade. A program that writes a result packet to the number of its own
  student's connection, which is open in it, makes the student's client accept this packet: whatever the
  worker then grades, records and sends, the client reports the forged grade, and its status bar and card
  are those of the forged packet. The tracker and the results file get the true grade.\<close>

theorem forged_result_reaches_student:
  assumes "fd_at t n = Some (Connection c)" and "1 < n" and "wf_ResultHeader forged" and "tx l = []" and "sent l = []"
    and "build_and_send_result now e h g ms kb week wd (program_write fe t n c (enc_ResultHeader forged) l) = (wd', l')"
    and "pending s = sent l'" and "send_source ce sid path s out io = (0, res, io')"
  shows "res = forged \<and> io_status io' = on_result_received forged (io_status io) \<and>
     io_card io' = print_result_card forged path \<and>
     wd' = fst (build_and_send_result now e h g ms kb week wd l)"
proof -
  have "program_write fe t n c (enc_ResultHeader forged) l = l\<lparr>sent := enc_ResultHeader forged\<rparr>"
    using program_keeps_files [OF assms(1,2)] write_allowed assms(4,5) by (simp add: program_write_def send_def)
  then obtain rest where "sent l' = enc_ResultHeader forged @ rest"
    using assms(4,6) by (auto simp: build_and_send_result_def send_def case_prod_beta Let_def)
  then have got: "dec_ResultHeader (take sizeof_ResultHeader (pending s)) = forged"
    using assms(7) result.dec_take [OF assms(3)] by simp
  have res: "res = dec_ResultHeader (take sizeof_ResultHeader (pending s))"
    "io_status io' = on_result_received res (io_status io)"
    using send_source_uploaded [OF assms(8)] by blast+
  have "io_card io' = print_result_card res path"
    using assms(8) by (auto simp: send_source_def Let_def case_prod_beta split: if_splits option.splits)
  moreover have "wd' = fst (build_and_send_result now e h g ms kb week wd l)"
    using assms(6) by (auto simp: build_and_send_result_def case_prod_beta Let_def)
  ultimately show ?thesis using res got by simp
qed

lemma demo_client_served:
  assumes "sizeof_ResultHeader \<le> length (pending s)"
  shows "fst (send_source demo_client sid path s out demo_io) = 0"
proof -
  have free: "send_retry bs \<lparr>sent = u, tx = []\<rparr> = ([], \<lparr>sent = u @ bs, tx = []\<rparr>)" for bs u
    by (cases "bs = []") (simp_all add: send_retry.simps send_def EINTR_def)
  obtain rn got s' where r: "recv_waitall sizeof_ResultHeader s = (rn, got, s')" by (metis prod_cases3)
  then have "rn = int sizeof_ResultHeader"
    using recv_waitall_result [of sizeof_ResultHeader s] assms by (auto simp: min_def)
  then show ?thesis using r by (simp add: send_source_def demo_client_def demo_io_def free Let_def)
qed

theorem forged_result_reaches_student_witness:
  "let t = server_files True True @ [Some (Connection 1)];
       forged = result_header demo_header GRADE_AC 1 2 ''w1'' 1 30 1;
       l' = snd (build_and_send_result 7 demo_os_env demo_header GRADE_WA 5 6 ''w1'' (demo_world ''w1'' ''42'')
              (program_write all_opens t 8 1 (enc_ResultHeader forged) \<lparr>sent = [], tx = []\<rparr>));
       (r, res, io) = send_source demo_client ''20240123'' ''hw.c'' \<lparr>rx = [sent l'], rx_reset = False\<rparr> zero_result demo_io
   in r = 0 \<and> shown_grade (rh_result res) = ''AC''"
proof -
  let ?t = "server_files True True @ [Some (Connection 1)]"
  let ?forged = "result_header demo_header GRADE_AC 1 2 ''w1'' 1 30 1"
  let ?l = "program_write all_opens ?t 8 1 (enc_ResultHeader ?forged) \<lparr>sent = [], tx = []\<rparr>"
  obtain wd' l' where b: "build_and_send_result 7 demo_os_env demo_header GRADE_WA 5 6 ''w1'' (demo_world ''w1'' ''42'') ?l = (wd', l')"
    by fastforce
  let ?s = "\<lparr>rx = [sent l'], rx_reset = False\<rparr>"
  obtain r res io where sc: "send_source demo_client ''20240123'' ''hw.c'' ?s zero_result demo_io = (r, res, io)"
    by (metis prod_cases3)
  have at: "fd_at ?t 8 = Some (Connection 1)" by code_simp
  have wf: "wf_ResultHeader ?forged"
    by (simp add: wf_ResultHeader_def result_header_def length_strncpy)
  have "329 \<le> length (pending ?s)"
    using b result.enc_length [OF wf] program_keeps_files [OF at, of all_opens] write_allowed
    by (auto simp: program_write_def build_and_send_result_def send_def pending_def case_prod_beta Let_def)
  then have r: "r = 0" using demo_client_served [of ?s "''20240123''" "''hw.c''" zero_result] sc by simp
  have "res = ?forged"
    using forged_result_reaches_student [OF at _ wf _ _ b, of ?s demo_client "''20240123''" "''hw.c''" zero_result demo_io] sc r
    by (simp add: pending_def)
  then have "shown_grade (rh_result res) = ''AC''" by (simp add: result_header_def shown_grade_def client_gnames_def)
  then show ?thesis using b sc r by (simp add: Let_def)
qed

end
