(* ===== verification/Backup_Upload.thy ===== *)
theory Backup_Upload
  imports Client_Submit
begin

text \<open>
  The upload of a submission in the version kept in \<^verbatim>\<open>backup/snapshot_lms_v3\<close>. Its client announces the
  file's size in network order; its \<open>handle_client\<close> uses the field as it is. The worker and the client are a
  step relation, since what matters is that both wait: a \<open>recv\<close> returns when there are bytes or the other
  side has closed, and the client closes when it has the result. The current version, which converts the
  field, is the same relation with another bound. An instance of \<open>finite_runs\<close>.
\<close>

section \<open>The announced size\<close>

text \<open>The four bytes of a number in network order, read in the order of an x86 processor.\<close>

definition host_read :: "u32 \<Rightarrow> u32" where
  "host_read w = of_be32 (rev (be32 w))"

definition backup_remain :: "SubmitHeader \<Rightarrow> nat" where
  "backup_remain h = unat (host_read (sh_file_size h))"

text \<open>\<open>source.c\<close> in this version.\<close>

definition backup_receive :: "judge \<Rightarrow> SubmitHeader \<Rightarrow> sock \<Rightarrow> byte list option" where
  "backup_receive jg h s = receive_source jg (backup_remain h) s"

lemma host_read_low: "drop_bit 24 (host_read w) = ucast (ucast w :: byte)"
  by (rule bit_word_eqI) (auto simp: host_read_def be32_def of_be32_def bit_simps dest: bit_imp_le_length)

lemma host_read_large:
  assumes "unat w mod 256 \<noteq> 0"
  shows "2 ^ 24 \<le> unat (host_read w)"
proof -
  have "unat (host_read w) div 2 ^ 24 = unat (ucast (ucast w :: byte) :: u32)"
    unfolding host_read_low [symmetric] by (simp add: unat_drop_bit_eq drop_bit_eq_div [where 'a = nat])
  also have "\<dots> = unat w mod 256" by (simp add: unsigned_ucast_eq unsigned_take_bit_eq take_bit_eq_mod [where 'a = nat])
  finally show ?thesis using assms by (metis div_less not_le)
qed

section \<open>The worker and the client\<close>

record upload =
  up_wire :: "byte list"
  up_got :: "byte list"
  up_open :: bool
  up_done :: bool

definition upload_init :: "byte list \<Rightarrow> upload" where
  "upload_init payload = \<lparr>up_wire = payload, up_got = [], up_open = True, up_done = False\<rparr>"

text \<open>\<open>remain\<close> is what the loop begins with. Once it has ended, the submission is graded and the client, if it
  is still there, receives its result and leaves.\<close>

inductive upload_step :: "nat \<Rightarrow> upload \<Rightarrow> upload \<Rightarrow> bool" for remain where
  up_recv: "\<not> up_done s \<Longrightarrow> 0 < n \<Longrightarrow> n \<le> min 4096 (remain - length (up_got s)) \<Longrightarrow> n \<le> length (up_wire s) \<Longrightarrow>
     upload_step remain s (s\<lparr>up_got := up_got s @ take n (up_wire s), up_wire := drop n (up_wire s)\<rparr>)"
| up_eof: "\<not> up_done s \<Longrightarrow> up_wire s = [] \<Longrightarrow> \<not> up_open s \<Longrightarrow> upload_step remain s (s\<lparr>up_done := True\<rparr>)"
| up_all: "\<not> up_done s \<Longrightarrow> remain \<le> length (up_got s) \<Longrightarrow> upload_step remain s (s\<lparr>up_done := True\<rparr>)"
| up_result: "up_done s \<Longrightarrow> up_open s \<Longrightarrow> upload_step remain s (s\<lparr>up_open := False\<rparr>)"

inductive_cases upload_stepE: "upload_step remain s t"

text \<open>The user ends the client from the keyboard.\<close>

definition up_interrupted :: "upload \<Rightarrow> upload" where
  "up_interrupted s = s\<lparr>up_open := False\<rparr>"

definition upload_inv :: "nat \<Rightarrow> byte list \<Rightarrow> upload \<Rightarrow> bool" where
  "upload_inv remain payload s \<longleftrightarrow>
     up_got s @ up_wire s = payload \<and> length (up_got s) \<le> remain \<and>
     (up_done s \<longrightarrow> length (up_got s) = remain \<or> up_wire s = [] \<and> \<not> up_open s)"

definition upload_weight :: "upload \<Rightarrow> nat" where
  "upload_weight s = length (up_wire s) + (if up_open s then 1 else 0) + (if up_done s then 0 else 1)"

interpretation uploading: finite_runs "upload_step remain" "upload_inv remain payload" upload_weight
proof
  fix s t
  assume "upload_inv remain payload s" "upload_step remain s t"
  then show "upload_inv remain payload t" by (auto simp: upload_inv_def elim!: upload_stepE)
next
  fix s t
  assume "upload_inv remain payload s" "upload_step remain s t"
  then show "upload_weight t < upload_weight s"
    by (auto simp: upload_inv_def upload_weight_def elim!: upload_stepE)
qed

lemma upload_inv_init: "upload_inv remain payload (upload_init payload)"
  by (simp add: upload_inv_def upload_init_def)

text \<open>Where no step is possible any more.\<close>

lemma upload_stuck:
  assumes "upload_inv remain payload s" and "\<nexists>t. upload_step remain s t"
  shows "if up_done s then \<not> up_open s
         else up_open s \<and> up_got s = payload \<and> length payload < remain"
proof (cases "up_done s")
  case True
  then show ?thesis using assms(2) upload_step.up_result by auto
next
  case False
  then have "length (up_got s) < remain" using assms(2) upload_step.up_all by (metis not_le)
  moreover have "up_wire s = []"
  proof (rule ccontr)
    assume "up_wire s \<noteq> []"
    then show False
      using assms(2) False upload_step.up_recv [of s 1 remain] \<open>length (up_got s) < remain\<close>
      by (auto simp: Suc_le_eq)
  qed
  moreover have "up_open s" using assms(2) False \<open>up_wire s = []\<close> upload_step.up_eof by blast
  ultimately show ?thesis using False assms(1) by (auto simp: upload_inv_def)
qed

lemma upload_run_stuck:
  assumes "(upload_step remain ^^ n) s t" and "upload_inv remain payload s" and "\<nexists>u. upload_step remain t u"
  shows "if up_done t then \<not> up_open t else up_open t \<and> up_got t = payload \<and> length payload < remain"
  using uploading.run_inv [OF assms(1,2)] assms(3) by (rule upload_stuck)

text \<open>A client that has gone stays gone, and one that is there leaves only with its result.\<close>

lemma upload_closed: "(upload_step remain ^^ n) s t \<Longrightarrow> \<not> up_open s \<Longrightarrow> \<not> up_open t"
  by (induction n arbitrary: t) (auto elim!: upload_stepE)

lemma upload_waits: "(upload_step remain ^^ n) (upload_init payload) t \<Longrightarrow> length payload < remain \<Longrightarrow>
    \<not> up_done t \<and> up_open t"
proof (induction n arbitrary: t)
  case (Suc n)
  then obtain s where s: "(upload_step remain ^^ n) (upload_init payload) s" "upload_step remain s t" by auto
  have "upload_inv remain payload s" by (rule uploading.run_inv [OF s(1) upload_inv_init])
  moreover have "\<not> up_done s \<and> up_open s" using Suc s(1) by simp
  ultimately show ?case using s(2) Suc.prems(2) by (auto simp: upload_inv_def elim!: upload_stepE)
qed (simp add: upload_init_def)

section \<open>Property\<close>

text \<open>C36: the earlier server never answers an ordinary submission. It takes the announced size in
  network order for one in its own; unless the file's length is a multiple of 256, that number is far
  larger than the file, so after at most as many steps as the file has bytes the worker waits for the rest and
  the client for its result. Only when the client is ended does the worker go on, with exactly the file.
  With the conversion the current version makes, every upload ends with the file received and the
  client served.\<close>

theorem backup_upload_blocks:
  assumes "length source \<le> 1024 * 1024" and "length source mod 256 \<noteq> 0"
    and "h = submit_header sid path source"
  shows "(\<forall>n s. (upload_step (backup_remain h) ^^ n) (upload_init source) s \<longrightarrow>
        n \<le> length source \<and> \<not> up_done s \<and>
        ((\<nexists>t. upload_step (backup_remain h) s t) \<longrightarrow> up_got s = source) \<and>
        (\<forall>m t. (upload_step (backup_remain h) ^^ m) (up_interrupted s) t \<and>
           (\<nexists>u. upload_step (backup_remain h) t u) \<longrightarrow> up_done t \<and> up_got t = source)) \<and>
     (\<forall>n s. (upload_step (unat (sh_file_size h)) ^^ n) (upload_init source) s \<longrightarrow>
        n \<le> length source + 2 \<and>
        ((\<nexists>t. upload_step (unat (sh_file_size h)) s t) \<longrightarrow> up_done s \<and> \<not> up_open s \<and> up_got s = source))"
    (is "(\<forall>n s. ?old n s \<longrightarrow> ?waits n s) \<and> (\<forall>n s. ?new n s \<longrightarrow> ?ends n s)")
proof -
  have size: "unat (sh_file_size h) = length source"
    using submit_header_size [of source sid path] assms(1,3) by simp
  then have "2 ^ 24 \<le> backup_remain h"
    using host_read_large [of "sh_file_size h"] assms(2) by (simp add: backup_remain_def)
  then have large: "length source < backup_remain h" using assms(1) by simp
  have old: "?waits n s" if run: "?old n s" for n s
  proof -
    have w: "\<not> up_done s \<and> up_open s" by (rule upload_waits [OF run large])
    have inv: "upload_inv (backup_remain h) source s" by (rule uploading.run_inv [OF run upload_inv_init])
    have "n + upload_weight s \<le> upload_weight (upload_init source)"
      by (rule uploading.run_bounded [OF run upload_inv_init])
    then have "n \<le> length source" using w by (simp add: upload_weight_def upload_init_def)
    moreover have "up_got s = source" if "\<nexists>t. upload_step (backup_remain h) s t"
      using upload_stuck [OF inv that] w by simp
    moreover have "up_done t \<and> up_got t = source"
      if t: "(upload_step (backup_remain h) ^^ m) (up_interrupted s) t" "\<nexists>u. upload_step (backup_remain h) t u" for m t
    proof -
      have i: "upload_inv (backup_remain h) source (up_interrupted s)"
        using inv w by (simp add: upload_inv_def up_interrupted_def)
      have "\<not> up_open t" using upload_closed [OF t(1)] by (simp add: up_interrupted_def)
      then have "up_done t" using upload_run_stuck [OF t(1) i t(2)] by (metis (full_types))
      then show ?thesis
        using uploading.run_inv [OF t(1) i] large by (auto simp: upload_inv_def)
    qed
    ultimately show ?thesis using w by blast
  qed
  have new: "?ends n s" if run: "?new n s" for n s
  proof -
    have inv: "upload_inv (length source) source s"
      using uploading.run_inv [OF run [unfolded size] upload_inv_init] .
    have "n + upload_weight s \<le> upload_weight (upload_init source)"
      by (rule uploading.run_bounded [OF run upload_inv_init])
    then have "n \<le> length source + 2" by (simp add: upload_weight_def upload_init_def)
    moreover have "up_done s \<and> \<not> up_open s \<and> up_got s = source" if "\<nexists>t. upload_step (unat (sh_file_size h)) s t"
    proof -
      have "\<nexists>t. upload_step (length source) s t" using that unfolding size .
      from upload_stuck [OF inv this] have d: "up_done s" "\<not> up_open s" by (auto split: if_splits)
      have "up_got s @ up_wire s = source" "length (up_got s) = length source \<or> up_wire s = []"
        using inv d(1) unfolding upload_inv_def by blast+
      then have "up_got s = source" by (metis append_eq_conv_conj append_Nil2 take_all order_refl)
      with d show ?thesis by blast
    qed
    ultimately show ?thesis by blast
  qed
  show ?thesis
  proof (rule conjI)
    show "\<forall>n s. ?old n s \<longrightarrow> ?waits n s" by (rule allI, rule allI, rule impI, rule old)
    show "\<forall>n s. ?new n s \<longrightarrow> ?ends n s" by (rule allI, rule allI, rule impI, rule new)
  qed
qed

text \<open>A file of three bytes: the worker waits for 50331648.\<close>

theorem backup_upload_blocks_witness:
  "backup_remain (submit_header ''20240123'' ''hw.c'' [1, 2, 3]) = 50331648 \<and>
   (upload_step 50331648 ^^ 1) (upload_init [1, 2, 3])
     \<lparr>up_wire = [], up_got = [1, 2, 3], up_open = True, up_done = False\<rparr> \<and>
   (\<nexists>t. upload_step 50331648 \<lparr>up_wire = [], up_got = [1, 2, 3], up_open = True, up_done = False\<rparr> t)"
proof -
  let ?s = "\<lparr>up_wire = [], up_got = [1, 2, 3], up_open = True, up_done = False\<rparr>"
  have r: "backup_remain (submit_header ''20240123'' ''hw.c'' [1, 2, 3]) = 50331648"
    by (simp add: backup_remain_def submit_header_def host_read_def be32_def of_be32_def)
  have run: "(upload_step 50331648 ^^ 1) (upload_init [1, 2, 3]) ?s"
    using upload_step.up_recv [of "upload_init [1, 2, 3]" 3 50331648] by (simp add: upload_init_def eq_OO)
  have "(1 :: nat) \<le> 3"
    using backup_upload_blocks [of "[1, 2, 3]" _ "''20240123''" "''hw.c''", OF _ _ refl, THEN conjunct1,
        rule_format, of 1 ?s] run r by simp
  moreover have "\<not> upload_step 50331648 ?s t" for t by (auto elim: upload_stepE)
  ultimately show ?thesis using r run by blast
qed

end
