(* ===== verification/Backup_Grading.thy ===== *)
theory Backup_Grading
  imports Ctl Client_Submit
begin

text \<open>
  Recording and replying in the version kept in \<^verbatim>\<open>backup/snapshot_lms_v3\<close>: its result packet
  (\<^verbatim>\<open>include/protocol.h\<close>), \<^verbatim>\<open>server/server_ctx.c\<close>, \<open>build_and_send_result\<close> of \<^verbatim>\<open>server/server.c\<close> and
  \<open>on_result_received\<close> of \<^verbatim>\<open>client/client.c\<close>, and how they relate to the current ones. The context is that of
  \<open>Server_Ctx\<close>; the field \<open>csv_path\<close>, which this version does not have, stays as it is. Parts of a function
  that are the same in both versions (\<open>set_hw_paths\<close>, \<open>set_hw_dirs\<close>, \<open>find_student\<close>, \<open>note_grade\<close>,
  \<open>csv_append\<close> and others) are those of the current version.
\<close>

section \<open>The result packet\<close>

definition backup_PROTO_VERSION :: byte where
  "backup_PROTO_VERSION = 2"

record BackupResult = CommonHeader +
  br_student_id :: string
  br_filename :: string
  br_result :: byte
  br_exec_time_ms :: u32
  br_memory_kb :: u32
  br_submitted_count :: u16
  br_total_students :: u16
  br_week_name :: string
  br_message :: string

definition sizeof_BackupResult :: nat where
  "sizeof_BackupResult = 325"

definition enc_BackupResult :: "BackupResult \<Rightarrow> byte list" where
  "enc_BackupResult h =
     enc_common h @ bytes (br_student_id h) @ bytes (br_filename h) @ [br_result h]
       @ be32 (br_exec_time_ms h) @ be32 (br_memory_kb h) @ be16 (br_submitted_count h)
       @ be16 (br_total_students h) @ bytes (br_week_name h) @ bytes (br_message h)"

definition dec_BackupResult :: "byte list \<Rightarrow> BackupResult" where
  "dec_BackupResult bs =
     \<lparr>magic = of_be32 (field 0 4 bs), version = bs ! 4, pkt_type = bs ! 5,
      header_size = of_be16 (field 6 2 bs),
      br_student_id = chars_at 8 16 bs,
      br_filename = chars_at 24 128 bs,
      br_result = bs ! 152,
      br_exec_time_ms = of_be32 (field 153 4 bs),
      br_memory_kb = of_be32 (field 157 4 bs),
      br_submitted_count = of_be16 (field 161 2 bs),
      br_total_students = of_be16 (field 163 2 bs),
      br_week_name = chars_at 165 32 bs,
      br_message = chars_at 197 128 bs\<rparr>"

definition wf_BackupResult :: "BackupResult \<Rightarrow> bool" where
  "wf_BackupResult h \<longleftrightarrow> length (br_student_id h) = 16 \<and> length (br_filename h) = 128 \<and>
     length (br_week_name h) = 32 \<and> length (br_message h) = 128"

interpretation backup_result: packet_codec enc_BackupResult dec_BackupResult wf_BackupResult CommonHeader.truncate
  sizeof_BackupResult
proof
  fix h :: BackupResult and bs :: "byte list"
  show "wf_BackupResult h \<Longrightarrow> length (enc_BackupResult h) = sizeof_BackupResult"
    by (simp add: enc_BackupResult_def wf_BackupResult_def sizeof_BackupResult_def)
  show "wf_BackupResult h \<Longrightarrow> dec_BackupResult (enc_BackupResult h) = h"
    by (simp add: dec_BackupResult_def enc_BackupResult_def enc_common_def wf_BackupResult_def chars_at_def
        wire_simps del: append_Cons)
  show "\<exists>body. enc_BackupResult h = enc_common (CommonHeader.truncate h) @ body"
    by (simp add: enc_BackupResult_def)
  show "length bs = sizeof_BackupResult \<Longrightarrow> wf_BackupResult (dec_BackupResult bs)"
    by (simp add: wf_BackupResult_def dec_BackupResult_def chars_at_def length_field sizeof_BackupResult_def)
qed

section \<open>The context\<close>

definition CSV_PATH :: string where
  "CSV_PATH = ''results.csv''"

definition backup_set_hw :: "env \<Rightarrow> string \<Rightarrow> ServerContext \<Rightarrow> os \<Rightarrow> ServerContext \<times> os" where
  "backup_set_hw e week_name ctx w =
     (if strlen week_name = 0 \<or> MAX_WEEK_NAME \<le> strlen week_name then (ctx, w)
      else let ctx1 = set_hw_paths (cstr week_name) ctx in (ctx1, set_hw_dirs e ctx1 w))"

text \<open>The one results file of this version is opened once.\<close>

definition backup_open_csv :: "env \<Rightarrow> ServerContext \<Rightarrow> os \<Rightarrow> ServerContext \<times> os" where
  "backup_open_csv e ctx w =
     (let need_header = (os_files w CSV_PATH = None);
          fd = env_open e CSV_PATH;
          c1 = (csv ctx)\<lparr>csv_fd := fd\<rparr>
      in if fd < 0 then (ctx\<lparr>csv := c1\<rparr>, w)
         else let w1 = w\<lparr>os_fds := (os_fds w)(fd \<mapsto> CSV_PATH),
                         os_files := (os_files w)(CSV_PATH \<mapsto> (case os_files w CSV_PATH of Some t \<Rightarrow> t | None \<Rightarrow> []))\<rparr>;
                  w2 = (if need_header then snd (csv_write e fd csv_header w1) else w1)
              in (ctx\<lparr>csv := c1\<lparr>total_records := 0\<rparr>\<rparr>, w2))"

definition backup_init :: "env \<Rightarrow> os \<Rightarrow> ServerContext \<times> os" where
  "backup_init e w =
     (let (ctx1, w1) = backup_set_hw e ''week_1''
            \<lparr>current_hw = [], ans_path = [], submit_dir = [],
             students = replicate MAX_STUDENTS empty_slot, total_students = 0, submitted_count = 0,
             csv = \<lparr>total_records = 0, last_write_ts = 0, csv_fd = 0, csv_path = []\<rparr>,
             paused = 0, dist_paused = 0, timeout_ms = 0\<rparr> w
      in backup_open_csv e
           (ctx1\<lparr>paused := 0, timeout_ms := 5000, total_students := 0, submitted_count := 0\<rparr>) w1)"

text \<open>The attempt counter wraps around, and nothing is reported back.\<close>

definition backup_record_at :: "int \<Rightarrow> nat \<Rightarrow> GradeResult \<Rightarrow> ServerContext \<Rightarrow> ServerContext" where
  "backup_record_at now i g ctx =
     (let r = (students ctx ! i)\<lparr>submit_count := submit_count (students ctx ! i) + 1, last_submit_ts := now\<rparr>;
          first_ac = (g = GRADE_AC \<and> submitted r = 0)
      in ctx\<lparr>students := (students ctx)[i := note_grade g r],
             submitted_count := (if first_ac then submitted_count ctx + 1 else submitted_count ctx)\<rparr>)"

definition backup_record_submission :: "int \<Rightarrow> ServerContext \<Rightarrow> string \<Rightarrow> GradeResult \<Rightarrow> ServerContext" where
  "backup_record_submission now ctx sid g =
     (case find_student (students ctx) sid of
        Some i \<Rightarrow> backup_record_at now i g ctx
      | None \<Rightarrow>
          (case find_free (students ctx) of
             Some i \<Rightarrow>
               backup_record_at now i g
                 (ctx\<lparr>students := (students ctx)[i := new_record (students ctx ! i) sid]\<rparr>)
           | None \<Rightarrow> ctx))"

definition backup_write_csv ::
  "env \<Rightarrow> ServerContext \<Rightarrow> string \<Rightarrow> GradeResult \<Rightarrow> u32 \<Rightarrow> u32 \<Rightarrow> os \<Rightarrow> ServerContext \<times> os" where
  "backup_write_csv e ctx sid g exec_ms mem_kb w =
     (if csv_fd (csv ctx) < 0 then (ctx, w)
      else let week_snap = take (MAX_WEEK_NAME - 1) (cstr (current_hw ctx))
           in csv_append e (csv_line e sid g exec_ms mem_kb week_snap) ctx w)"

section \<open>Replying\<close>

definition backup_result_header ::
  "SubmitHeader \<Rightarrow> GradeResult \<Rightarrow> u32 \<Rightarrow> u32 \<Rightarrow> string \<Rightarrow> u16 \<Rightarrow> u16 \<Rightarrow> BackupResult" where
  "backup_result_header h grade exec_ms mem_kb week n_submitted n_total =
     \<lparr>magic = MAGIC_NUMBER, version = backup_PROTO_VERSION, pkt_type = server_pkt RES_RESULT,
      header_size = of_nat sizeof_BackupResult,
      br_student_id = strncpy (replicate MAX_STUDENT_ID NUL) (sid_of h) MAX_STUDENT_ID,
      br_filename = strncpy (replicate MAX_FILENAME NUL) (sh_filename h) MAX_FILENAME,
      br_result = grade_code grade, br_exec_time_ms = exec_ms, br_memory_kb = mem_kb,
      br_submitted_count = n_submitted, br_total_students = n_total,
      br_week_name = strncpy (replicate MAX_WEEK_NAME NUL) week MAX_WEEK_NAME,
      br_message = replicate 128 NUL\<rparr>"

text \<open>The packet goes out first, with the counts as they were; then the attempt is recorded, under whatever
  week is current.\<close>

definition backup_build_and_send ::
  "int \<Rightarrow> env \<Rightarrow> SubmitHeader \<Rightarrow> GradeResult \<Rightarrow> u32 \<Rightarrow> u32 \<Rightarrow> world \<Rightarrow> link \<Rightarrow> world \<times> link" where
  "backup_build_and_send now e h grade exec_ms mem_kb wd l =
     (let ctx = wd_ctx wd;
          resp = backup_result_header h grade exec_ms mem_kb (current_hw ctx) (submitted_count ctx) (total_students ctx);
          l' = snd (send (enc_BackupResult resp) l);
          c1 = backup_record_submission now ctx (sid_of h) grade;
          (c2, w2) = backup_write_csv e c1 (sid_of h) grade exec_ms mem_kb (wd_os wd)
      in (\<lparr>wd_ctx = c2, wd_os = w2\<rparr>, l'))"

text \<open>The client of this version; its status has no attempt count.\<close>

definition backup_on_result :: "BackupResult \<Rightarrow> client_status \<Rightarrow> client_status" where
  "backup_on_result r st =
     st\<lparr>st_week := take (MAX_WEEK_NAME - 1) (cstr (br_week_name r)),
        st_submitted := br_submitted_count r, st_total := br_total_students r,
        last_result := take 7 (shown_grade (br_result r)), last_exec_ms := br_exec_time_ms r\<rparr>"

section \<open>The two versions\<close>

lemma record_at_agrees:
  assumes "submit_count (students ctx ! i) \<noteq> 0xFFFFFFFF"
  shows "fst (record_at now i g ctx) = backup_record_at now i g ctx"
proof -
  have "(0xFFFFFFFF :: u32) = - 1" by simp
  then have "submit_count (students ctx ! i) < 0xFFFFFFFF"
    using assms word_order.not_eq_extremum [of "submit_count (students ctx ! i)"] by metis
  then show ?thesis by (simp add: record_at_def backup_record_at_def count_attempt_def Let_def)
qed

lemma record_agrees:
  assumes "\<forall>r \<in> set (students ctx). submit_count r \<noteq> 0xFFFFFFFF"
  shows "fst (ctx_record_submission now ctx sid g) = backup_record_submission now ctx sid g"
proof (cases "find_student (students ctx) sid")
  case (Some i)
  then have "submit_count (students ctx ! i) \<noteq> 0xFFFFFFFF" using assms find_student_index by auto
  with Some show ?thesis by (simp add: ctx_record_submission_def backup_record_submission_def record_at_agrees)
next
  case None
  then show ?thesis
    by (auto simp: ctx_record_submission_def backup_record_submission_def record_at_agrees new_record_def
        dest: find_free_index split: option.split)
qed

lemma record_keeps_week: "current_hw (backup_record_submission now ctx sid g) = current_hw ctx"
  by (simp add: backup_record_submission_def backup_record_at_def Let_def split: option.split)

lemma backup_set_hw_valid:
  assumes "valid_week week"
  shows "students (fst (backup_set_hw e week ctx w)) = students ctx"
    and "submitted_count (fst (backup_set_hw e week ctx w)) = submitted_count ctx"
    and "csv (fst (backup_set_hw e week ctx w)) = csv ctx"
    and "current_hw (fst (backup_set_hw e week ctx w)) = current_hw (fst (ctx_set_hw e week ctx w))"
  using assms set_hw_valid(1) [OF assms] short_names(1) [OF assms]
  by (auto simp: backup_set_hw_def set_hw_paths_def Let_def valid_week_def)

section \<open>Properties\<close>

text \<open>C37: what the week noted at the start changed. With no more than 2^32 - 2 attempts per student, recording a
  grade leaves the tracker and the results file as the earlier version did as long as the week is still the one
  noted; where the earlier version put the grade under the new week, the current one records nothing.\<close>

theorem recording_agrees_with_backup:
  assumes "cstr noted = noted" and "length noted < MAX_WEEK_NAME"
    and "cstr (current_hw (wd_ctx wd)) = current_hw (wd_ctx wd)" and "length (current_hw (wd_ctx wd)) < MAX_WEEK_NAME"
    and "\<forall>r \<in> set (students (wd_ctx wd)). submit_count r \<noteq> 0xFFFFFFFF"
  shows "fst (build_and_send_result now e h g ms kb (strncpy (replicate MAX_WEEK_NAME NUL) noted MAX_WEEK_NAME) wd l) =
     (if current_hw (wd_ctx wd) = noted then fst (backup_build_and_send now e h g ms kb wd l) else wd)"
proof -
  let ?week = "strncpy (replicate MAX_WEEK_NAME NUL) noted MAX_WEEK_NAME"
  let ?c = "backup_record_submission now (wd_ctx wd) (sid_of h) g"
  have week: "cstr ?week = noted"
    using assms(1,2) cstr_no_nul [of noted] by (simp add: strncpy_def)
  have same: "strncmp_eq (current_hw (wd_ctx wd)) ?week MAX_WEEK_NAME \<longleftrightarrow> current_hw (wd_ctx wd) = noted"
    using assms week_copy [of "current_hw (wd_ctx wd)" noted] by simp
  have "backup_write_csv e ?c (sid_of h) g ms kb (wd_os wd) = ctx_write_csv e ?c (sid_of h) g ms kb ?week (wd_os wd)"
    if "current_hw (wd_ctx wd) = noted"
    using that assms(1,2) week by (simp add: backup_write_csv_def ctx_write_csv_def csv_line_def record_keeps_week)
  then show ?thesis
    using same record_agrees [OF assms(5), of now "sid_of h" g]
    by (simp add: build_and_send_result_def backup_build_and_send_def case_prod_beta Let_def)
qed

theorem recording_agrees_with_backup_witness:
  "fst (build_and_send_result 7 demo_os_env demo_header GRADE_AC 5 6 (strncpy (replicate 32 NUL) ''w1'' 32)
        (demo_world ''w1'' ''42'') \<lparr>sent = [], tx = []\<rparr>)
     = fst (backup_build_and_send 7 demo_os_env demo_header GRADE_AC 5 6 (demo_world ''w1'' ''42'') \<lparr>sent = [], tx = []\<rparr>) \<and>
   fst (build_and_send_result 7 demo_os_env demo_header GRADE_AC 5 6 (strncpy (replicate 32 NUL) ''w1'' 32)
        (demo_world ''w2'' ''42'') \<lparr>sent = [], tx = []\<rparr>) = demo_world ''w2'' ''42''"
proof
  note same = recording_agrees_with_backup [of "''w1''" "demo_world wk ''42''" 7 demo_os_env demo_header GRADE_AC 5 6
      "\<lparr>sent = [], tx = []\<rparr>" for wk]
  show "fst (build_and_send_result 7 demo_os_env demo_header GRADE_AC 5 6 (strncpy (replicate 32 NUL) ''w1'' 32)
        (demo_world ''w1'' ''42'') \<lparr>sent = [], tx = []\<rparr>)
     = fst (backup_build_and_send 7 demo_os_env demo_header GRADE_AC 5 6 (demo_world ''w1'' ''42'') \<lparr>sent = [], tx = []\<rparr>)"
    using same [of "''w1''"] by (simp add: demo_world_def empty_slot_def cstr_def)
  show "fst (build_and_send_result 7 demo_os_env demo_header GRADE_AC 5 6 (strncpy (replicate 32 NUL) ''w1'' 32)
        (demo_world ''w2'' ''42'') \<lparr>sent = [], tx = []\<rparr>) = demo_world ''w2'' ''42''"
    using same [of "''w2''"] by (simp add: demo_world_def empty_slot_def cstr_def)
qed

text \<open>An accepted assignment hides the next ones in the earlier version. It keeps the tracker when the week
  is switched, so that a student with an AC in any week is not counted for a later one; the
  current version empties the tracker and counts the student.\<close>

theorem backup_counts_first_week_only:
  assumes "find_student (students ctx) sid = Some i" and "submitted (students ctx ! i) \<noteq> 0" and "valid_week week"
  shows "submitted_count (backup_record_submission now (fst (backup_set_hw e week ctx w)) sid GRADE_AC) = submitted_count ctx \<and>
     submitted_count (fst (ctx_record_submission now (fst (ctx_set_hw e week ctx w)) sid GRADE_AC)) = 1"
proof
  show "submitted_count (backup_record_submission now (fst (backup_set_hw e week ctx w)) sid GRADE_AC) = submitted_count ctx"
    using assms(1,2) backup_set_hw_valid(1,2) [OF assms(3)]
    by (simp add: backup_record_submission_def backup_record_at_def)
next
  let ?c = "fst (ctx_set_hw e week ctx w)"
  obtain n where n: "length (students ctx) = Suc n"
    using find_student_index [OF assms(1)] by (cases "length (students ctx)") auto
  have "students ?c = empty_slot # replicate n empty_slot" "submitted_count ?c = 0"
    using set_hw_valid(5,6) [OF assms(3)] n by simp_all
  then show "submitted_count (fst (ctx_record_submission now ?c sid GRADE_AC)) = 1"
    by (simp add: ctx_record_submission_def record_at_def empty_slot_def new_record_def count_attempt_def)
qed

theorem backup_counts_first_week_only_witness:
  "let ctx = (wd_ctx (demo_world ''w1'' ''42''))\<lparr>students := [empty_slot\<lparr>sr_id := ''20240001'', submitted := 1\<rparr>],
                                            submitted_count := 1\<rparr>;
       w = wd_os (demo_world ''w1'' ''42'')
   in submitted_count (backup_record_submission 7 (fst (backup_set_hw demo_os_env ''week_2'' ctx w)) ''20240001'' GRADE_AC) = 1"
  unfolding Let_def
  by (subst backup_counts_first_week_only [where i = 0 and now = 7 and e = demo_os_env, THEN conjunct1])
    (simp_all add: empty_slot_def strncmp_eq_def cstr_def valid_week_def strlen_def)

text \<open>The two versions do not understand each other's results, and neither looks at the version field. A
  client of the earlier version takes the current packet for its own: grade, time and counters are right, but
  for fewer than 256 attempts the week in its status bar becomes empty. A current client finds a packet
  of the earlier server four bytes short and reports a failure for a submission that was graded.\<close>

theorem results_not_interchangeable:
  assumes "wf_ResultHeader r" and "rh_student_submit_count r < 256"
    and "pending s1 = enc_ResultHeader r" and "recv_waitall sizeof_BackupResult s1 = (rn, got, s1')"
    and "wf_BackupResult b" and "pending s2 = enc_BackupResult b"
  shows "rn = int sizeof_BackupResult \<and>
     backup_on_result (dec_BackupResult got) st =
       st\<lparr>st_week := [], st_submitted := rh_submitted_count r, st_total := rh_total_students r,
          last_result := take 7 (shown_grade (rh_result r)), last_exec_ms := rh_exec_time_ms r\<rparr> \<and>
     fst (send_source ce sid path s2 out io) = -1"
proof (intro conjI)
  have got: "got = take 325 (enc_ResultHeader r)" "rn = (if got = [] then rx_end s1 else int (length got))"
    using recv_waitall_got(1) [of 325 s1] recv_waitall_result [of 325 s1] assms(3,4)
    by (simp_all add: sizeof_BackupResult_def)
  then have len: "length got = 325" using result.enc_length [OF assms(1)] by simp
  then show "rn = int sizeof_BackupResult" using got(2) by (auto simp: sizeof_BackupResult_def)
  have l: "length (rh_student_id r) = 16" "length (rh_filename r) = 128" "length (rh_week_name r) = 32"
    using assms(1) by (simp_all add: wf_ResultHeader_def)
  have hi: "be16 (rh_student_submit_count r) = [0, ucast (rh_student_submit_count r)]"
  proof -
    have "unat (drop_bit 8 (rh_student_submit_count r)) = 0"
      using assms(2) by (simp add: unat_drop_bit_eq drop_bit_eq_div [where 'a = nat] word_less_nat_alt)
    then show ?thesis by (simp add: be16_def unat_eq_zero)
  qed
  have fields: "br_result (dec_BackupResult (enc_ResultHeader r)) = rh_result r"
    "br_exec_time_ms (dec_BackupResult (enc_ResultHeader r)) = rh_exec_time_ms r"
    "br_submitted_count (dec_BackupResult (enc_ResultHeader r)) = rh_submitted_count r"
    "br_total_students (dec_BackupResult (enc_ResultHeader r)) = rh_total_students r"
    using l by (simp_all add: dec_BackupResult_def enc_ResultHeader_def chars_at_def wire_simps del: append_Cons)
  have dec: "dec_BackupResult got = dec_BackupResult (enc_ResultHeader r)"
    unfolding got(1) by (simp add: dec_BackupResult_def field_def chars_at_def drop_take)
  let ?pre = "enc_common r @ bytes (rh_student_id r) @ bytes (rh_filename r) @ [rh_result r]
      @ be32 (rh_exec_time_ms r) @ be32 (rh_memory_kb r) @ be16 (rh_submitted_count r) @ be16 (rh_total_students r)"
  have "length ?pre = 165" using l by simp
  moreover have "enc_ResultHeader r = ?pre @ 0 # ucast (rh_student_submit_count r) # be16 (rh_pad r)
      @ bytes (rh_week_name r) @ bytes (rh_message r)"
    unfolding enc_ResultHeader_def hi by simp
  ultimately have "drop 165 (enc_ResultHeader r) = 0 # ucast (rh_student_submit_count r) # be16 (rh_pad r)
      @ bytes (rh_week_name r) @ bytes (rh_message r)"
    by (metis append_eq_conv_conj)
  then have "cstr (br_week_name (dec_BackupResult (enc_ResultHeader r))) = []"
    by (simp add: dec_BackupResult_def chars_at_def field_def cstr_def char_of_byte_def char_of_def)
  then show "backup_on_result (dec_BackupResult got) st =
       st\<lparr>st_week := [], st_submitted := rh_submitted_count r, st_total := rh_total_students r,
          last_result := take 7 (shown_grade (rh_result r)), last_exec_ms := rh_exec_time_ms r\<rparr>"
    unfolding dec by (simp add: backup_on_result_def fields)
next
  obtain n gs s' where r: "recv_waitall sizeof_ResultHeader s2 = (n, gs, s')" by (metis prod_cases3)
  have "length (take sizeof_ResultHeader (pending s2)) = 325"
    using backup_result.enc_length [OF assms(5)] assms(6) by (simp add: sizeof_BackupResult_def)
  then have "n \<noteq> int sizeof_ResultHeader"
    using recv_waitall_result [of sizeof_ResultHeader s2] r by (auto simp: rx_end_def)
  then show "fst (send_source ce sid path s2 out io) = -1"
    using r by (auto simp: send_source_def Let_def case_prod_beta split: option.splits)
qed

theorem results_not_interchangeable_witness:
  "let r = result_header demo_header GRADE_TLE 5 6 ''w1'' 1 30 3;
       b = backup_result_header demo_header GRADE_AC 5 6 ''w1'' 1 30
   in st_week (backup_on_result (dec_BackupResult (fst (snd (recv_waitall sizeof_BackupResult
          \<lparr>rx = [enc_ResultHeader r], rx_reset = False\<rparr>)))) status_init) = [] \<and>
      fst (send_source demo_client ''20240123'' ''hw.c'' \<lparr>rx = [enc_BackupResult b], rx_reset = False\<rparr> zero_result demo_io) = -1"
proof -
  let ?r = "result_header demo_header GRADE_TLE 5 6 ''w1'' 1 30 3"
  let ?b = "backup_result_header demo_header GRADE_AC 5 6 ''w1'' 1 30"
  let ?s = "\<lparr>rx = [enc_ResultHeader ?r], rx_reset = False\<rparr>"
  obtain rn got s' where "recv_waitall sizeof_BackupResult ?s = (rn, got, s')" by (metis prod_cases3)
  moreover have "wf_ResultHeader ?r" "wf_BackupResult ?b"
    by (simp_all add: wf_ResultHeader_def wf_BackupResult_def result_header_def backup_result_header_def length_strncpy)
  moreover have "rh_student_submit_count ?r < 256" by (simp add: result_header_def)
  ultimately show ?thesis
    using results_not_interchangeable [of ?r ?s rn got s' ?b "\<lparr>rx = [enc_BackupResult ?b], rx_reset = False\<rparr>" status_init
        demo_client "''20240123''" "''hw.c''" zero_result demo_io]
    by (simp add: pending_def)
qed

end
