(* ===== verification/Backup_Pull.thy ===== *)
theory Backup_Pull
  imports Pull_Transfer Backup_Grading
begin

text \<open>
  File distribution in the version kept in \<^verbatim>\<open>backup/snapshot_lms_v3\<close>: \<open>send_one_file\<close> and \<open>handle_file_pull\<close>
  of its \<^verbatim>\<open>server/server.c\<close>, and the test of file names in its \<^verbatim>\<open>client/client.c\<close>. It heeds the distribution
  switch, has no limit on a file's size and looks at no result of \<open>fstat\<close> (size and mode then are whatever was in
  memory), and is silent when a file cannot be sent. What a sequence of packets puts on the connection is
  shown once, for \<open>send_msgs\<close>.
\<close>

section \<open>Sending several messages\<close>

fun send_msgs :: "byte list list \<Rightarrow> link \<Rightarrow> int \<times> link" where
  "send_msgs [] l = (0, l)"
| "send_msgs (m # ms) l = (let (r, l1) = send_all m l in if r < 0 then (-1, l1) else send_msgs ms l1)"

lemma send_msgs_result:
  "send_msgs ms l = (r, l') \<Longrightarrow>
   (r = 0 \<and> sent l' = sent l @ concat ms) \<or> (r = -1 \<and> (\<exists>p. prefix p (concat ms) \<and> sent l' = sent l @ p))"
proof (induction ms arbitrary: l)
  case (Cons m ms)
  obtain r1 l1 where s: "send_all m l = (r1, l1)" by (cases "send_all m l")
  show ?case
  proof (cases "r1 < 0")
    case True
    then show ?thesis using Cons.prems s net.sent_nothing_extra [OF s, of "concat ms"] by auto
  next
    case False
    have l1: "sent l1 = sent l @ m" by (rule net.sent_then [OF s False])
    have "send_msgs ms l1 = (r, l')" using Cons.prems s False by simp
    from Cons.IH [OF this] show ?thesis
    proof (elim disjE conjE exE)
      fix p
      assume "r = -1" "prefix p (concat ms)" "sent l' = sent l1 @ p"
      then show ?thesis using l1 by (auto intro!: exI [of _ "m @ p"])
    qed (use l1 in simp)
  qed
qed simp

lemma send_msgs_append:
  "send_msgs (ms @ ns) l = (let (r, l1) = send_msgs ms l in if r < 0 then (-1, l1) else send_msgs ns l1)"
  by (induction ms arbitrary: l) (auto simp: Let_def case_prod_beta)

lemma send_msgs_snoc:
  "send_msgs (ms @ [m]) l = (let (r, l1) = send_msgs ms l in if r < 0 then (-1, l1) else send_all m l1)"
proof -
  have one: "send_msgs [m] l = send_all m l" for l
  proof -
    obtain r l1 where s: "send_all m l = (r, l1)" by fastforce
    then have "r = 0 \<or> r = -1" using send_all_result [OF s] by blast
    then show ?thesis using s by auto
  qed
  show ?thesis unfolding send_msgs_append one ..
qed

section \<open>The distributing side\<close>

definition backup_meta :: "string \<Rightarrow> nat \<Rightarrow> bool \<Rightarrow> byte \<Rightarrow> byte \<Rightarrow> FileMetaHeader" where
  "backup_meta filename fsize is_exec index total_n = (file_meta filename fsize is_exec index total_n)\<lparr>version := backup_PROTO_VERSION\<rparr>"

definition backup_chunk :: "nat \<Rightarrow> u32 \<Rightarrow> FileChunkHeader" where
  "backup_chunk nread offset = (file_chunk nread offset)\<lparr>version := backup_PROTO_VERSION\<rparr>"

definition backup_end :: "u32 \<Rightarrow> FileEndHeader" where
  "backup_end checksum = (file_end checksum)\<lparr>version := backup_PROTO_VERSION\<rparr>"

definition backup_done :: "nat \<Rightarrow> FileEndHeader" where
  "backup_done file_count = (file_done file_count)\<lparr>version := backup_PROTO_VERSION\<rparr>"

definition backup_error :: "string \<Rightarrow> FileErrorHeader" where
  "backup_error text = (pull_error text)\<lparr>version := backup_PROTO_VERSION\<rparr>"

definition backup_send_error :: "string \<Rightarrow> link \<Rightarrow> link" where
  "backup_send_error text l = snd (send_all (enc_FileErrorHeader (backup_error text)) l)"

fun backup_send_chunks :: "byte list list \<Rightarrow> u32 \<Rightarrow> u32 \<Rightarrow> link \<Rightarrow> bool \<times> u32 \<times> link" where
  "backup_send_chunks [] crc offset l = (True, crc, l)"
| "backup_send_chunks (buf # reads) crc offset l =
     (let crc' = crc_chunk crc buf;
          (r1, l1) = send_all (enc_FileChunkHeader (backup_chunk (length buf) offset)) l
      in if r1 < 0 then (False, crc', l1)
         else let (r2, l2) = send_all buf l1
              in if r2 < 0 then (False, crc', l2)
                 else backup_send_chunks reads crc' (offset + of_nat (length buf)) l2)"

definition backup_send_one_file :: "dist \<Rightarrow> string \<Rightarrow> string \<Rightarrow> byte \<Rightarrow> byte \<Rightarrow> link \<Rightarrow> int \<times> link" where
  "backup_send_one_file d file_path filename index total_n l =
     (case d_file d file_path of
        None \<Rightarrow> (-1, l)
      | Some f \<Rightarrow>
          if \<not> f_opens f then (-1, l)
          else let (r, l1) = send_all (enc_FileMetaHeader (backup_meta filename (f_size f) (f_exec f) index total_n)) l
               in if r < 0 then (-1, l1)
                  else if \<not> f_malloc f then (-1, l1)
                  else let (ok, crc, l2) = backup_send_chunks (f_reads f) 0xFFFFFFFF 0 l1
                       in if \<not> ok then (-1, l2)
                          else send_all (enc_FileEndHeader (backup_end (NOT crc))) l2)"

definition msg_paused :: string where
  "msg_paused = map char_of [237 :: nat, 152, 132, 236, 158, 172, 32, 234, 181, 144, 236, 136, 152, 235, 139, 152, 236, 157, 180, 32, 237, 140, 140, 236, 157, 188, 32, 235, 176, 176, 237, 143, 172, 235, 165, 188, 32, 236, 157, 188, 236, 139, 156, 32, 236, 164, 145, 236, 167, 128, 237, 150, 136, 236, 138, 181, 235, 139, 136, 235, 139, 164, 46]"

definition msg_ask_professor :: string where
  "msg_ask_professor = map char_of [32 :: nat, 32, 40, 234, 181, 144, 236, 136, 152, 235, 139, 152, 234, 187, 152, 32, 235, 172, 184, 236, 157, 152, 237, 149, 152, 236, 132, 184, 236, 154, 148, 41]"

definition msg_not_uploaded :: string where
  "msg_not_uploaded = map char_of [32 :: nat, 32, 40, 234, 181, 144, 236, 136, 152, 235, 139, 152, 236, 157, 180, 32, 236, 149, 132, 236, 167, 129, 32, 236, 151, 133, 235, 161, 156, 235, 147, 156, 237, 149, 152, 236, 167, 128, 32, 236, 149, 138, 236, 149, 152, 236, 138, 181, 235, 139, 136, 235, 139, 164, 41]"

text \<open>The collected files: directory and name are cut to 255 characters each.\<close>

fun backup_collect :: "dist \<Rightarrow> string \<Rightarrow> string list \<Rightarrow> nat \<Rightarrow> (string \<times> string) list" where
  "backup_collect d dist_dir [] file_count = []"
| "backup_collect d dist_dir (d_name # ents) file_count =
     (if MAX_DIST_FILES \<le> file_count then []
      else if d_name \<noteq> [] \<and> hd d_name = CHR ''.'' then backup_collect d dist_dir ents file_count
      else let full = snprintf 512 (take 255 dist_dir @ ''/'' @ take 255 d_name)
           in case d_file d full of
                None \<Rightarrow> backup_collect d dist_dir ents file_count
              | Some f \<Rightarrow>
                  if \<not> f_regular f then backup_collect d dist_dir ents file_count
                  else (take 511 full, take (MAX_FILENAME - 1) d_name)
                         # backup_collect d dist_dir ents (file_count + 1))"

fun backup_send_files :: "dist \<Rightarrow> (string \<times> string) list \<Rightarrow> nat \<Rightarrow> nat \<Rightarrow> link \<Rightarrow> bool \<times> link" where
  "backup_send_files d [] i file_count l = (True, l)"
| "backup_send_files d ((path, name) # rest) i file_count l =
     (let (r, l1) = backup_send_one_file d path name (of_nat (i + 1)) (of_nat file_count) l
      in if r < 0 then (False, l1) else backup_send_files d rest (i + 1) file_count l1)"

definition backup_file_pull :: "ServerContext \<Rightarrow> dist \<Rightarrow> link \<Rightarrow> link" where
  "backup_file_pull ctx d l =
     (let dir = dist_dir_of ctx
      in if dist_paused ctx \<noteq> 0 then backup_send_error msg_paused l
         else case d_entries d dir of
           None \<Rightarrow> backup_send_error (msg_no_folder @ take 60 dir @ msg_ask_professor) l
         | Some ents \<Rightarrow>
             (let files = backup_collect d dir ents 0
              in if files = []
                 then backup_send_error (msg_no_files @ take 50 dir @ msg_not_uploaded) l
                 else let (ok, l1) = backup_send_files d files 0 (length files) l
                      in if \<not> ok then l1
                         else snd (send_all (enc_FileEndHeader (backup_done (length files))) l1)))"

text \<open>The test of a file's name in the client.\<close>

definition backup_name_refused :: "string \<Rightarrow> bool" where
  "backup_name_refused name \<longleftrightarrow>
     strstr (cstr name) ''..'' \<or> strchr name (CHR ''/'') \<noteq> None \<or> strchr name (CHR 0x5C) \<noteq> None \<or> cstr name = []"

section \<open>The messages of a file\<close>

fun chunk_msgs :: "byte list list \<Rightarrow> u32 \<Rightarrow> byte list list" where
  "chunk_msgs [] offset = []"
| "chunk_msgs (buf # reads) offset =
     enc_FileChunkHeader (backup_chunk (length buf) offset) # buf # chunk_msgs reads (offset + of_nat (length buf))"

definition file_msgs :: "dfile \<Rightarrow> string \<Rightarrow> byte \<Rightarrow> byte \<Rightarrow> byte list list" where
  "file_msgs f name index n =
     enc_FileMetaHeader (backup_meta name (f_size f) (f_exec f) index n) # chunk_msgs (f_reads f) 0
       @ [enc_FileEndHeader (backup_end (crc32_buf (concat (f_reads f))))]"

fun dist_msgs :: "dist \<Rightarrow> (string \<times> string) list \<Rightarrow> nat \<Rightarrow> nat \<Rightarrow> byte list list" where
  "dist_msgs d [] i n = []"
| "dist_msgs d ((path, name) # rest) i n =
     file_msgs (the (d_file d path)) name (of_nat (i + 1)) (of_nat n) @ dist_msgs d rest (i + 1) n"

definition openable :: "dist \<Rightarrow> string \<Rightarrow> bool" where
  "openable d path \<longleftrightarrow> (case d_file d path of None \<Rightarrow> False | Some f \<Rightarrow> f_opens f \<and> f_malloc f)"

lemma send_chunks_msgs:
  "backup_send_chunks reads crc offset l =
     (ok, crc', l') \<Longrightarrow> send_msgs (chunk_msgs reads offset) l = (if ok then 0 else -1, l') \<and>
       (ok \<longrightarrow> crc' = crc_chunk crc (concat reads))"
proof (induction reads crc offset l rule: backup_send_chunks.induct)
  case (1 crc offset l)
  then show ?case by (simp add: crc_chunk_def)
next
  case (2 buf reads crc offset l)
  obtain r1 l1 where s1: "send_all (enc_FileChunkHeader (backup_chunk (length buf) offset)) l = (r1, l1)" by fastforce
  obtain r2 l2 where s2: "send_all buf l1 = (r2, l2)" by fastforce
  consider "r1 < 0" | "\<not> r1 < 0" "r2 < 0" | "\<not> r1 < 0" "\<not> r2 < 0" by blast
  then show ?case
  proof cases
    case 3
    have rec: "backup_send_chunks reads (crc_chunk crc buf) (offset + of_nat (length buf)) l2 = (ok, crc', l')"
      using 2(2) s1 s2 3 by simp
    show ?thesis using 2(1) [OF refl s1 [symmetric] refl 3(1) s2 [symmetric] refl 3(2) rec] s1 s2 3 by (simp add: crc_chunk_def)
  qed (use 2(2) s1 s2 in auto)
qed

lemma send_one_msgs:
  assumes "d_file d path = Some f" and "f_opens f" and "f_malloc f"
  shows "backup_send_one_file d path name i n l = send_msgs (file_msgs f name i n) l"
proof -
  obtain r l1 where s1: "send_all (enc_FileMetaHeader (backup_meta name (f_size f) (f_exec f) i n)) l = (r, l1)" by fastforce
  obtain ok crc l2 where s2: "backup_send_chunks (f_reads f) 0xFFFFFFFF 0 l1 = (ok, crc, l2)"
    by (cases "backup_send_chunks (f_reads f) 0xFFFFFFFF 0 l1") auto
  have crc: "ok \<longrightarrow> NOT crc = crc32_buf (concat (f_reads f))"
    using send_chunks_msgs [OF s2] by (simp add: crc32_buf_def crc_chunk_def)
  have "file_msgs f name i n = (enc_FileMetaHeader (backup_meta name (f_size f) (f_exec f) i n) # chunk_msgs (f_reads f) 0)
      @ [enc_FileEndHeader (backup_end (crc32_buf (concat (f_reads f))))]"
    by (simp add: file_msgs_def)
  then show ?thesis
    using assms s1 s2 crc send_chunks_msgs [OF s2]
    by (simp add: backup_send_one_file_def send_msgs_snoc del: append_Cons)
qed

lemma send_one_result:
  assumes "backup_send_one_file d path name i n l = (r, l')"
  shows "(r = 0 \<and> openable d path \<and> sent l' = sent l @ concat (file_msgs (the (d_file d path)) name i n)) \<or>
     (r = -1 \<and> (\<exists>p. prefix p (concat (file_msgs (the (d_file d path)) name i n)) \<and> sent l' = sent l @ p))"
proof (cases "openable d path")
  case True
  then obtain f where f: "d_file d path = Some f" "f_opens f" "f_malloc f"
    by (auto simp: openable_def split: option.splits)
  have "send_msgs (file_msgs f name i n) l = (r, l')" using send_one_msgs [OF f] assms by metis
  from send_msgs_result [OF this] show ?thesis using True f(1) by auto
next
  case False
  show ?thesis
  proof (cases "\<exists>f. d_file d path = Some f \<and> f_opens f")
    case True
    then obtain f where f: "d_file d path = Some f" "f_opens f" "\<not> f_malloc f"
      using False by (auto simp: openable_def)
    let ?m = "enc_FileMetaHeader (backup_meta name (f_size f) (f_exec f) i n)"
    obtain r1 l1 where s: "send_all ?m l = (r1, l1)" by fastforce
    have "r = -1" "l' = l1" using assms f s by (auto simp: backup_send_one_file_def split: if_splits)
    then show ?thesis using net.sent_nothing_extra [OF s] f(1) by (simp add: file_msgs_def)
  next
    case False
    then have "r = -1" "l' = l" using assms by (auto simp: backup_send_one_file_def split: option.splits)
    then show ?thesis by auto
  qed
qed

lemma send_files_msgs:
  "backup_send_files d files i n l = (ok, l') \<Longrightarrow>
   (if ok then (\<forall>(path, name) \<in> set files. openable d path) \<and> sent l' = sent l @ concat (dist_msgs d files i n)
    else \<exists>p. prefix p (concat (dist_msgs d files i n)) \<and> sent l' = sent l @ p)"
proof (induction d files i n l rule: backup_send_files.induct)
  case (1 d i n l)
  then show ?case by simp
next
  case (2 d path name rest i n l)
  let ?m = "concat (file_msgs (the (d_file d path)) name (of_nat (i + 1)) (of_nat n))"
  obtain r l1 where s: "backup_send_one_file d path name (of_nat (i + 1)) (of_nat n) l = (r, l1)" by fastforce
  show ?case
  proof (cases "r < 0")
    case True
    then obtain p where "prefix p ?m" "sent l1 = sent l @ p" using send_one_result [OF s] by auto
    moreover have "\<not> ok" "l' = l1" using 2(2) s True by (auto simp: Let_def)
    ultimately show ?thesis by (auto intro: prefix_prefix)
  next
    case False
    then have one: "openable d path" "sent l1 = sent l @ ?m" using send_one_result [OF s] by auto
    have rec: "backup_send_files d rest (i + 1) n l1 = (ok, l')" using 2(2) s False by (simp add: Let_def)
    note ih = 2(1) [OF s [symmetric] refl False rec]
    show ?thesis
    proof (cases ok)
      case True
      with ih one show ?thesis by simp
    next
      case no: False
      with ih obtain q where "prefix q (concat (dist_msgs d rest (i + 1) n))" "sent l' = sent l1 @ q" by auto
      with no one show ?thesis by (auto intro!: exI [of _ "?m @ q"])
    qed
  qed
qed

text \<open>What has gone out of the files before one that cannot be opened.\<close>

lemma send_all_free: "tx l = [] \<Longrightarrow> send_all bs l = (0, l\<lparr>sent := sent l @ bs\<rparr>)"
  by (subst send_all.simps) (simp add: send_def send_all.simps [of "[]"])

lemma send_msgs_free: "tx l = [] \<Longrightarrow> send_msgs ms l = (0, l\<lparr>sent := sent l @ concat ms\<rparr>)"
  by (induction ms arbitrary: l) (simp_all add: send_all_free)

lemma send_until_missing:
  assumes "tx l = []" and "\<forall>(p, m) \<in> set before. openable d p" and "\<exists>f. d_file d path = Some f \<and> \<not> f_opens f"
  shows "backup_send_files d (before @ (path, name) # rest) i n l = (False, l\<lparr>sent := sent l @ concat (dist_msgs d before i n)\<rparr>)"
  using assms(1,2)
proof (induction before arbitrary: i l)
  case Nil
  then show ?case using assms(3) by (auto simp: backup_send_one_file_def)
next
  case (Cons x before)
  obtain p m where x: "x = (p, m)" by (cases x)
  obtain f where f: "d_file d p = Some f" "f_opens f" "f_malloc f"
    using Cons.prems(2) x by (auto simp: openable_def split: option.splits)
  show ?case
    using Cons.IH [of "l\<lparr>sent := sent l @ concat (file_msgs f m (of_nat (i + 1)) (of_nat n))\<rparr>" "i + 1"] Cons.prems x f
    by (simp add: send_one_msgs [OF f] send_msgs_free)
qed

section \<open>Properties\<close>

text \<open>The distribution switch worked in the earlier version. After the command that switches it off a
  student who asks for the files is sent one error packet and nothing else, and after the next one the
  answer is what it was before; in the current version the command makes no difference.\<close>

theorem backup_heeds_distribution_switch:
  assumes "dist_paused ctx = 0" and "tx l = []"
    and "toggle = (\<lambda>c. fst (snd (handle_request e \<lparr>rq_cmd = ipc_cmd CMD_TOGGLE_DIST, rq_payload = p\<rparr> c w)))"
  shows "sent (backup_file_pull (toggle ctx) d l) = sent l @ enc_FileErrorHeader (backup_error msg_paused) \<and>
     backup_file_pull (toggle (toggle ctx)) d l = backup_file_pull ctx d l \<and>
     handle_file_pull (toggle ctx) d l = handle_file_pull ctx d l"
proof -
  have t: "toggle c = c\<lparr>dist_paused := (if dist_paused c = 0 then 1 else 0)\<rparr>" for c
    by (simp add: assms(3) handle_request_def on_toggle_dist_def Let_def)
  then show ?thesis
    using assms(1,2)
    by (simp add: backup_file_pull_def handle_file_pull_def backup_send_error_def send_all_free dist_dir_of_def Let_def)
qed

theorem backup_heeds_distribution_switch_witness:
  "let ctx = wd_ctx (demo_world ''w1'' ''42'');
       off = fst (snd (handle_request demo_os_env \<lparr>rq_cmd = ipc_cmd CMD_TOGGLE_DIST, rq_payload = []\<rparr> ctx (wd_os (demo_world ''w1'' ''42''))))
   in sent (backup_file_pull off demo_dist0 \<lparr>sent = [], tx = []\<rparr>) = enc_FileErrorHeader (backup_error msg_paused)"
  using backup_heeds_distribution_switch [of "wd_ctx (demo_world ''w1'' ''42'')" "\<lparr>sent = [], tx = []\<rparr>" _ demo_os_env "[]"
      "wd_os (demo_world ''w1'' ''42'')" demo_dist0, OF _ _ refl]
  by (simp add: demo_world_def)

text \<open>A failed distribution went unnoticed in the earlier version. Over any connection a student is sent the
  beginning of the intended packets, the closing one only if every file could be read; if a file cannot be
  opened, the packets just stop before it.\<close>

theorem backup_pull_stops_silently:
  assumes "dist_paused ctx = 0" and "d_entries d (dist_dir_of ctx) = Some ents"
    and "files = backup_collect d (dist_dir_of ctx) ents 0" and "files \<noteq> []"
  shows "(\<exists>p. prefix p (concat (dist_msgs d files 0 (length files)) @ enc_FileEndHeader (backup_done (length files))) \<and>
        sent (backup_file_pull ctx d l) = sent l @ p \<and>
        (length (concat (dist_msgs d files 0 (length files))) < length p \<longrightarrow> (\<forall>(path, name) \<in> set files. openable d path))) \<and>
     (tx l = [] \<and> files = before @ (path, name) # rest \<and> (\<forall>(q, m) \<in> set before. openable d q) \<and>
        (\<exists>f. d_file d path = Some f \<and> \<not> f_opens f) \<longrightarrow>
        sent (backup_file_pull ctx d l) = sent l @ concat (dist_msgs d before 0 (length files)))"
proof (rule conjI, goal_cases)
  case 1
  let ?m = "concat (dist_msgs d files 0 (length files))" and ?e = "enc_FileEndHeader (backup_done (length files))"
  obtain ok l1 where s: "backup_send_files d files 0 (length files) l = (ok, l1)" by fastforce
  note res = send_files_msgs [OF s]
  show ?case
  proof (cases ok)
    case True
    obtain r l2 where e: "send_all ?e l1 = (r, l2)" by fastforce
    obtain q where "prefix q ?e" "sent l2 = sent l1 @ q" using net.part_sent [OF e] by blast
    moreover have "backup_file_pull ctx d l = l2" using assms s True e by (simp add: backup_file_pull_def Let_def)
    ultimately show ?thesis using res True by (intro exI [of _ "?m @ q"]) simp
  next
    case False
    then obtain p where "prefix p ?m" "sent l1 = sent l @ p" using res by auto
    moreover have "backup_file_pull ctx d l = l1" using assms s False by (simp add: backup_file_pull_def Let_def)
    ultimately show ?thesis by (intro exI [of _ p]) (auto dest: prefix_length_le intro: prefix_prefix)
  qed
next
  case 2
  have "sent (backup_file_pull ctx d l) = sent l @ concat (dist_msgs d before 0 (length files))"
    if "tx l = []" "files = before @ (path, name) # rest" "\<forall>(q, m) \<in> set before. openable d q"
      "\<exists>f. d_file d path = Some f \<and> \<not> f_opens f"
    using assms send_until_missing [OF that(1,3,4), of name rest 0 "length files"] that(2)
    by (simp add: backup_file_pull_def)
  then show ?case by blast
qed

text \<open>Two files, the second of which cannot be opened.\<close>

definition demo_backup_dist :: dist where
  "demo_backup_dist =
     \<lparr>d_entries = [''dist/w1'' \<mapsto> [''.'', ''a'', ''b'']],
      d_file = [''dist/w1/a'' \<mapsto> \<lparr>f_regular = True, f_opens = True, f_fstat = True, f_size = 1, f_exec = False, f_malloc = True, f_reads = [[7]]\<rparr>,
                ''dist/w1/b'' \<mapsto> \<lparr>f_regular = True, f_opens = False, f_fstat = True, f_size = 1, f_exec = False, f_malloc = True, f_reads = []\<rparr>]\<rparr>"

theorem backup_pull_stops_silently_witness:
  "sent (backup_file_pull (wd_ctx (demo_world ''w1'' ''42'')) demo_backup_dist \<lparr>sent = [], tx = []\<rparr>)
     = concat (dist_msgs demo_backup_dist [(''dist/w1/a'', ''a'')] 0 2)"
proof -
  let ?ctx = "wd_ctx (demo_world ''w1'' ''42'')"
  have dir: "dist_dir_of ?ctx = ''dist/w1''" by (simp add: dist_dir_of_def demo_world_def snprintf_def DIST_ROOT_def)
  have files: "backup_collect demo_backup_dist ''dist/w1'' [''.'', ''a'', ''b''] 0 = [(''dist/w1/a'', ''a''), (''dist/w1/b'', ''b'')]"
    by (simp add: demo_backup_dist_def snprintf_def)
  have facts: "openable demo_backup_dist ''dist/w1/a''" "d_entries demo_backup_dist ''dist/w1'' = Some [''.'', ''a'', ''b'']"
    "\<exists>f. d_file demo_backup_dist ''dist/w1/b'' = Some f \<and> \<not> f_opens f" "dist_paused ?ctx = 0"
    by (simp_all add: openable_def demo_backup_dist_def demo_world_def)
  show ?thesis
    using backup_pull_stops_silently [of ?ctx demo_backup_dist "[''.'', ''a'', ''b'']" _ "\<lparr>sent = [], tx = []\<rparr>"
        "[(''dist/w1/a'', ''a'')]" "''dist/w1/b''" "''b''" "[]", OF _ _ refl] dir files facts
    by simp
qed

text \<open>The client's test of names refuses whatever the current one refuses, and names with two dots in a row.\<close>

lemma backup_names: "backup_name_refused name \<longleftrightarrow> \<not> is_safe_filename name \<or> strstr (cstr name) ''..''"
proof -
  have "CHR ''/'' \<in> set (cstr name)" if "strncmp_eq name ''../'' 3"
  proof -
    have "take 3 (cstr name) = ''../''" using that by (simp add: strncmp_eq_def cstr_def)
    then show ?thesis by (metis in_set_takeD list.set_intros(1,2))
  qed
  moreover have "strstr ''..'' ''..''" by (simp add: strstr_def)
  ultimately show ?thesis
    using strstr_head [of "cstr name" "CHR ''/''" "''../''"]
      strstr_head [of "cstr name" "CHR 0x5C" "[CHR ''.'', CHR ''.'', CHR 0x5C]"]
    by (auto simp: backup_name_refused_def is_safe_filename_def strchr_none)
qed

end
