(* ===== verification/Spec2Isabelle.thy ===== *)
theory Spec2Isabelle
  imports Tracker Crc Job_Queue Compare Monitor Sandbox Grading File_Pull Pull_Client Pull_Transfer Ctl
    Server_Main Server_Steps Snapshot Dashboard_View Dashboard Client_Submit Watch Minici_Ctl
    Launch Workspace Descriptors Server_Locks Dashboard_Locks Legacy_Server Legacy_Client
    Buffers Forged_Result Backup_Upload Backup_Grading Backup_Pull
begin

text \<open>
  Mini-CI: a grading server for C assignments, the students' client and the instructors'
  control tools. This theory is the root of the development; it imports every component.

  The program. The server (\<^verbatim>\<open>server/server.c\<close>) accepts TCP connections and a UNIX control socket
  in one epoll loop; accepted connections go through a ring of 100 jobs to four workers. A worker
  reads the header of a connection: a pull request is answered with the files of the current
  week; anything else is a submission, which is stored, compiled, run in a sandbox (name spaces,
  resource limits, seccomp, an eBPF monitor), compared with the week's answer file, recorded in
  the shared context (\<^verbatim>\<open>server/server_ctx.c\<close>) and answered with one result packet. The control
  socket switches weeks, sets the class size and reports. The client (\<^verbatim>\<open>client/client.c\<close>) submits a
  file or pulls the week's files.

  The theories, in the order of the program.
  \<^item> \<open>Prelude\<close>: machine words, C strings and the C library functions used on them, fixed-size
    byte fields, list lemmas, the locales \<open>invariant_machine\<close> and \<open>finite_runs\<close> (runs that a weight
    bounds).
  \<^item> \<open>Protocol\<close> (\<^verbatim>\<open>include/protocol.h\<close>): every packed header as a record with its byte layout; the
    locale \<open>packet_codec\<close> (length, round trip, common prefix) interpreted for all seven.
  \<^item> \<open>Crc\<close>: the CRC-32 of client and server; burst detection and streaming (locale
    \<open>stream_checksum\<close>).
  \<^item> \<open>Socket\<close>: \<open>recv\<close>, \<open>recv\<close> with \<open>MSG_WAITALL\<close> and \<open>send\<close>; the locale \<open>byte_stream\<close>. A socket is the list
    of bursts that will arrive and how it ends; a sending side is what the peer has been sent
    and what the next \<open>send\<close>s return.
  \<^item> \<open>Server_Ctx\<close> and \<open>Tracker\<close> (\<^verbatim>\<open>server_ctx.h\<close>, \<^verbatim>\<open>server/server_ctx.c\<close>): week switch, student
    table and results file; the tracker refines the history of submissions (locale
    \<open>tracker_contract\<close>).
  \<^item> \<open>Job_Queue\<close>: \<open>enqueue_job\<close>, \<open>dequeue_job\<close> (locale \<open>bounded_fifo\<close>).
  \<^item> \<open>Compare\<close>: \<open>compare_output\<close>.
  \<^item> \<open>Monitor\<close> (\<^verbatim>\<open>server/monitor.bpf.c\<close>): the hooks as steps over kernel events, the process tree as
    an inductive relation.
  \<^item> \<open>Sandbox\<close>: limits, seccomp list, wrapper process.
  \<^item> \<open>Launch\<close>: worker, compiler, wrapper and program as processes that wait for one another at pipes,
    an instance of \<open>finite_runs\<close>.
  \<^item> \<open>Workspace\<close>: a submission's directory and its removal.
  \<^item> \<open>Descriptors\<close>: descriptor tables; what \<open>handle_client\<close> opens and closes, what a submitted program finds open.
  \<^item> \<open>Grading\<close>: \<open>handle_client\<close> and \<open>build_and_send_result\<close>.
  \<^item> \<open>File_Pull\<close>, \<open>Pull_Client\<close>, \<open>Pull_Transfer\<close>: the pull mode on the server (locale \<open>sender\<close>), on the
    client (locale \<open>exact_reader\<close>) and end to end.
  \<^item> \<open>Ctl\<close> (\<^verbatim>\<open>ipc_protocol.h\<close>, \<open>handle_ctl_client\<close>): the control commands.
  \<^item> \<open>Server_Main\<close> (\<open>main\<close> of \<^verbatim>\<open>server/server.c\<close>): start-up with its failures, the log and terminal
    window, the epoll loop.
  \<^item> \<open>Server_Steps\<close>: the main thread and the four workers interleaved at their critical sections, as a
    step relation over the components above (\<open>sys_step\<close>, \<open>runs\<close>); the locale \<open>safe_system\<close> turns an
    invariant of one component into one of every interleaving. A connection, or a control request, may keep
    its thread for ever; the steps for which nothing new arrives (\<open>calm_step\<close>) are an instance of \<open>finite_runs\<close>.
  \<^item> \<open>Snapshot\<close>, \<open>Dashboard_View\<close>, \<open>Dashboard\<close> (\<^verbatim>\<open>minici-tui.c\<close>): the snapshot parser as the reader of what
    \<open>on_get_tracker\<close> prints, the drawing and the file picker, the staging menu over any server
    (locale \<open>week_server\<close>), interpreted with the server of \<open>Ctl\<close> over its sockets.
  \<^item> \<open>Client_Submit\<close> (\<^verbatim>\<open>client/client.c\<close>, submission mode): login prompt, \<open>send_source\<close> composed with the
    server's \<open>handle_client\<close>, result card, status bar, and the result list with its editor.
  \<^item> \<open>Watch\<close> (\<^verbatim>\<open>inotify_watch.c\<close>): the watcher's event loop with its clock, the changes it has not read and its
    one-shot timer; \<open>wake\<close> and \<open>ready_fds\<close> are \<open>epoll_wait\<close>, \<open>burst_runs\<close> says when the client should run.
  \<^item> \<open>Minici_Ctl\<close> (\<^verbatim>\<open>minici-ctl.c\<close>): the command line tool, and the tool and the server as one step
    relation (\<open>pair_step\<close>).

  \<^item> \<open>Locks\<close>: threads as sequences of acquisitions, releases and accesses; the locale \<open>lock_discipline\<close>
    derives mutual exclusion, freedom from deadlock, freedom from data races and bounded runs from a
    ranking of the locks. \<open>Server_Locks\<close> (\<^verbatim>\<open>server/server.c\<close>, \<^verbatim>\<open>server/server_ctx.c\<close>) and \<open>Dashboard_Locks\<close>
    (\<^verbatim>\<open>minici-tui.c\<close>) list what each function locks and accesses and interpret it; where the discipline is
    not kept a schedule that \<open>run_schedule\<close> executes shows the race.
  \<^item> \<open>Legacy_Server\<close> and \<open>Legacy_Client\<close> (\<^verbatim>\<open>server.c\<close> and \<^verbatim>\<open>client.c\<close> in the root directory): an earlier,
    complete version of the system in two files: connection handler, child process and textual
    answers; the batch client that reads them, its error list and menu; the two together
    (\<open>checked_by\<close>).
  \<^item> \<open>Buffers\<close>: the fixed-size buffers of \<open>ctx_write_csv\<close>, \<open>CMD_GET_TRACKER\<close> and \<open>handle_file_pull\<close>, as an invariant of
    \<open>Server_Steps\<close>. \<open>Forged_Result\<close>: the submitted program, its worker and its client at one connection
    (\<open>Descriptors\<close>, \<open>Grading\<close>, \<open>Client_Submit\<close>).
  \<^item> \<open>Backup_Upload\<close>, \<open>Backup_Grading\<close>, \<open>Backup_Pull\<close> (\<^verbatim>\<open>backup/snapshot_lms_v3\<close>): the version of the system that
    \<^verbatim>\<open>backup.sh\<close> keeps, where it differs from the current one: the upload, as a step relation of worker and
    client; the context, the recording of grades and the result packet; the distribution of files. What is
    the same text in both versions is the definition of the current version. The lemmas say where the two
    agree, what the current version has put right, and what it has lost.

  \<open>SIGPIPE\<close>. The server neither ignores nor catches it. A \<open>send\<close> without \<open>MSG_NOSIGNAL\<close> to a closed
  connection (\<open>sigpipe\<close> in \<open>Socket\<close>) or a write to a pipe without a reader ends it: \<open>Killed\<close> in
  \<open>Server_Main\<close>, \<open>Dead\<close> in \<open>Minici_Ctl\<close>, \<open>ServerKilled\<close> in \<open>Launch\<close>. The theories of the workers are about a
  server that lives.

  Termination. Every loop of the code is a total function here: the network loops recurse on the
  bytes still to come or still to send, the comparison on the text left; no fuel is used. The runs of
  \<open>Launch\<close> are bounded by a weight; that one gets stuck is what is proved of an overlong compiler
  output.
  What may wait for ever in the code: \<open>dequeue_job\<close> on an empty ring is \<open>None\<close>, the login prompt after the
  end of its input is \<open>None\<close>, a socket is modelled up to its end, and in \<open>Server_Steps\<close> a thread whose peer,
  compiler or program lets it wait is in a state of its own (\<open>Hung\<close>, \<open>Ctl_Hung\<close>). The bound of 728 steps there is
  seven per waiting connection, six per worker and four for a control request.

  Not modelled. The compiler and the run of a submission are parameters (\<open>judge\<close>, \<open>legacy_env\<close>); the
  kernel's enforcement of limits, mount and capability calls have no state here; \<open>Server_Steps\<close> has the
  threads at their critical sections, a lock held for exactly one step (\<open>hw_lock\<close> for the two of a
  recording), and \<open>Server_Locks\<close> has their locks without the data, and the condition variable as the release
  and the new acquisition of its mutex; of ncurses the texts and their positions are kept, not colours and windows. Of the
  backups, v1 and v2 are left out, and of v3 what is the same in the current version and the user interfaces. The
  root directory's \<^verbatim>\<open>protocol.h\<close> is included by no program, \<^verbatim>\<open>vmlinux.h\<close> and \<^verbatim>\<open>monitor.skel.h\<close> are generated, and the remaining
  \<^verbatim>\<open>.c\<close> files are sample submissions and test drivers (\<^verbatim>\<open>headless_client.c\<close> and \<^verbatim>\<open>test_suite.c\<close> use types that no header
  declares and do not compile).
\<close>

end
